(* ===== verification/CPrelude.thy ===== *)
theory CPrelude
  imports Main
begin

section \<open>The fragment of C the repository relies on\<close>

text \<open>
  Shared by every component. Memory obtained from \<open>malloc\<close> is a \<open>block\<close>: a list of
  bytes in which \<open>None\<close> is a byte that was never written. Reading such a byte, or any
  byte outside the block, is undefined behaviour, and undefined behaviour is a value
  (\<open>Inl\<close> of a \<open>ub\<close>), never a silent default. A C string is a block with a NUL byte in
  it; \<open>cstr_of\<close> reads the string that a \<open>char *\<close> denotes.

  The functions of \<open><string.h>\<close> and \<open><stdlib.h>\<close> that the code calls are modelled here
  with the bounds they need; \<open>strncmp\<close> returns the byte difference, of which the code
  only uses whether it is zero.
\<close>

named_theorems cmem \<open>equations that evaluate the memory and string operations\<close>

subsection \<open>Undefined behaviour as a result\<close>

datatype ub =
    NullDeref
  | OutOfBounds
  | Uninit
  | UseAfterFree
  | DoubleFree
  | FreeOfWild
  | WrongMember
  | JoinDetached

type_synonym 'a res = "ub + 'a"

definition bindR :: "'a res \<Rightarrow> ('a \<Rightarrow> 'b res) \<Rightarrow> 'b res" where
  "bindR m f = (case m of Inl e \<Rightarrow> Inl e | Inr x \<Rightarrow> f x)"

lemma bindR_simps [simp]:
  "bindR (Inl e) f = Inl e"
  "bindR (Inr x) f = f x"
  by (simp_all add: bindR_def)

lemma bindR_cong [fundef_cong]:
  "m = m' \<Longrightarrow> (\<And>x. m' = Inr x \<Longrightarrow> f x = g x) \<Longrightarrow> bindR m f = bindR m' g"
  by (auto simp: bindR_def split: sum.splits)

lemma bindR_Inr_iff: "bindR m f = Inr y \<longleftrightarrow> (\<exists>x. m = Inr x \<and> f x = Inr y)"
  by (cases m) auto

lemma bindR_assoc: "bindR (bindR m f) g = bindR m (\<lambda>x. bindR (f x) g)"
  by (cases m) auto

text \<open>Dereferencing a pointer that may be \<open>NULL\<close>.\<close>

definition deref :: "'a option \<Rightarrow> 'a res" where
  "deref p = (case p of None \<Rightarrow> Inl NullDeref | Some x \<Rightarrow> Inr x)"

lemma deref_simps [simp]: "deref None = Inl NullDeref" "deref (Some x) = Inr x"
  by (simp_all add: deref_def)

subsection \<open>Characters\<close>

abbreviation NUL :: char where "NUL \<equiv> CHR 0x00"
abbreviation CR :: char where "CR \<equiv> CHR 0x0D"
abbreviation LF :: char where "LF \<equiv> CHR 0x0A"
abbreviation SP :: char where "SP \<equiv> CHR 0x20"

text \<open>
  \<open>iswspace\<close> in the C locale (the program never calls \<open>setlocale\<close>): horizontal tab, line
  feed, vertical tab, form feed, carriage return and space.
\<close>

definition iswspace :: "char \<Rightarrow> bool" where
  "iswspace c \<longleftrightarrow> c \<in> {CHR 0x09, CHR 0x0A, CHR 0x0B, CHR 0x0C, CHR 0x0D, CHR 0x20}"

lemma iswspace_NUL [simp]: "\<not> iswspace NUL"
  by (simp add: iswspace_def)

lemma iswspace_LF [simp]: "iswspace LF"
  by (simp add: iswspace_def)

lemma iswspace_SP [simp]: "iswspace SP"
  by (simp add: iswspace_def)

subsection \<open>Blocks\<close>

type_synonym block = "char option list"

definition malloc :: "nat \<Rightarrow> block" where
  "malloc n = replicate n None"

definition realloc :: "block \<Rightarrow> nat \<Rightarrow> block" where
  "realloc b n = take n b @ replicate (n - length b) None"

definition rd :: "block \<Rightarrow> nat \<Rightarrow> char res" where
  "rd b i = (if i < length b
     then (case b ! i of None \<Rightarrow> Inl Uninit | Some c \<Rightarrow> Inr c)
     else Inl OutOfBounds)"

definition wr :: "block \<Rightarrow> nat \<Rightarrow> char \<Rightarrow> block res" where
  "wr b i c = (if i < length b then Inr (b[i := Some c]) else Inl OutOfBounds)"

text \<open>Read the first \<open>n\<close> bytes, as \<open>write (fd, b, n)\<close> does.\<close>

definition rd_all :: "block \<Rightarrow> nat \<Rightarrow> char list res" where
  "rd_all b n = (if n \<le> length b
     then (if list_all (\<lambda>x. x \<noteq> None) (take n b) then Inr (map the (take n b)) else Inl Uninit)
     else Inl OutOfBounds)"

text \<open>Write a run of bytes at an offset.\<close>

definition wr_run :: "block \<Rightarrow> nat \<Rightarrow> char list \<Rightarrow> block res" where
  "wr_run b i cs = (if i + length cs \<le> length b
     then Inr (take i b @ map Some cs @ drop (i + length cs) b)
     else Inl OutOfBounds)"

definition memset :: "block \<Rightarrow> char \<Rightarrow> nat \<Rightarrow> block res" where
  "memset b c n = wr_run b 0 (replicate n c)"

lemma length_malloc [simp]: "length (malloc n) = n"
  by (simp add: malloc_def)

lemma length_realloc [simp]: "length (realloc b n) = n"
  by (simp add: realloc_def)

subsection \<open>Strings in blocks\<close>

fun cstr_of :: "block \<Rightarrow> string res" where
  "cstr_of [] = Inl OutOfBounds"
| "cstr_of (None # b) = Inl Uninit"
| "cstr_of (Some c # b) =
     (if c = NUL then Inr [] else bindR (cstr_of b) (\<lambda>s. Inr (c # s)))"

definition strlen :: "block \<Rightarrow> nat res" where
  "strlen b = bindR (cstr_of b) (\<lambda>s. Inr (length s))"

text \<open>The block that a string literal or an exact-fit copy occupies.\<close>

definition cstr :: "string \<Rightarrow> block" where
  "cstr s = map Some s @ [Some NUL]"

text \<open>
  \<open>strncat (dst, src, n)\<close> appends at most \<open>n\<close> bytes of \<open>src\<close>, stopping at a NUL, and
  always writes a terminating NUL. \<open>src\<close> is given as the bytes it can read.
\<close>

definition strncat :: "block \<Rightarrow> char list \<Rightarrow> nat \<Rightarrow> block res" where
  "strncat dst src n =
     bindR (strlen dst) (\<lambda>d. wr_run dst d (takeWhile (\<lambda>c. c \<noteq> NUL) (take n src) @ [NUL]))"

definition strcat :: "block \<Rightarrow> string \<Rightarrow> block res" where
  "strcat dst src = bindR (strlen dst) (\<lambda>d. wr_run dst d (src @ [NUL]))"

definition strcpy :: "block \<Rightarrow> string \<Rightarrow> block res" where
  "strcpy dst src = wr_run dst 0 (src @ [NUL])"

text \<open>
  \<open>strncpy\<close> copies at most \<open>n\<close> bytes and pads with NULs up to \<open>n\<close>; it writes no NUL of
  its own when the source has \<open>n\<close> or more bytes.
\<close>

definition strncpy :: "block \<Rightarrow> string \<Rightarrow> nat \<Rightarrow> block res" where
  "strncpy dst src n = wr_run dst 0 (take n src @ replicate (n - length src) NUL)"

fun strncmp :: "string \<Rightarrow> string \<Rightarrow> nat \<Rightarrow> int" where
  "strncmp s t 0 = 0"
| "strncmp [] [] (Suc n) = 0"
| "strncmp [] (d # ds) (Suc n) = - int (of_char d)"
| "strncmp (c # cs) [] (Suc n) = int (of_char c)"
| "strncmp (c # cs) (d # ds) (Suc n) =
     (if c = d then strncmp cs ds n else int (of_char c) - int (of_char d))"

text \<open>
  \<open>snprintf (buf, n, ...)\<close> of a formatted text: as much of it as fits in \<open>n - 1\<close>
  bytes, and a NUL (nothing at all for \<open>n = 0\<close>).
\<close>

definition snprintf :: "block \<Rightarrow> nat \<Rightarrow> string \<Rightarrow> block res" where
  "snprintf buf n s =
     (if n = 0 then Inr buf else wr_run buf 0 (take (n - 1) s @ [NUL]))"

subsection \<open>Facts about strings in blocks\<close>

abbreviation no_nul :: "string \<Rightarrow> bool" where
  "no_nul s \<equiv> NUL \<notin> set s"

lemma cstr_of_decomp:
  "cstr_of b = Inr s \<longleftrightarrow> (\<exists>r. b = map Some s @ Some NUL # r) \<and> no_nul s"
proof (induction b arbitrary: s rule: cstr_of.induct)
  case (3 c b)
  show ?case
  proof (cases s)
    case Nil
    then show ?thesis by (auto simp: bindR_Inr_iff)
  next
    case (Cons a t)
    with 3 show ?thesis by (auto simp: bindR_Inr_iff)
  qed
qed (auto simp: Cons_eq_append_conv Cons_eq_map_conv)

lemma cstr_of_mem [cmem]: "no_nul s \<Longrightarrow> cstr_of (map Some s @ Some NUL # r) = Inr s"
  by (auto simp: cstr_of_decomp)

lemma cstr_of_cstr [cmem]: "no_nul s \<Longrightarrow> cstr_of (cstr s) = Inr s"
  by (simp add: cstr_def cstr_of_mem)

lemma cstr_of_no_nul: "cstr_of b = Inr s \<Longrightarrow> no_nul s"
  by (simp add: cstr_of_decomp)

lemma cstr_of_length: "cstr_of b = Inr s \<Longrightarrow> length s < length b"
  by (auto simp: cstr_of_decomp)

lemma strlen_Inr_iff: "strlen b = Inr n \<longleftrightarrow> (\<exists>s. cstr_of b = Inr s \<and> n = length s)"
  by (auto simp: strlen_def bindR_Inr_iff)

lemma strlen_holds [cmem]: "cstr_of b = Inr s \<Longrightarrow> strlen b = Inr (length s)"
  by (simp add: strlen_def)

lemma strlen_less: "strlen b = Inr n \<Longrightarrow> n < length b"
  by (auto simp: strlen_Inr_iff dest: cstr_of_length)

text \<open>Appending a run and a NUL where the old terminator was.\<close>

lemma cstr_append_run:
  assumes "cstr_of b = Inr s" and "no_nul t" and "length s + length t < length b"
  shows "\<exists>b'. wr_run b (length s) (t @ [NUL]) = Inr b' \<and> cstr_of b' = Inr (s @ t)
    \<and> length b' = length b"
proof -
  from assms(1) obtain r where b: "b = map Some s @ Some NUL # r" and s: "no_nul s"
    by (auto simp: cstr_of_decomp)
  have "wr_run b (length s) (t @ [NUL])
      = Inr (map Some s @ map Some t @ Some NUL # drop (length t) r)"
    using assms(3) by (simp add: wr_run_def b)
  moreover have "cstr_of (map Some (s @ t) @ Some NUL # drop (length t) r) = Inr (s @ t)"
    using s assms(2) by (intro cstr_of_mem) auto
  ultimately show ?thesis
    using assms(3) by (auto simp: b)
qed

lemma strcat_holds:
  assumes "cstr_of b = Inr s" and "no_nul t" and "length s + length t < length b"
  shows "\<exists>b'. strcat b t = Inr b' \<and> cstr_of b' = Inr (s @ t) \<and> length b' = length b"
  using cstr_append_run [OF assms] assms(1) by (simp add: strcat_def cmem)

lemma no_nul_takeWhile: "no_nul (takeWhile (\<lambda>c. c \<noteq> NUL) s)"
  by (auto dest: set_takeWhileD)

lemma takeWhile_no_nul [simp]: "no_nul s \<Longrightarrow> takeWhile (\<lambda>c. c \<noteq> NUL) s = s"
  by (induction s) auto

lemma strncat_holds:
  assumes "cstr_of b = Inr s"
    and "length s + length (takeWhile (\<lambda>c. c \<noteq> NUL) (take n t)) < length b"
  shows "\<exists>b'. strncat b t n = Inr b'
    \<and> cstr_of b' = Inr (s @ takeWhile (\<lambda>c. c \<noteq> NUL) (take n t)) \<and> length b' = length b"
  using cstr_append_run [OF assms(1) no_nul_takeWhile assms(2)] assms(1)
  by (simp add: strncat_def cmem)

lemma realloc_holds:
  assumes "cstr_of b = Inr s" and "length s < n"
  shows "cstr_of (realloc b n) = Inr s"
proof -
  from assms(1) obtain r where b: "b = map Some s @ Some NUL # r" and s: "no_nul s"
    by (auto simp: cstr_of_decomp)
  from assms(2) obtain k where n: "n = Suc (length s + k)"
    by (auto simp: less_iff_Suc_add)
  have "take n b = map Some s @ Some NUL # take k r"
    by (simp add: b n)
  then show ?thesis
    using s by (simp add: realloc_def cstr_of_mem)
qed

lemma strncmp_self [simp]: "strncmp s s n = 0"
  by (induction s arbitrary: n) (case_tac n; simp)+

lemma of_char_zero_iff [simp]: "of_char c = (0::nat) \<longleftrightarrow> c = NUL"
  using of_char_eq_iff [of c NUL, where ?'a = nat] by simp

lemma strncmp_zero_iff:
  assumes "no_nul s" and "no_nul t"
  shows "strncmp s t n = 0 \<longleftrightarrow> take n s = take n t"
  using assms by (induction s t n rule: strncmp.induct) auto

end
