(* ===== verification/Stringh.thy ===== *)
theory Stringh
  imports CPrelude
begin

section \<open>String helpers (src/stringh.c)\<close>

text \<open>
  \<open>httpserv_streq\<close> compares two strings, \<open>httpserv_strstriplw\<close>, \<open>httpserv_strstriptw\<close>
  and \<open>httpserv_strstripltw\<close> strip leading, trailing and both kinds of white space in
  place. The in-place loops run on blocks, so every byte they touch is checked; the
  lemmas say which string they leave, and for which strings they leave the block.
\<close>

subsection \<open>Equality\<close>

definition httpserv_streq :: "string \<Rightarrow> string \<Rightarrow> int" where
  "httpserv_streq s1 s2 =
     (if length s1 = length s2 then strncmp s1 s2 (length s1) else 1)"

lemma streq_zero_iff [simp]:
  assumes "no_nul s1" and "no_nul s2"
  shows "httpserv_streq s1 s2 = 0 \<longleftrightarrow> s1 = s2"
  using assms by (auto simp: httpserv_streq_def strncmp_zero_iff)

subsection \<open>Stripping in place\<close>

text \<open>The inner \<open>for\<close> loop of \<open>httpserv_strstriplw\<close>: move every byte one to the left.\<close>

function strshift :: "nat \<Rightarrow> block \<Rightarrow> block res" where
  "strshift i b = bindR (strlen b) (\<lambda>n.
     if i \<le> n
     then bindR (rd b i) (\<lambda>c. bindR (wr b (i - 1) c) (\<lambda>b'. strshift (Suc i) b'))
     else Inr b)"
  by pat_completeness auto
termination
  by (relation "measure (\<lambda>(i, b). length b - i)")
    (auto simp: wr_def split: if_splits dest!: strlen_less)

declare strshift.simps [simp del]

lemma strshift_moves:
  assumes "no_nul p" and "c \<noteq> NUL" and "no_nul q"
  shows "strshift (Suc (length p)) (map Some p @ Some c # map Some q @ Some NUL # r)
    = Inr (map Some (p @ q) @ Some NUL # Some NUL # r)"
  using assms
proof (induction q arbitrary: p c)
  case Nil
  let ?b = "map Some p @ Some c # Some NUL # r"
  let ?b' = "map Some p @ Some NUL # Some NUL # r"
  have "cstr_of ?b = Inr (p @ [c])"
    using Nil by (auto simp: cstr_of_decomp)
  moreover have "cstr_of ?b' = Inr p"
    using Nil by (simp add: cmem)
  then have "strshift (Suc (Suc (length p))) ?b' = Inr ?b'"
    by (subst strshift.simps) (simp add: cmem)
  ultimately show ?case
    by (subst strshift.simps) (simp add: cmem rd_def wr_def nth_append list_update_append)
next
  case (Cons d q)
  let ?b = "map Some p @ Some c # Some d # map Some q @ Some NUL # r"
  have "cstr_of ?b = Inr (p @ c # d # q)"
    using Cons.prems by (auto simp: cstr_of_decomp)
  moreover have "strshift (Suc (length (p @ [d]))) (map Some (p @ [d]) @ Some d # map Some q @ Some NUL # r)
      = Inr (map Some ((p @ [d]) @ q) @ Some NUL # Some NUL # r)"
    using Cons.prems by (intro Cons.IH) auto
  ultimately show ?case
    by (subst strshift.simps) (simp add: cmem rd_def wr_def nth_append list_update_append)
qed

lemma strshift_drops_first:
  assumes "cstr_of b = Inr (c # s)"
  shows "\<exists>b'. strshift 1 b = Inr b' \<and> cstr_of b' = Inr s \<and> length b' = length b"
proof -
  from assms obtain r where b: "b = Some c # map Some s @ Some NUL # r" and "c \<noteq> NUL" "no_nul s"
    by (auto simp: cstr_of_decomp)
  then have "strshift 1 b = Inr (map Some s @ Some NUL # Some NUL # r)"
    using strshift_moves [of "[]" c s r] by simp
  with b \<open>no_nul s\<close> show ?thesis
    by (simp add: cmem)
qed

text \<open>The outer \<open>while\<close> loop of \<open>httpserv_strstriplw\<close>.\<close>

function strstriplw_loop :: "block \<Rightarrow> block res" where
  "strstriplw_loop b = bindR (rd b 0) (\<lambda>c.
     if iswspace c then bindR (strshift 1 b) (\<lambda>b'. strstriplw_loop b') else Inr b)"
  by pat_completeness auto
termination
proof (relation "measure (\<lambda>b. case strlen b of Inl _ \<Rightarrow> 0 | Inr n \<Rightarrow> n)")
  fix b c b'
  assume rd: "rd b 0 = Inr c" and ws: "iswspace c" and sh: "strshift 1 b = Inr b'"
  from sh obtain s where s: "cstr_of b = Inr s"
    by (subst (asm) strshift.simps) (auto simp: bindR_Inr_iff strlen_Inr_iff)
  with rd ws obtain t where t: "cstr_of b = Inr (c # t)"
    by (cases s) (auto simp: rd_def cstr_of_decomp split: option.splits)
  with sh have "cstr_of b' = Inr t"
    using strshift_drops_first [OF t] by auto
  with t show "(b', b) \<in> measure (\<lambda>b. case strlen b of Inl _ \<Rightarrow> 0 | Inr n \<Rightarrow> n)"
    by (simp add: cmem)
qed simp

declare strstriplw_loop.simps [simp del]

definition httpserv_strstriplw :: "block option \<Rightarrow> block option res" where
  "httpserv_strstriplw s = (case s of None \<Rightarrow> Inr None
     | Some b \<Rightarrow> bindR (strstriplw_loop b) (\<lambda>b'. Inr (Some b')))"

text \<open>
  The \<open>while\<close> loop of \<open>httpserv_strstriptw\<close>. For the empty string the index
  \<open>strlen(s) - 1\<close> lies before the block.
\<close>

function strstriptw_loop :: "block \<Rightarrow> block res" where
  "strstriptw_loop b = bindR (strlen b) (\<lambda>n. case n of
       0 \<Rightarrow> Inl OutOfBounds
     | Suc m \<Rightarrow> bindR (rd b m) (\<lambda>c.
         if iswspace c then bindR (wr b m NUL) (\<lambda>b'. strstriptw_loop b') else Inr b))"
  by pat_completeness auto
termination
proof (relation "measure (\<lambda>b. case strlen b of Inl _ \<Rightarrow> 0 | Inr n \<Rightarrow> n)")
  fix b n m c b'
  assume len: "strlen b = Inr n" and n: "n = Suc m" and w: "wr b m NUL = Inr b'"
  then obtain s where s: "cstr_of b = Inr s" "length s = Suc m"
    by (auto simp: strlen_Inr_iff)
  then obtain t d where st: "s = t @ [d]" "length t = m"
    by (cases s rule: rev_cases) auto
  with s w have "cstr_of b' = Inr t"
    by (auto simp: cstr_of_decomp wr_def list_update_append split: if_splits)
  with s st show "(b', b) \<in> measure (\<lambda>b. case strlen b of Inl _ \<Rightarrow> 0 | Inr n \<Rightarrow> n)"
    by (simp add: cmem)
qed simp

declare strstriptw_loop.simps [simp del]

definition httpserv_strstriptw :: "block option \<Rightarrow> block option res" where
  "httpserv_strstriptw s = (case s of None \<Rightarrow> Inr None
     | Some b \<Rightarrow> bindR (strstriptw_loop b) (\<lambda>b'. Inr (Some b')))"

definition httpserv_strstripltw :: "block option \<Rightarrow> block option res" where
  "httpserv_strstripltw s = (case s of None \<Rightarrow> Inr None
     | Some b \<Rightarrow> bindR (httpserv_strstriplw (Some b)) httpserv_strstriptw)"

subsection \<open>What the strings become\<close>

definition rstrip :: "string \<Rightarrow> string" where
  "rstrip s = rev (dropWhile iswspace (rev s))"

definition strip :: "string \<Rightarrow> string" where
  "strip s = rstrip (dropWhile iswspace s)"

lemma rstrip_snoc [simp]:
  "rstrip (s @ [c]) = (if iswspace c then rstrip s else s @ [c])"
  by (simp add: rstrip_def)

lemma strstriplw_loop_strips:
  "cstr_of b = Inr s \<Longrightarrow>
    \<exists>b'. strstriplw_loop b = Inr b' \<and> cstr_of b' = Inr (dropWhile iswspace s)
      \<and> length b' = length b"
proof (induction s arbitrary: b)
  case Nil
  then have "rd b 0 = Inr NUL" by (auto simp: cstr_of_decomp rd_def)
  with Nil show ?case by (simp add: strstriplw_loop.simps [of b])
next
  case (Cons c s)
  then have rd: "rd b 0 = Inr c" by (auto simp: cstr_of_decomp rd_def)
  show ?case
  proof (cases "iswspace c")
    case True
    obtain b' where "strshift 1 b = Inr b'" "cstr_of b' = Inr s" "length b' = length b"
      using strshift_drops_first [OF Cons.prems] by auto
    with Cons.IH [of b'] rd True show ?thesis
      by (simp add: strstriplw_loop.simps [of b])
  qed (use Cons rd in \<open>simp add: strstriplw_loop.simps [of b]\<close>)
qed

lemma strstriptw_step:
  assumes "cstr_of b = Inr (s @ [c])"
  shows "strlen b = Inr (Suc (length s))" and "rd b (length s) = Inr c"
    and "\<exists>b'. wr b (length s) NUL = Inr b' \<and> cstr_of b' = Inr s \<and> length b' = length b"
  using strlen_holds [OF assms] assms
  by (auto simp: cstr_of_decomp rd_def wr_def nth_append list_update_append)

lemma strstriptw_loop_strips:
  "cstr_of b = Inr s \<Longrightarrow> \<not> list_all iswspace s \<Longrightarrow>
    \<exists>b'. strstriptw_loop b = Inr b' \<and> cstr_of b' = Inr (rstrip s) \<and> length b' = length b"
proof (induction s arbitrary: b rule: rev_induct)
  case (snoc c s)
  note step = strstriptw_step [OF snoc.prems(1)]
  show ?case
  proof (cases "iswspace c")
    case True
    from step(3) obtain b' where
      b': "wr b (length s) NUL = Inr b'" "cstr_of b' = Inr s" "length b' = length b"
      by auto
    with snoc.IH [of b'] snoc.prems(2) step(1,2) True show ?thesis
      by (simp add: strstriptw_loop.simps [of b])
  qed (use snoc.prems step(1,2) in \<open>simp add: strstriptw_loop.simps [of b]\<close>)
qed simp

lemma strstriptw_loop_blank:
  "cstr_of b = Inr s \<Longrightarrow> list_all iswspace s \<Longrightarrow> strstriptw_loop b = Inl OutOfBounds"
proof (induction s arbitrary: b rule: rev_induct)
  case Nil
  then show ?case by (simp add: strstriptw_loop.simps [of b] cmem)
next
  case (snoc c s)
  note step = strstriptw_step [OF snoc.prems(1)]
  from step(3) obtain b' where "wr b (length s) NUL = Inr b'" "cstr_of b' = Inr s" by auto
  with snoc.IH [of b'] snoc.prems(2) step(1,2) show ?case
    by (simp add: strstriptw_loop.simps [of b])
qed

lemma list_all_dropWhile [simp]: "list_all P (dropWhile P s) \<longleftrightarrow> list_all P s"
  by (induction s) auto

lemma strstripltw_strips:
  assumes "cstr_of b = Inr s" and "\<not> list_all iswspace s"
  shows "\<exists>b'. httpserv_strstripltw (Some b) = Inr (Some b') \<and> cstr_of b' = Inr (strip s)
    \<and> length b' = length b"
proof -
  from strstriplw_loop_strips [OF assms(1)] obtain b1 where
    "strstriplw_loop b = Inr b1" "cstr_of b1 = Inr (dropWhile iswspace s)" "length b1 = length b"
    by auto
  with strstriptw_loop_strips [of b1 "dropWhile iswspace s"] assms(2) show ?thesis
    by (auto simp: httpserv_strstripltw_def httpserv_strstriplw_def httpserv_strstriptw_def strip_def)
qed

lemma strstripltw_blank:
  assumes "cstr_of b = Inr s" and "list_all iswspace s"
  shows "httpserv_strstripltw (Some b) = Inl OutOfBounds"
proof -
  from strstriplw_loop_strips [OF assms(1)] obtain b1 where
    "strstriplw_loop b = Inr b1" "cstr_of b1 = Inr (dropWhile iswspace s)"
    by auto
  with strstriptw_loop_blank [of b1 "dropWhile iswspace s"] assms(2) show ?thesis
    by (simp add: httpserv_strstripltw_def httpserv_strstriplw_def httpserv_strstriptw_def)
qed

subsection \<open>Properties\<close>

text \<open>
  C40: stripping both ends in place leaves the stripped string and stays inside the block
  exactly when the string has a character that is not white space. For an empty or blank
  string the trailing loop reads the byte before the block.
\<close>

theorem strstripltw_correct:
  assumes "cstr_of b = Inr s"
  shows "if list_all iswspace s then httpserv_strstripltw (Some b) = Inl OutOfBounds
    else (\<exists>b'. httpserv_strstripltw (Some b) = Inr (Some b') \<and> cstr_of b' = Inr (strip s)
      \<and> length b' = length b)"
  using strstripltw_strips [OF assms] strstripltw_blank [OF assms] by simp

theorem strstripltw_correct_witness:
  "(\<exists>b'. httpserv_strstripltw (Some (cstr ''  abc  '')) = Inr (Some b') \<and> cstr_of b' = Inr ''abc'')
    \<and> httpserv_strstripltw (Some (cstr [LF])) = Inl OutOfBounds"
proof -
  have s: "cstr_of (cstr ''  abc  '') = Inr ''  abc  ''" "cstr_of (cstr [LF]) = Inr [LF]"
    "strip ''  abc  '' = ''abc''" "\<not> list_all iswspace ''  abc  ''"
    by code_simp+
  show ?thesis
    using strstripltw_correct [OF s(1)] strstripltw_correct [OF s(2)] s(3,4) by auto
qed

text \<open>
  the comparison returns zero exactly for equal strings.
\<close>

theorem streq_decides_equality:
  assumes "no_nul s1" and "no_nul s2"
  shows "httpserv_streq s1 s2 = 0 \<longleftrightarrow> s1 = s2"
  by (rule streq_zero_iff [OF assms])

theorem streq_decides_equality_witness:
  "httpserv_streq ''abc'' ''abc'' = 0 \<and> httpserv_streq ''abc'' ''abd'' \<noteq> 0"
  using streq_decides_equality [of "''abc''" "''abc''"] streq_decides_equality [of "''abc''" "''abd''"]
  by simp

end
