(* ===== verification/Status.thy ===== *)
theory Status
  imports CPrelude
begin

section \<open>Status codes (include/http/status.h, src/http/status.c)\<close>

text \<open>
  The enumeration of the supported statuses, with the number each enumerator has, and the
  table of reason phrases. A variable of the enumeration type holds a number in C, so the
  functions take an \<open>int\<close>; \<open>status_code\<close> gives the number of an enumerator.
\<close>

datatype httpserv_http_status_t =
    HTTPSERV_HTTP_STATUS_CONTINUE
  | HTTPSERV_HTTP_STATUS_SWITCHING_PROTOCOLS
  | HTTPSERV_HTTP_STATUS_OK
  | HTTPSERV_HTTP_STATUS_CREATED
  | HTTPSERV_HTTP_STATUS_ACCEPTED
  | HTTPSERV_HTTP_STATUS_NON_AUTHORITATIVE_INFORMATION
  | HTTPSERV_HTTP_STATUS_NO_CONTENT
  | HTTPSERV_HTTP_STATUS_RESET_CONTENT
  | HTTPSERV_HTTP_STATUS_PARTIAL_CONTENT
  | HTTPSERV_HTTP_STATUS_MULTIPLE_CHOICES
  | HTTPSERV_HTTP_STATUS_MOVED_PERMANENTLY
  | HTTPSERV_HTTP_STATUS_FOUND
  | HTTPSERV_HTTP_STATUS_SEE_OTHER
  | HTTPSERV_HTTP_STATUS_NOT_MODIFIED
  | HTTPSERV_HTTP_STATUS_TEMPORARY_REDIRECT
  | HTTPSERV_HTTP_STATUS_PERMANENT_REDIRECT
  | HTTPSERV_HTTP_STATUS_BAD_REQUEST
  | HTTPSERV_HTTP_STATUS_UNAUTHORIZED
  | HTTPSERV_HTTP_STATUS_FORBIDDEN
  | HTTPSERV_HTTP_STATUS_NOT_FOUND
  | HTTPSERV_HTTP_STATUS_METHOD_NOT_ALLOWED
  | HTTPSERV_HTTP_STATUS_NOT_ACCEPTABLE
  | HTTPSERV_HTTP_STATUS_PROXY_AUTHENTICATION_REQUIRED
  | HTTPSERV_HTTP_STATUS_REQUEST_TIMEOUT
  | HTTPSERV_HTTP_STATUS_CONFLICT
  | HTTPSERV_HTTP_STATUS_GONE
  | HTTPSERV_HTTP_STATUS_LENGHT_REQUIRED
  | HTTPSERV_HTTP_STATUS_PRECONDITION_FAILED
  | HTTPSERV_HTTP_STATUS_PAYLOAD_TOO_LARGE
  | HTTPSERV_HTTP_STATUS_URI_TOO_LONG
  | HTTPSERV_HTTP_STATUS_UNSUPPORTED_MEDIA_TYPE
  | HTTPSERV_HTTP_STATUS_RANGE_NOT_SATISFIABLE
  | HTTPSERV_HTTP_STATUS_EXPECTATION_FAILED
  | HTTPSERV_HTTP_STATUS_IM_A_TEAPOT
  | HTTPSERV_HTTP_STATUS_UPGRADE_REQUIRED
  | HTTPSERV_HTTP_STATUS_PRECONDITION_REQUIRED
  | HTTPSERV_HTTP_STATUS_TOO_MANY_REQUESTS
  | HTTPSERV_HTTP_STATUS_REQUEST_HEADER_FIELDS_TOO_LARGE
  | HTTPSERV_HTTP_STATUS_UNAVAILABLE_FOR_LEGAL_REASONS
  | HTTPSERV_HTTP_STATUS_INTERNAL_SERVER_ERROR
  | HTTPSERV_HTTP_STATUS_NOT_IMPLEMENTED
  | HTTPSERV_HTTP_STATUS_BAD_GATEWAY
  | HTTPSERV_HTTP_STATUS_SERVICE_UNAVAILABLE
  | HTTPSERV_HTTP_STATUS_GATEWAY_TIMEOUT
  | HTTPSERV_HTTP_STATUS_HTTP_VERSION_NOT_SUPPORTED
  | HTTPSERV_HTTP_STATUS_VARIANT_ALSO_NEGOTIATES
  | HTTPSERV_HTTP_STATUS_NOT_EXTENDED
  | HTTPSERV_HTTP_STATUS_NETWORK_AUTHENTICATION_REQUIRED

fun status_code :: "httpserv_http_status_t \<Rightarrow> int" where
  "status_code HTTPSERV_HTTP_STATUS_CONTINUE = 100"
| "status_code HTTPSERV_HTTP_STATUS_SWITCHING_PROTOCOLS = 101"
| "status_code HTTPSERV_HTTP_STATUS_OK = 200"
| "status_code HTTPSERV_HTTP_STATUS_CREATED = 201"
| "status_code HTTPSERV_HTTP_STATUS_ACCEPTED = 202"
| "status_code HTTPSERV_HTTP_STATUS_NON_AUTHORITATIVE_INFORMATION = 203"
| "status_code HTTPSERV_HTTP_STATUS_NO_CONTENT = 204"
| "status_code HTTPSERV_HTTP_STATUS_RESET_CONTENT = 205"
| "status_code HTTPSERV_HTTP_STATUS_PARTIAL_CONTENT = 206"
| "status_code HTTPSERV_HTTP_STATUS_MULTIPLE_CHOICES = 300"
| "status_code HTTPSERV_HTTP_STATUS_MOVED_PERMANENTLY = 301"
| "status_code HTTPSERV_HTTP_STATUS_FOUND = 302"
| "status_code HTTPSERV_HTTP_STATUS_SEE_OTHER = 303"
| "status_code HTTPSERV_HTTP_STATUS_NOT_MODIFIED = 304"
| "status_code HTTPSERV_HTTP_STATUS_TEMPORARY_REDIRECT = 307"
| "status_code HTTPSERV_HTTP_STATUS_PERMANENT_REDIRECT = 308"
| "status_code HTTPSERV_HTTP_STATUS_BAD_REQUEST = 400"
| "status_code HTTPSERV_HTTP_STATUS_UNAUTHORIZED = 401"
| "status_code HTTPSERV_HTTP_STATUS_FORBIDDEN = 403"
| "status_code HTTPSERV_HTTP_STATUS_NOT_FOUND = 404"
| "status_code HTTPSERV_HTTP_STATUS_METHOD_NOT_ALLOWED = 405"
| "status_code HTTPSERV_HTTP_STATUS_NOT_ACCEPTABLE = 406"
| "status_code HTTPSERV_HTTP_STATUS_PROXY_AUTHENTICATION_REQUIRED = 407"
| "status_code HTTPSERV_HTTP_STATUS_REQUEST_TIMEOUT = 408"
| "status_code HTTPSERV_HTTP_STATUS_CONFLICT = 409"
| "status_code HTTPSERV_HTTP_STATUS_GONE = 410"
| "status_code HTTPSERV_HTTP_STATUS_LENGHT_REQUIRED = 411"
| "status_code HTTPSERV_HTTP_STATUS_PRECONDITION_FAILED = 412"
| "status_code HTTPSERV_HTTP_STATUS_PAYLOAD_TOO_LARGE = 413"
| "status_code HTTPSERV_HTTP_STATUS_URI_TOO_LONG = 414"
| "status_code HTTPSERV_HTTP_STATUS_UNSUPPORTED_MEDIA_TYPE = 415"
| "status_code HTTPSERV_HTTP_STATUS_RANGE_NOT_SATISFIABLE = 416"
| "status_code HTTPSERV_HTTP_STATUS_EXPECTATION_FAILED = 417"
| "status_code HTTPSERV_HTTP_STATUS_IM_A_TEAPOT = 418"
| "status_code HTTPSERV_HTTP_STATUS_UPGRADE_REQUIRED = 426"
| "status_code HTTPSERV_HTTP_STATUS_PRECONDITION_REQUIRED = 428"
| "status_code HTTPSERV_HTTP_STATUS_TOO_MANY_REQUESTS = 429"
| "status_code HTTPSERV_HTTP_STATUS_REQUEST_HEADER_FIELDS_TOO_LARGE = 431"
| "status_code HTTPSERV_HTTP_STATUS_UNAVAILABLE_FOR_LEGAL_REASONS = 451"
| "status_code HTTPSERV_HTTP_STATUS_INTERNAL_SERVER_ERROR = 500"
| "status_code HTTPSERV_HTTP_STATUS_NOT_IMPLEMENTED = 501"
| "status_code HTTPSERV_HTTP_STATUS_BAD_GATEWAY = 502"
| "status_code HTTPSERV_HTTP_STATUS_SERVICE_UNAVAILABLE = 503"
| "status_code HTTPSERV_HTTP_STATUS_GATEWAY_TIMEOUT = 504"
| "status_code HTTPSERV_HTTP_STATUS_HTTP_VERSION_NOT_SUPPORTED = 505"
| "status_code HTTPSERV_HTTP_STATUS_VARIANT_ALSO_NEGOTIATES = 506"
| "status_code HTTPSERV_HTTP_STATUS_NOT_EXTENDED = 510"
| "status_code HTTPSERV_HTTP_STATUS_NETWORK_AUTHENTICATION_REQUIRED = 511"

text \<open>The \<open>switch\<close> of \<open>httpserv_http_strstatus\<close>, case by case.\<close>

definition status_table :: "(int \<times> string) list" where
  "status_table =
    [ (100, ''Continue'')
    , (101, ''Switching Protocols'')
    , (200, ''OK'')
    , (201, ''Created'')
    , (202, ''Accepted'')
    , (203, ''Non-Authoritative Information'')
    , (204, ''No Content'')
    , (205, ''Reset Content'')
    , (206, ''Partial Content'')
    , (300, ''Multiple Choices'')
    , (301, ''Moved Permanently'')
    , (302, ''Found'')
    , (303, ''See Other'')
    , (304, ''Not Modified'')
    , (307, ''Temporary Redirect'')
    , (308, ''Permanent Redirect'')
    , (400, ''Bad Request'')
    , (401, ''Unauthorized'')
    , (403, ''Forbidden'')
    , (404, ''Not Found'')
    , (405, ''Method Not Allowed'')
    , (406, ''Not Acceptable'')
    , (407, ''Proxy Authentication Required'')
    , (408, ''Request Timeout'')
    , (409, ''Conflict'')
    , (410, ''Gone'')
    , (411, ''Lenght Required'')
    , (412, ''Precondition Failed'')
    , (413, ''Payload Too Large'')
    , (414, ''URI Too Long'')
    , (415, ''Unsupported Media Type'')
    , (416, ''Range Not Satisfiable'')
    , (417, ''Expectation Failed'')
    , (418, ''I'm a teapot'')
    , (426, ''Upgrade Required'')
    , (428, ''Precondition Required'')
    , (429, ''Too Many Requests'')
    , (431, ''Request Header Fields Too Large'')
    , (451, ''Unavailable For Legal Reasons'')
    , (500, ''Internal Server Error'')
    , (501, ''Not Implemented'')
    , (502, ''Bad Gateway'')
    , (503, ''Service Unavailable'')
    , (504, ''Gateway Timeout'')
    , (505, ''HTTP Version Not Supported'')
    , (506, ''Variant Also Negotiates'')
    , (510, ''Not Extended'')
    , (511, ''Network Authentication Required'') ]"

definition httpserv_http_strstatus :: "int \<Rightarrow> string option" where
  "httpserv_http_strstatus status = map_of status_table status"

definition httpserv_http_status_valid :: "int \<Rightarrow> bool" where
  "httpserv_http_status_valid status \<longleftrightarrow> httpserv_http_strstatus status \<noteq> None"

subsection \<open>Facts\<close>

lemma strstatus_no_nul: "httpserv_http_strstatus n = Some s \<Longrightarrow> no_nul s"
proof -
  have "list_all (\<lambda>p. no_nul (snd p)) status_table"
    by (simp add: status_table_def)
  moreover assume "httpserv_http_strstatus n = Some s"
  then have "(n, s) \<in> set status_table"
    by (auto simp: httpserv_http_strstatus_def dest: map_of_SomeD)
  ultimately show ?thesis by (auto simp: list_all_iff)
qed

lemma status_valid_iff: "httpserv_http_status_valid n \<longleftrightarrow> n \<in> fst ` set status_table"
  by (simp add: httpserv_http_status_valid_def httpserv_http_strstatus_def map_of_eq_None_iff)

lemma status_valid_bounds: "httpserv_http_status_valid n \<Longrightarrow> 100 \<le> n \<and> n \<le> 999"
  by (auto simp: status_valid_iff status_table_def)

text \<open>The enumerators in the order of their declaration.\<close>

definition all_statuses :: "httpserv_http_status_t list" where
  "all_statuses =
    [HTTPSERV_HTTP_STATUS_CONTINUE, HTTPSERV_HTTP_STATUS_SWITCHING_PROTOCOLS, HTTPSERV_HTTP_STATUS_OK,
     HTTPSERV_HTTP_STATUS_CREATED, HTTPSERV_HTTP_STATUS_ACCEPTED,
     HTTPSERV_HTTP_STATUS_NON_AUTHORITATIVE_INFORMATION, HTTPSERV_HTTP_STATUS_NO_CONTENT,
     HTTPSERV_HTTP_STATUS_RESET_CONTENT, HTTPSERV_HTTP_STATUS_PARTIAL_CONTENT,
     HTTPSERV_HTTP_STATUS_MULTIPLE_CHOICES, HTTPSERV_HTTP_STATUS_MOVED_PERMANENTLY,
     HTTPSERV_HTTP_STATUS_FOUND, HTTPSERV_HTTP_STATUS_SEE_OTHER, HTTPSERV_HTTP_STATUS_NOT_MODIFIED,
     HTTPSERV_HTTP_STATUS_TEMPORARY_REDIRECT, HTTPSERV_HTTP_STATUS_PERMANENT_REDIRECT,
     HTTPSERV_HTTP_STATUS_BAD_REQUEST, HTTPSERV_HTTP_STATUS_UNAUTHORIZED, HTTPSERV_HTTP_STATUS_FORBIDDEN,
     HTTPSERV_HTTP_STATUS_NOT_FOUND, HTTPSERV_HTTP_STATUS_METHOD_NOT_ALLOWED,
     HTTPSERV_HTTP_STATUS_NOT_ACCEPTABLE, HTTPSERV_HTTP_STATUS_PROXY_AUTHENTICATION_REQUIRED,
     HTTPSERV_HTTP_STATUS_REQUEST_TIMEOUT, HTTPSERV_HTTP_STATUS_CONFLICT, HTTPSERV_HTTP_STATUS_GONE,
     HTTPSERV_HTTP_STATUS_LENGHT_REQUIRED, HTTPSERV_HTTP_STATUS_PRECONDITION_FAILED,
     HTTPSERV_HTTP_STATUS_PAYLOAD_TOO_LARGE, HTTPSERV_HTTP_STATUS_URI_TOO_LONG,
     HTTPSERV_HTTP_STATUS_UNSUPPORTED_MEDIA_TYPE, HTTPSERV_HTTP_STATUS_RANGE_NOT_SATISFIABLE,
     HTTPSERV_HTTP_STATUS_EXPECTATION_FAILED, HTTPSERV_HTTP_STATUS_IM_A_TEAPOT,
     HTTPSERV_HTTP_STATUS_UPGRADE_REQUIRED, HTTPSERV_HTTP_STATUS_PRECONDITION_REQUIRED,
     HTTPSERV_HTTP_STATUS_TOO_MANY_REQUESTS, HTTPSERV_HTTP_STATUS_REQUEST_HEADER_FIELDS_TOO_LARGE,
     HTTPSERV_HTTP_STATUS_UNAVAILABLE_FOR_LEGAL_REASONS, HTTPSERV_HTTP_STATUS_INTERNAL_SERVER_ERROR,
     HTTPSERV_HTTP_STATUS_NOT_IMPLEMENTED, HTTPSERV_HTTP_STATUS_BAD_GATEWAY,
     HTTPSERV_HTTP_STATUS_SERVICE_UNAVAILABLE, HTTPSERV_HTTP_STATUS_GATEWAY_TIMEOUT,
     HTTPSERV_HTTP_STATUS_HTTP_VERSION_NOT_SUPPORTED, HTTPSERV_HTTP_STATUS_VARIANT_ALSO_NEGOTIATES,
     HTTPSERV_HTTP_STATUS_NOT_EXTENDED, HTTPSERV_HTTP_STATUS_NETWORK_AUTHENTICATION_REQUIRED]"

lemma all_statuses_complete: "set all_statuses = UNIV"
proof -
  have "s \<in> set all_statuses" for s by (cases s) (simp_all add: all_statuses_def)
  then show ?thesis by blast
qed

lemma all_statuses_numbers: "map status_code all_statuses = map fst status_table"
  "distinct (map status_code all_statuses)"
  by (simp_all add: all_statuses_def status_table_def)

subsection \<open>Properties\<close>

text \<open>
  the table and the enumeration agree. A number has a reason phrase exactly when it is
  the number of an enumerator, and no two enumerators share a number.
\<close>

theorem status_valid_iff_enumerator:
  "(httpserv_http_status_valid n \<longleftrightarrow> (\<exists>s. status_code s = n))
    \<and> (status_code s1 = status_code s2 \<longleftrightarrow> s1 = s2)"
proof -
  have "fst ` set status_table = range status_code"
    unfolding all_statuses_complete [symmetric] set_map [symmetric] all_statuses_numbers(1) ..
  moreover have "inj status_code"
    using all_statuses_numbers(2) unfolding distinct_map all_statuses_complete by blast
  ultimately show ?thesis by (auto simp: status_valid_iff dest: injD)
qed

end
