(* ===== verification/RawData.thy ===== *)
theory RawData
  imports CPrelude
begin

section \<open>Raw data (include/data.h, src/data.c)\<close>

text \<open>
  Bytes that need not be a string, and their number. \<open>content\<close> is a pointer and may be
  \<open>NULL\<close>; the block it points to may be larger than \<open>len\<close>.
\<close>

record httpserv_raw_data_t =
  content :: "block option"
  len :: nat

definition httpserv_raw_data_init :: httpserv_raw_data_t where
  "httpserv_raw_data_init = \<lparr>content = None, len = 0\<rparr>"

text \<open>The bytes that writing the whole of the raw data puts on a connection.\<close>

definition raw_bytes :: "httpserv_raw_data_t \<Rightarrow> string res" where
  "raw_bytes raw = bindR (deref (content raw)) (\<lambda>b. rd_all b (len raw))"

end
