(* ===== verification/StrBuild.thy ===== *)
theory StrBuild
  imports CPrelude
begin

section \<open>Strings grown one character at a time\<close>

text \<open>
  Every parser of the repository collects tokens in a heap string that it grows by one
  character. Two idioms occur: \<open>realloc\<close> then \<open>strncat\<close> (src/http/request.c,
  src/router.c) and \<open>strncat\<close> then \<open>realloc\<close> (src/config.c). Both promise the same: the
  string gets one character longer, no byte outside the block is touched, and a NUL
  character adds nothing. The locale states that contract; the two interpretations
  discharge it for the two idioms.
\<close>

subsection \<open>The two idioms\<close>

definition realloc_append :: "block \<Rightarrow> char \<Rightarrow> block res" where
  "realloc_append s c = bindR (strlen s) (\<lambda>n. strncat (realloc s (n + 2)) [c] 1)"

definition append_realloc :: "block \<Rightarrow> char \<Rightarrow> block res" where
  "append_realloc s c =
     bindR (strncat s [c] 1) (\<lambda>s'. bindR (strlen s') (\<lambda>n. Inr (realloc s' (n + 2))))"

subsection \<open>The contract\<close>

locale str_builder =
  fixes holds :: "block \<Rightarrow> string \<Rightarrow> bool"
    and push :: "block \<Rightarrow> char \<Rightarrow> block res"
  assumes holds_cstr: "holds b s \<Longrightarrow> cstr_of b = Inr s"
    and push_char: "holds b s \<Longrightarrow> c \<noteq> NUL \<Longrightarrow> \<exists>b'. push b c = Inr b' \<and> holds b' (s @ [c])"
    and push_nul: "holds b s \<Longrightarrow> \<exists>b'. push b NUL = Inr b' \<and> holds b' s"
begin

primrec pushes :: "block \<Rightarrow> string \<Rightarrow> block res" where
  "pushes b [] = Inr b"
| "pushes b (c # cs) = bindR (push b c) (\<lambda>b'. pushes b' cs)"

lemma push_any: "holds b s \<Longrightarrow> \<exists>b'. push b c = Inr b' \<and> holds b' (s @ filter (\<lambda>c. c \<noteq> NUL) [c])"
  using push_char push_nul by (cases "c = NUL") auto

lemma pushE:
  assumes "holds b s" and "c \<noteq> NUL"
  obtains b' where "push b c = Inr b'" and "holds b' (s @ [c])"
  using push_char [OF assms] by blast

lemma pushes_hold:
  "holds b s \<Longrightarrow> \<exists>b'. pushes b cs = Inr b' \<and> holds b' (s @ filter (\<lambda>c. c \<noteq> NUL) cs)"
proof (induction cs arbitrary: b s)
  case (Cons c cs)
  from push_any [OF Cons.prems, of c] obtain b1 where
    b1: "push b c = Inr b1" "holds b1 (s @ filter (\<lambda>c. c \<noteq> NUL) [c])" by blast
  with Cons.IH [OF b1(2)] show ?case by (cases "c = NUL") simp_all
qed simp

text \<open>Appending never fails, and what was collected is what the string denotes.\<close>

lemma pushes_cstr:
  assumes "holds b s" and "pushes b cs = Inr b'"
  shows "cstr_of b' = Inr (s @ filter (\<lambda>c. c \<noteq> NUL) cs)"
  using pushes_hold [OF assms(1), of cs] assms(2) by (auto dest: holds_cstr)

end

subsection \<open>Both idioms keep it\<close>

definition exact_string :: "block \<Rightarrow> string \<Rightarrow> bool" where
  "exact_string b s \<longleftrightarrow> cstr_of b = Inr s"

definition roomy_string :: "block \<Rightarrow> string \<Rightarrow> bool" where
  "roomy_string b s \<longleftrightarrow> cstr_of b = Inr s \<and> length s + 2 \<le> length b"

lemma realloc_append_step:
  assumes "cstr_of b = Inr s"
  shows "\<exists>b'. realloc_append b c = Inr b' \<and> cstr_of b' = Inr (s @ filter (\<lambda>c. c \<noteq> NUL) [c])"
  using strncat_holds [of "realloc b (length s + 2)" s 1 "[c]"] realloc_holds [OF assms] assms
  by (cases "c = NUL") (auto simp: realloc_append_def cmem)

lemma append_realloc_step:
  assumes "cstr_of b = Inr s" and "length s + 2 \<le> length b"
  shows "\<exists>b'. append_realloc b c = Inr b'
    \<and> cstr_of b' = Inr (s @ filter (\<lambda>c. c \<noteq> NUL) [c])
    \<and> length b' = length s + length (filter (\<lambda>c. c \<noteq> NUL) [c]) + 2"
proof -
  let ?t = "s @ filter (\<lambda>c. c \<noteq> NUL) [c]"
  obtain b1 where b1: "strncat b [c] 1 = Inr b1" "cstr_of b1 = Inr ?t"
    using strncat_holds [of b s 1 "[c]"] assms by (cases "c = NUL") auto
  with realloc_holds [OF b1(2), of "length ?t + 2"] show ?thesis
    by (simp add: append_realloc_def cmem)
qed

interpretation ra: str_builder exact_string realloc_append
  using realloc_append_step by unfold_locales (fastforce simp: exact_string_def)+

interpretation ar: str_builder roomy_string append_realloc
  using append_realloc_step by unfold_locales (fastforce simp: roomy_string_def)+

end
