(* ===== verification/Request.thy ===== *)
theory Request
  imports RawData StrBuild Stringh
begin

section \<open>HTTP requests (include/http/request.h, src/http/request.c)\<close>

text \<open>
  The method table, the request record with its operations, and the parser
  \<open>httpserv_http_request_from_raw\<close>. The parser's four loops are four functions over the
  index \<open>i\<close> into the raw block; \<open>pos\<close> is always the index of the next byte when a loop
  ends. Every read goes through \<open>rd\<close>, so a read outside the block is an error of the
  model; returning \<open>NULL\<close> is \<open>None\<close>. Indices are \<open>int\<close> in the code, so the model
  is about raw data shorter than \<open>2 ^ 31\<close> bytes.
\<close>

subsection \<open>Methods\<close>

datatype httpserv_http_method_t =
    HTTPSERV_HTTP_METHOD_GET
  | HTTPSERV_HTTP_METHOD_POST
  | HTTPSERV_HTTP_METHOD_PUT
  | HTTPSERV_HTTP_METHOD_DELETE
  | HTTPSERV_HTTP_METHOD_CONNECT
  | HTTPSERV_HTTP_METHOD_OPTIONS
  | HTTPSERV_HTTP_METHOD_TRACE
  | HTTPSERV_HTTP_METHOD_PATCH
  | HTTPSERV_HTTP_METHOD_INVALID

fun httpserv_http_strmethod :: "httpserv_http_method_t \<Rightarrow> string option" where
  "httpserv_http_strmethod HTTPSERV_HTTP_METHOD_GET = Some ''GET''"
| "httpserv_http_strmethod HTTPSERV_HTTP_METHOD_POST = Some ''POST''"
| "httpserv_http_strmethod HTTPSERV_HTTP_METHOD_PUT = Some ''PUT''"
| "httpserv_http_strmethod HTTPSERV_HTTP_METHOD_DELETE = Some ''DELETE''"
| "httpserv_http_strmethod HTTPSERV_HTTP_METHOD_CONNECT = Some ''CONNECT''"
| "httpserv_http_strmethod HTTPSERV_HTTP_METHOD_OPTIONS = Some ''OPTIONS''"
| "httpserv_http_strmethod HTTPSERV_HTTP_METHOD_TRACE = Some ''TRACE''"
| "httpserv_http_strmethod HTTPSERV_HTTP_METHOD_PATCH = Some ''PATCH''"
| "httpserv_http_strmethod HTTPSERV_HTTP_METHOD_INVALID = None"

definition httpserv_http_strtomethod :: "string \<Rightarrow> httpserv_http_method_t" where
  "httpserv_http_strtomethod s =
     (if httpserv_streq s ''GET'' = 0 then HTTPSERV_HTTP_METHOD_GET
      else if httpserv_streq s ''POST'' = 0 then HTTPSERV_HTTP_METHOD_POST
      else if httpserv_streq s ''PUT'' = 0 then HTTPSERV_HTTP_METHOD_PUT
      else if httpserv_streq s ''DELETE'' = 0 then HTTPSERV_HTTP_METHOD_DELETE
      else if httpserv_streq s ''CONNECT'' = 0 then HTTPSERV_HTTP_METHOD_CONNECT
      else if httpserv_streq s ''OPTIONS'' = 0 then HTTPSERV_HTTP_METHOD_OPTIONS
      else if httpserv_streq s ''TRACE'' = 0 then HTTPSERV_HTTP_METHOD_TRACE
      else if httpserv_streq s ''PATCH'' = 0 then HTTPSERV_HTTP_METHOD_PATCH
      else HTTPSERV_HTTP_METHOD_INVALID)"

subsection \<open>The request and its operations\<close>

record httpserv_http_request_t =
  req_method :: httpserv_http_method_t
  path :: string
  headers :: "string list"
  numheaders :: nat
  body :: "block option"
  content_length :: nat

definition httpserv_http_request_new ::
  "httpserv_http_method_t \<Rightarrow> string \<Rightarrow> httpserv_http_request_t" where
  "httpserv_http_request_new m p =
     \<lparr>req_method = m, path = p, headers = [], numheaders = 0, body = None, content_length = 0\<rparr>"

text \<open>\<open>memcpy\<close> reads \<open>n\<close> bytes of the given block.\<close>

definition httpserv_http_request_set_body ::
  "httpserv_http_request_t \<Rightarrow> block \<Rightarrow> nat \<Rightarrow> httpserv_http_request_t res" where
  "httpserv_http_request_set_body req b n =
     (if n \<le> length b
      then Inr (req\<lparr>body := Some (take n b), content_length := n\<rparr>)
      else Inl OutOfBounds)"

text \<open>The new array slot holds a string printed into a buffer of exactly its size.\<close>

definition httpserv_http_request_add_header ::
  "httpserv_http_request_t \<Rightarrow> string \<Rightarrow> string \<Rightarrow> httpserv_http_request_t res" where
  "httpserv_http_request_add_header req key value =
     (let n = length key + length value + 3 in
      bindR (snprintf (malloc n) n (key @ '': '' @ value)) (\<lambda>buf.
      bindR (cstr_of buf) (\<lambda>h.
        Inr (req\<lparr>numheaders := numheaders req + 1, headers := headers req @ [h]\<rparr>))))"

text \<open>
  The search of \<open>httpserv_http_request_get_header\<close>: the first header that begins with the
  key. The result points \<open>strlen(key) + 2\<close> bytes into it.
\<close>

fun get_header_loop :: "string list \<Rightarrow> string \<Rightarrow> string option res" where
  "get_header_loop [] key = Inr None"
| "get_header_loop (h # hs) key =
     (if strncmp h key (length key) = 0
      then (if length key + 2 \<le> length h then Inr (Some (drop (length key + 2) h))
            else Inl OutOfBounds)
      else get_header_loop hs key)"

definition httpserv_http_request_get_header ::
  "httpserv_http_request_t option \<Rightarrow> string \<Rightarrow> string option res" where
  "httpserv_http_request_get_header req key = (case req of None \<Rightarrow> Inr None
     | Some r \<Rightarrow> if numheaders r \<le> length (headers r)
         then get_header_loop (take (numheaders r) (headers r)) key else Inl OutOfBounds)"

text \<open>
  \<open>httpserv_http_request_build\<close> computes the length of the request text and allocates a
  block of that size, which it does not fill.
\<close>

definition httpserv_http_request_build ::
  "httpserv_http_request_t \<Rightarrow> httpserv_raw_data_t res" where
  "httpserv_http_request_build req =
     bindR (deref (httpserv_http_strmethod (req_method req))) (\<lambda>m.
       if numheaders req \<le> length (headers req)
       then
         (let n = 9 + length m + 1 + length (path req) + 4 + content_length req
             + (\<Sum>h\<leftarrow>take (numheaders req) (headers req). length h + 2)
          in Inr \<lparr>content = Some (malloc n), len = n\<rparr>)
       else Inl OutOfBounds)"

subsection \<open>The parser\<close>

text \<open>The first loop: the method, up to the first space.\<close>

function read_method :: "block \<Rightarrow> nat \<Rightarrow> nat \<Rightarrow> block \<Rightarrow> (nat \<times> block) res" where
  "read_method b n i s =
     (if i < n
      then bindR (rd b i) (\<lambda>c.
        if c = SP then Inr (i + 1, s)
        else bindR (realloc_append s c) (\<lambda>s'. read_method b n (i + 1) s'))
      else Inr (i, s))"
  by pat_completeness auto
termination by (relation "measure (\<lambda>(b, n, i, s). n - i)") auto

text \<open>
  The second loop: the path, up to the next space, after which one more byte is skipped.
  \<open>None\<close> is the return of \<open>NULL\<close> when the last byte is reached.
\<close>

function read_path :: "block \<Rightarrow> nat \<Rightarrow> nat \<Rightarrow> block \<Rightarrow> (nat \<times> block) option res" where
  "read_path b n i p =
     (if i < n
      then if n - 1 \<le> i then Inr None
        else bindR (rd b i) (\<lambda>c.
          if c = SP then Inr (Some (i + 2, p))
          else bindR (realloc_append p c) (\<lambda>p'. read_path b n (i + 1) p'))
      else Inr (Some (i, p)))"
  by pat_completeness auto
termination by (relation "measure (\<lambda>(b, n, i, p). n - i)") auto

text \<open>Two adjacent bytes; the second is only read when the first one matches.\<close>

definition at_pair :: "block \<Rightarrow> nat \<Rightarrow> char \<Rightarrow> char \<Rightarrow> bool res" where
  "at_pair b i x y =
     bindR (rd b i) (\<lambda>c. if c = x then bindR (rd b (i + 1)) (\<lambda>d. Inr (d = y)) else Inr False)"

text \<open>The third loop: to the end of the request line.\<close>

function skip_line :: "block \<Rightarrow> nat \<Rightarrow> nat \<Rightarrow> nat res" where
  "skip_line b n i =
     (if i < n
      then bindR (at_pair b i CR LF) (\<lambda>crlf. if crlf then Inr (i + 2) else skip_line b n (i + 1))
      else Inr i)"
  by pat_completeness auto
termination by (relation "measure (\<lambda>(b, n, i). n - i)") auto

text \<open>
  The fourth loop: the headers. \<open>keyread\<close> says whether the key of the current header is
  complete; an empty key and an empty value in front of CR LF end the headers.
\<close>

function read_headers :: "block \<Rightarrow> nat \<Rightarrow> nat \<Rightarrow> bool \<Rightarrow> block \<Rightarrow> block
    \<Rightarrow> httpserv_http_request_t \<Rightarrow> httpserv_http_request_t option res" where
  "read_headers b n i keyread key value req =
     (if i < n
      then if n - 1 \<le> i then Inr None
        else
          bindR (cstr_of key) (\<lambda>k.
          bindR (cstr_of value) (\<lambda>v.
          bindR (if httpserv_streq k '''' = 0 \<and> httpserv_streq v '''' = 0
                 then at_pair b i CR LF else Inr False) (\<lambda>no_more.
          if no_more then Inr (Some req)
          else
            bindR (if \<not> keyread then at_pair b i (CHR '':'') SP else Inr False) (\<lambda>colon.
            if colon then read_headers b n (i + 2) True key value req
            else if \<not> keyread then
              bindR (rd b i) (\<lambda>c. bindR (realloc_append key c) (\<lambda>key'.
                read_headers b n (i + 1) keyread key' value req))
            else
              bindR (at_pair b i CR LF) (\<lambda>crlf.
              if crlf then
                bindR (httpserv_http_request_add_header req k v) (\<lambda>req'.
                bindR (memset key NUL (length k + 1)) (\<lambda>key'.
                bindR (memset value NUL (length v + 1)) (\<lambda>value'.
                  read_headers b n (i + 2) False key' value' req')))
              else
                bindR (rd b i) (\<lambda>c. bindR (realloc_append value c) (\<lambda>value'.
                  read_headers b n (i + 1) keyread key value' req)))))))
      else Inr (Some req))"
  by pat_completeness auto
termination by (relation "measure (\<lambda>(b, n, i, kr, k, v, r). n - i)") auto

declare read_method.simps [simp del] read_path.simps [simp del]
  skip_line.simps [simp del] read_headers.simps [simp del]

definition empty_string :: "block res" where
  "empty_string = wr (malloc 1) 0 NUL"

definition httpserv_http_request_from_raw ::
  "httpserv_raw_data_t \<Rightarrow> httpserv_http_request_t option res" where
  "httpserv_http_request_from_raw raw =
     bindR empty_string (\<lambda>smethod0.
     bindR (if len raw = 0 then Inr [] else deref (content raw)) (\<lambda>b.
     bindR (read_method b (len raw) 0 smethod0) (\<lambda>(pos1, smethod).
     bindR (cstr_of smethod) (\<lambda>m.
     let mth = httpserv_http_strtomethod m in
     if mth = HTTPSERV_HTTP_METHOD_INVALID then Inr None
     else
       bindR empty_string (\<lambda>path0.
       bindR (read_path b (len raw) pos1 path0) (\<lambda>r. case r of
         None \<Rightarrow> Inr None
       | Some (pos2, pathb) \<Rightarrow>
           bindR (skip_line b (len raw) pos2) (\<lambda>pos3.
           bindR (cstr_of pathb) (\<lambda>p.
           bindR empty_string (\<lambda>key.
           bindR empty_string (\<lambda>value.
             read_headers b (len raw) pos3 False key value
               (httpserv_http_request_new mth p)))))))))))"

end
