(* ===== verification/RequestParse.thy ===== *)
theory RequestParse
  imports Request
begin

section \<open>What the request parser returns\<close>

text \<open>
  The loops of the parser, one lemma each: on which bytes a loop stops, where it stops
  and what it has collected. The lemmas compose to the parse of a whole well-formed
  request, and separately to memory safety on arbitrary bytes.
\<close>

subsection \<open>Bytes at the front of a block\<close>

definition holds_text :: "block \<Rightarrow> string \<Rightarrow> bool" where
  "holds_text b s \<longleftrightarrow> (\<exists>r. b = map Some s @ r)"

lemma holds_text_rd: "holds_text b (p @ c # q) \<Longrightarrow> rd b (length p) = Inr c"
  by (auto simp: holds_text_def rd_def nth_append)

lemma holds_text_at_pair: "holds_text b (p @ c # d # q) \<Longrightarrow> at_pair b (length p) x y = Inr (c = x \<and> d = y)"
  using holds_text_rd [of b p c "d # q"] holds_text_rd [of b "p @ [c]" d q]
  by (auto simp: at_pair_def)

lemma holds_text_at_pair_neq:
  "holds_text b (p @ c # q) \<Longrightarrow> c \<noteq> x \<Longrightarrow> at_pair b (length p) x y = Inr False"
  using holds_text_rd [of b p c q] by (simp add: at_pair_def)

lemma exact_cstr: "exact_string b s \<longleftrightarrow> cstr_of b = Inr s"
  by (simp add: exact_string_def)

lemma empty_string_exact: "\<exists>b. empty_string = Inr b \<and> exact_string b []"
  by (simp add: empty_string_def wr_def malloc_def exact_string_def)

lemma memset_clears:
  "exact_string b s \<Longrightarrow> \<exists>b'. memset b NUL (length s + 1) = Inr b' \<and> exact_string b' []"
  by (auto simp: memset_def wr_run_def exact_string_def dest: cstr_of_length)

lemma add_header_ok:
  assumes "no_nul k" and "no_nul v"
  shows "httpserv_http_request_add_header req k v =
    Inr (req\<lparr>numheaders := numheaders req + 1, headers := headers req @ [k @ '': '' @ v]\<rparr>)"
proof -
  let ?h = "k @ '': '' @ v"
  have "snprintf (malloc (length k + length v + 3)) (length k + length v + 3) ?h = Inr (cstr ?h)"
    by (simp add: snprintf_def wr_run_def cstr_def malloc_def)
  then show ?thesis
    using assms by (simp add: httpserv_http_request_add_header_def cmem)
qed

subsection \<open>The four loops\<close>

lemma read_method_space:
  "holds_text b (p @ m @ SP # q) \<Longrightarrow> SP \<notin> set m \<Longrightarrow> no_nul m \<Longrightarrow> exact_string s t \<Longrightarrow>
    length p + length m < n \<Longrightarrow>
    \<exists>s'. read_method b n (length p) s = Inr (length p + length m + 1, s')
      \<and> exact_string s' (t @ m)"
proof (induction m arbitrary: p s t)
  case Nil
  then have "rd b (length p) = Inr SP" by (intro holds_text_rd) simp
  with Nil show ?case by (simp add: read_method.simps [of b n "length p"])
next
  case (Cons c m)
  then have rd: "rd b (length p) = Inr c" by (intro holds_text_rd) simp
  have c: "c \<noteq> NUL" "c \<noteq> SP" using Cons.prems(2,3) by auto
  have lt: "\<not> n - 1 \<le> length p" using Cons.prems(5) by simp
  obtain s1 where s1: "realloc_append s c = Inr s1" "exact_string s1 (t @ [c])"
    using Cons.prems(4) c(1) by (rule ra.pushE)
  from Cons.IH [of "p @ [c]" s1 "t @ [c]"] Cons.prems s1 rd c lt show ?case
    by (simp add: read_method.simps [of b n "length p"])
qed

lemma read_path_space:
  "holds_text b (p @ m @ SP # q) \<Longrightarrow> SP \<notin> set m \<Longrightarrow> no_nul m \<Longrightarrow> exact_string s t \<Longrightarrow>
    length p + length m + 1 < n \<Longrightarrow>
    \<exists>s'. read_path b n (length p) s = Inr (Some (length p + length m + 2, s'))
      \<and> exact_string s' (t @ m)"
proof (induction m arbitrary: p s t)
  case Nil
  then have "rd b (length p) = Inr SP" by (intro holds_text_rd) simp
  moreover have "\<not> n - 1 \<le> length p" using Nil by simp
  ultimately show ?case using Nil by (simp add: read_path.simps [of b n "length p"])
next
  case (Cons c m)
  then have rd: "rd b (length p) = Inr c" by (intro holds_text_rd) simp
  have c: "c \<noteq> NUL" "c \<noteq> SP" using Cons.prems(2,3) by auto
  have lt: "\<not> n - 1 \<le> length p" using Cons.prems(5) by simp
  obtain s1 where s1: "realloc_append s c = Inr s1" "exact_string s1 (t @ [c])"
    using Cons.prems(4) c(1) by (rule ra.pushE)
  from Cons.IH [of "p @ [c]" s1 "t @ [c]"] Cons.prems s1 rd c lt show ?case
    by (simp add: read_path.simps [of b n "length p"])
qed

lemma skip_line_crlf:
  "holds_text b (p @ l @ CR # LF # q) \<Longrightarrow> CR \<notin> set l \<Longrightarrow> length p + length l < n \<Longrightarrow>
    skip_line b n (length p) = Inr (length p + length l + 2)"
proof (induction l arbitrary: p)
  case Nil
  with holds_text_at_pair [of b p CR LF q CR LF] show ?case
    by (simp add: skip_line.simps [of b n "length p"])
next
  case (Cons c l)
  then have "at_pair b (length p) CR LF = Inr False"
    by (intro holds_text_at_pair_neq) auto
  with Cons.IH [of "p @ [c]"] Cons.prems show ?case
    by (simp add: skip_line.simps [of b n "length p"])
qed

text \<open>Reading a key that ends in a colon and a space.\<close>

lemma read_headers_key:
  "holds_text b (p @ k @ CHR '':'' # SP # q) \<Longrightarrow> CHR '':'' \<notin> set k \<Longrightarrow> CR \<notin> set k \<Longrightarrow> no_nul k \<Longrightarrow>
    exact_string kb t \<Longrightarrow> exact_string vb [] \<Longrightarrow> length p + length k + 1 < n \<Longrightarrow>
    \<exists>kb'. exact_string kb' (t @ k) \<and>
      read_headers b n (length p) False kb vb req =
      read_headers b n (length p + length k + 2) True kb' vb req"
proof (induction k arbitrary: p kb t)
  case Nil
  then have "at_pair b (length p) (CHR '':'') SP = Inr True"
    using holds_text_at_pair [of b p "CHR '':''" SP q] by simp
  moreover have "at_pair b (length p) CR LF = Inr False"
    using Nil by (intro holds_text_at_pair_neq) auto
  moreover have "\<not> n - 1 \<le> length p" using Nil by simp
  ultimately show ?case
    using Nil by (intro exI [of _ kb]) (simp add: read_headers.simps [of b n "length p"] exact_cstr)
next
  case (Cons c k)
  have c: "c \<noteq> NUL" "c \<noteq> CR" "c \<noteq> CHR '':''"
    using Cons.prems by auto
  have step: "rd b (length p) = Inr c" "at_pair b (length p) CR LF = Inr False"
    "at_pair b (length p) (CHR '':'') SP = Inr False"
    using Cons.prems(1) c by (auto intro!: holds_text_rd holds_text_at_pair_neq)
  obtain kb1 where kb1: "realloc_append kb c = Inr kb1" "exact_string kb1 (t @ [c])"
    using Cons.prems(5) c(1) by (rule ra.pushE)
  from Cons.IH [of "p @ [c]" kb1 "t @ [c]"] Cons.prems kb1(2) obtain kb' where
    "exact_string kb' ((t @ [c]) @ k)"
    "read_headers b n (Suc (length p)) False kb1 vb req =
      read_headers b n (Suc (Suc (Suc (length p + length k)))) True kb' vb req"
    by auto
  moreover have "\<not> n - 1 \<le> length p" using Cons.prems(7) by simp
  ultimately show ?case
    using step kb1 Cons.prems by (intro exI [of _ kb']) (simp add: read_headers.simps [of b n "length p"] exact_cstr)
qed

text \<open>Reading a value up to the end of its line, which adds the header.\<close>

lemma read_headers_value:
  "holds_text b (p @ v @ CR # LF # q) \<Longrightarrow> CR \<notin> set v \<Longrightarrow> no_nul v \<Longrightarrow> k \<noteq> [] \<Longrightarrow>
    exact_string kb k \<Longrightarrow> exact_string vb t \<Longrightarrow> length p + length v + 1 < n \<Longrightarrow>
    \<exists>kb' vb'. exact_string kb' [] \<and> exact_string vb' [] \<and>
      read_headers b n (length p) True kb vb req =
      read_headers b n (length p + length v + 2) False kb' vb'
        (req\<lparr>numheaders := numheaders req + 1, headers := headers req @ [k @ '': '' @ t @ v]\<rparr>)"
proof (induction v arbitrary: p vb t)
  case Nil
  have nn: "no_nul k" "no_nul t"
    using Nil by (auto simp: exact_cstr dest: cstr_of_no_nul)
  obtain kb' where kb': "memset kb NUL (length k + 1) = Inr kb'" "exact_string kb' []"
    using memset_clears [OF Nil.prems(5)] by blast
  obtain vb' where vb': "memset vb NUL (length t + 1) = Inr vb'" "exact_string vb' []"
    using memset_clears [OF Nil.prems(6)] by blast
  have "at_pair b (length p) CR LF = Inr True"
    using Nil holds_text_at_pair [of b p CR LF q] by simp
  moreover have "\<not> n - 1 \<le> length p" using Nil by simp
  ultimately show ?case
    using Nil nn kb' vb' add_header_ok [OF nn, of req]
    by (intro exI [of _ kb'] exI [of _ vb'])
      (simp add: read_headers.simps [of b n "length p"] exact_cstr)
next
  case (Cons c v)
  have c: "c \<noteq> NUL" "c \<noteq> CR"
    using Cons.prems by auto
  have step: "rd b (length p) = Inr c" "at_pair b (length p) CR LF = Inr False"
    using Cons.prems(1) c by (auto intro!: holds_text_rd holds_text_at_pair_neq)
  obtain vb1 where vb1: "realloc_append vb c = Inr vb1" "exact_string vb1 (t @ [c])"
    using Cons.prems(6) c(1) by (rule ra.pushE)
  from Cons.IH [of "p @ [c]" vb1 "t @ [c]"] Cons.prems vb1(2) obtain kb' vb' where
    "exact_string kb' []" "exact_string vb' []"
    "read_headers b n (Suc (length p)) True kb vb1 req =
      read_headers b n (Suc (Suc (Suc (length p + length v)))) False kb' vb'
        (req\<lparr>numheaders := numheaders req + 1, headers := headers req @ [k @ '': '' @ t @ c # v]\<rparr>)"
    by auto
  moreover have "\<not> n - 1 \<le> length p" using Cons.prems(7) by simp
  ultimately show ?case
    using step vb1 Cons.prems by (intro exI [of _ kb'] exI [of _ vb'])
      (simp add: read_headers.simps [of b n "length p"] exact_cstr)
qed

subsection \<open>A whole request\<close>

definition valid_header :: "string \<times> string \<Rightarrow> bool" where
  "valid_header kv \<longleftrightarrow> fst kv \<noteq> [] \<and> CHR '':'' \<notin> set (fst kv) \<and> CR \<notin> set (fst kv)
     \<and> no_nul (fst kv) \<and> CR \<notin> set (snd kv) \<and> no_nul (snd kv)"

definition header_line :: "string \<times> string \<Rightarrow> string" where
  "header_line kv = fst kv @ '': '' @ snd kv"

definition header_text :: "(string \<times> string) list \<Rightarrow> string" where
  "header_text kvs = concat (map (\<lambda>kv. header_line kv @ [CR, LF]) kvs)"

definition request_text :: "string \<Rightarrow> string \<Rightarrow> string \<Rightarrow> (string \<times> string) list \<Rightarrow> string" where
  "request_text m p ver kvs =
     m @ [SP] @ p @ [SP] @ ver @ [CR, LF] @ header_text kvs @ [CR, LF]"

lemma header_text_Cons:
  "header_text (kv # kvs) = fst kv @ CHR '':'' # SP # snd kv @ CR # LF # header_text kvs"
  by (simp add: header_text_def header_line_def)

lemma read_headers_end:
  assumes "holds_text b (p @ CR # LF # q)" and "exact_string kb []" and "exact_string vb []"
    and "length p + 1 < n"
  shows "read_headers b n (length p) False kb vb req = Inr (Some req)"
proof -
  have "at_pair b (length p) CR LF = Inr True"
    using assms holds_text_at_pair [of b p CR LF q] by simp
  moreover have "\<not> n - 1 \<le> length p" using assms by simp
  ultimately show ?thesis
    using assms by (simp add: read_headers.simps [of b n "length p"] exact_cstr)
qed

lemma read_headers_all:
  "holds_text b (p @ header_text kvs @ CR # LF # q) \<Longrightarrow> list_all valid_header kvs \<Longrightarrow>
    exact_string kb [] \<Longrightarrow> exact_string vb [] \<Longrightarrow> length p + length (header_text kvs) + 1 < n \<Longrightarrow>
    read_headers b n (length p) False kb vb req = Inr (Some
      (req\<lparr>numheaders := numheaders req + length kvs, headers := headers req @ map header_line kvs\<rparr>))"
proof (induction kvs arbitrary: p kb vb req)
  case Nil
  then show ?case
    using read_headers_end [of b p q kb vb n req] by (simp add: header_text_def)
next
  case (Cons kv kvs)
  obtain k v where kv: "kv = (k, v)" by (cases kv)
  note hdr_eq = header_text_Cons [of kv kvs, unfolded kv fst_conv snd_conv]
  from Cons.prems(2) have ok: "k \<noteq> []" "CHR '':'' \<notin> set k" "CR \<notin> set k" "no_nul k" "CR \<notin> set v" "no_nul v"
    by (auto simp: valid_header_def kv)
  from Cons.prems(1,5) have bs: "holds_text b (p @ k @ CHR '':'' # SP # (v @ CR # LF # header_text kvs @ CR # LF # q))"
    and n: "length p + length k + length v + length (header_text kvs) + 5 < n"
    by (simp_all add: kv hdr_eq)
  obtain kb1 where kb1: "exact_string kb1 k" and r1: "read_headers b n (length p) False kb vb req =
      read_headers b n (length p + length k + 2) True kb1 vb req"
    using read_headers_key [OF bs ok(2,3,4) Cons.prems(3,4), of n req] n by auto
  let ?p1 = "p @ k @ [CHR '':'', SP]"
  have bs1: "holds_text b (?p1 @ v @ CR # LF # (header_text kvs @ CR # LF # q))" using bs by simp
  let ?req = "req\<lparr>numheaders := numheaders req + 1, headers := headers req @ [header_line kv]\<rparr>"
  obtain kb2 vb2 where kb2: "exact_string kb2 []" "exact_string vb2 []" and
    r2: "read_headers b n (length ?p1) True kb1 vb req =
      read_headers b n (length ?p1 + length v + 2) False kb2 vb2 ?req"
    using read_headers_value [OF bs1 ok(5,6,1) kb1 Cons.prems(4), of n req] n
    by (auto simp: header_line_def kv)
  let ?p2 = "?p1 @ v @ [CR, LF]"
  have "holds_text b (?p2 @ header_text kvs @ CR # LF # q)" using bs by simp
  moreover have "list_all valid_header kvs" using Cons.prems(2) by simp
  moreover have "length ?p2 + length (header_text kvs) + 1 < n" using n by simp
  ultimately have "read_headers b n (length ?p2) False kb2 vb2 ?req = Inr (Some
      (?req\<lparr>numheaders := numheaders ?req + length kvs, headers := headers ?req @ map header_line kvs\<rparr>))"
    using kb2 Cons.IH by blast
  with r1 r2 show ?case by (simp add: numeral_2_eq_2 add.assoc)
qed

lemma strtomethod_strmethod:
  "httpserv_http_strmethod m = Some s \<Longrightarrow> httpserv_http_strtomethod s = m"
  by (cases m) (auto simp: httpserv_http_strtomethod_def httpserv_streq_def)

lemma strmethod_token: "httpserv_http_strmethod m = Some s \<Longrightarrow> SP \<notin> set s \<and> no_nul s \<and> m \<noteq> HTTPSERV_HTTP_METHOD_INVALID"
  by (cases m) auto

lemma from_raw_method:
  assumes "content raw = Some b" and "holds_text b (m @ SP # q)" and "length m < len raw"
    and "SP \<notin> set m" and "no_nul m"
  obtains s0 s where "empty_string = Inr s0" and
    "read_method b (len raw) 0 s0 = Inr (length m + 1, s)" and "cstr_of s = Inr m"
proof -
  obtain s0 where s0: "empty_string = Inr s0" "exact_string s0 []" using empty_string_exact by blast
  with read_method_space [of b "[]" m q s0 "[]" "len raw"] assms obtain s where
    "read_method b (len raw) 0 s0 = Inr (length m + 1, s)" "exact_string s m"
    by auto
  with s0(1) show thesis by (intro that) (auto simp: exact_cstr)
qed

lemma from_raw_request_text:
  assumes m: "httpserv_http_strmethod mth = Some m"
    and p: "SP \<notin> set p" "no_nul p"
    and ver: "ver \<noteq> []" "CR \<notin> set (tl ver)"
    and kvs: "list_all valid_header kvs"
    and raw: "content raw = Some b" "holds_text b (request_text m p ver kvs)"
      "len raw = length (request_text m p ver kvs)"
  shows "httpserv_http_request_from_raw raw = Inr (Some
    \<lparr>req_method = mth, path = p, headers = map header_line kvs, numheaders = length kvs,
     body = None, content_length = 0\<rparr>)"
proof -
  obtain v0 vs where v: "ver = v0 # vs" using ver(1) by (cases ver) auto
  define q2 where "q2 = header_text kvs @ [CR, LF]"
  define q1 where "q1 = ver @ CR # LF # q2"
  have req_eq: "request_text m p ver kvs = m @ SP # p @ SP # q1"
    by (simp add: request_text_def q1_def q2_def)
  have n: "len raw = length m + length p + length q1 + 2" "length q1 = length vs + length (header_text kvs) + 5"
    by (simp add: raw(3) req_eq) (simp add: q1_def q2_def v)
  note tok = strmethod_token [OF m]
  have bs: "holds_text b (m @ SP # p @ SP # q1)" using raw(2) by (simp add: req_eq)
  obtain s0 s1 where s0: "empty_string = Inr s0" and r1: "read_method b (len raw) 0 s0 = Inr (length m + 1, s1)"
    and s1: "cstr_of s1 = Inr m"
    using from_raw_method [OF raw(1) bs] tok n by auto
  have ex0: "exact_string s0 []" using empty_string_exact s0 by (metis sum.inject(2))
  obtain s2 where r2: "read_path b (len raw) (length (m @ [SP])) s0 =
      Inr (Some (length (m @ [SP]) + length p + 2, s2))" and s2: "exact_string s2 p"
    using read_path_space [of b "m @ [SP]" p q1 s0 "[]" "len raw"] bs p ex0 n by auto
  have r3: "skip_line b (len raw) (length (m @ SP # p @ [SP, v0])) =
      Inr (length (m @ SP # p @ [SP, v0]) + length vs + 2)"
    using bs ver(2) n by (intro skip_line_crlf [where q = q2]) (simp_all add: q1_def v)
  let ?p = "m @ SP # p @ SP # ver @ [CR, LF]"
  have r4: "read_headers b (len raw) (length ?p) False s0 s0 (httpserv_http_request_new mth p) =
    Inr (Some ((httpserv_http_request_new mth p)\<lparr>numheaders := 0 + length kvs, headers := [] @ map header_line kvs\<rparr>))"
    using read_headers_all [of b ?p kvs "[]" s0 s0 "len raw"] bs kvs ex0 n
    by (simp add: q1_def q2_def v httpserv_http_request_new_def)
  have "len raw \<noteq> 0" using n(1) by simp
  with s2 r2 r3 r4 tok show ?thesis
    by (simp add: httpserv_http_request_from_raw_def s0 r1 s1 raw(1) strtomethod_strmethod [OF m]
        exact_cstr v numeral_2_eq_2 add.assoc httpserv_http_request_new_def)
qed

lemma from_raw_invalid_method:
  assumes "content raw = Some b" and "holds_text b (m @ SP # q)" and "length m < len raw"
    and "SP \<notin> set m" and "no_nul m"
    and "httpserv_http_strtomethod m = HTTPSERV_HTTP_METHOD_INVALID"
  shows "httpserv_http_request_from_raw raw = Inr None"
proof -
  have "len raw \<noteq> 0" using assms(3) by simp
  moreover obtain s0 s where e: "empty_string = Inr s0"
    "read_method b (len raw) 0 s0 = Inr (length m + 1, s)" "cstr_of s = Inr m"
    using from_raw_method [OF assms(1-5)] by blast
  ultimately show ?thesis
    by (simp add: httpserv_http_request_from_raw_def Let_def assms(1,6) e)
qed

subsection \<open>Header text without a colon and a space\<close>

definition has_colon_space :: "string \<Rightarrow> bool" where
  "has_colon_space s \<longleftrightarrow> (\<exists>u w. s = u @ CHR '':'' # SP # w)"

lemma has_colon_space_Cons:
  "has_colon_space s \<Longrightarrow> has_colon_space (c # s)"
  "has_colon_space (CHR '':'' # SP # s)"
  unfolding has_colon_space_def by (metis append_Cons, metis append_Nil)

lemma read_headers_no_colon:
  "holds_text b (p @ s) \<Longrightarrow> n = length p + length s \<Longrightarrow> s \<noteq> [] \<Longrightarrow> no_nul s \<Longrightarrow> \<not> has_colon_space s \<Longrightarrow>
    exact_string kb k \<Longrightarrow> exact_string vb [] \<Longrightarrow> k \<noteq> [] \<or> hd s \<noteq> CR \<Longrightarrow>
    read_headers b n (length p) False kb vb req = Inr None"
proof (induction s arbitrary: p kb k)
  case (Cons c s)
  show ?case
  proof (cases s)
    case Nil
    with Cons.prems(2) have "length p < n" "n - 1 \<le> length p" by simp_all
    then show ?thesis by (simp add: read_headers.simps [of b n "length p"])
  next
    case (Cons d u)
    have c: "c \<noteq> NUL" and lt: "\<not> n - 1 \<le> length p" "length p < n"
      using Cons.prems(2,4) Cons by auto
    have bs: "holds_text b (p @ c # d # u)" using Cons.prems(1) Cons by simp
    have "\<not> (c = CHR '':'' \<and> d = SP)"
      using Cons.prems(5) Cons has_colon_space_Cons(2) by blast
    then have nc: "at_pair b (length p) (CHR '':'') SP = Inr False"
      using holds_text_at_pair [OF bs] by simp
    have na: "(if k = [] then at_pair b (length p) CR LF else Inr False) = Inr False"
      using Cons.prems(8) holds_text_at_pair [OF bs, of CR LF] by auto
    have rd: "rd b (length p) = Inr c" by (rule holds_text_rd [OF bs])
    obtain kb1 where kb1: "realloc_append kb c = Inr kb1" "exact_string kb1 (k @ [c])"
      using Cons.prems(6) c by (rule ra.pushE)
    have "\<not> has_colon_space s"
      using Cons.prems(5) has_colon_space_Cons(1) by blast
    with Cons.IH [of "p @ [c]" kb1 "k @ [c]"] Cons.prems kb1(2) Cons
    have rec: "read_headers b n (Suc (length p)) False kb1 vb req = Inr None" by simp
    have kv: "cstr_of kb = Inr k" "cstr_of vb = Inr []" and nk: "no_nul k"
      using Cons.prems(6,7) by (auto simp: exact_cstr dest: cstr_of_no_nul)
    show ?thesis
      using lt nc na rd kb1(1) rec kv nk
      by (cases "k = []") (simp_all add: read_headers.simps [of b n "length p"])
  qed
qed simp

subsection \<open>Memory safety on arbitrary bytes\<close>

definition readable :: "block \<Rightarrow> nat \<Rightarrow> bool" where
  "readable b n \<longleftrightarrow> (\<forall>i\<le>n. \<exists>c. rd b i = Inr c)"

lemma readable_at_pair:
  assumes "readable b n" and "i < n"
  shows "\<exists>t. at_pair b i x y = Inr t"
proof -
  from assms obtain c d where "rd b i = Inr c" "rd b (Suc i) = Inr d"
    unfolding readable_def by (meson Suc_leI less_imp_le)
  then have "at_pair b i x y = Inr (c = x \<and> d = y)" by (simp add: at_pair_def)
  then show ?thesis by blast
qed

lemma readable_rd: "readable b n \<Longrightarrow> i < n \<Longrightarrow> \<exists>c. rd b i = Inr c"
  by (auto simp: readable_def)

lemma realloc_append_total:
  "exact_string s t \<Longrightarrow> \<exists>s' t'. realloc_append s c = Inr s' \<and> exact_string s' t'"
  using ra.push_any by blast

lemma read_method_total:
  "readable b n \<Longrightarrow> exact_string s t \<Longrightarrow> \<exists>i' s' t'. read_method b n i s = Inr (i', s') \<and> exact_string s' t'"
proof (induction "n - i" arbitrary: i s t rule: less_induct)
  case less
  show ?case
  proof (cases "i < n")
    case True
    obtain c where c: "rd b i = Inr c" using readable_rd [OF less.prems(1) True] by blast
    obtain s1 t1 where s1: "realloc_append s c = Inr s1" "exact_string s1 t1"
      using realloc_append_total [OF less.prems(2)] by blast
    have "n - (i + 1) < n - i" using True by simp
    with less.hyps [OF _ less.prems(1) s1(2)] obtain i' s' t' where
      "read_method b n (i + 1) s1 = Inr (i', s')" "exact_string s' t'" by blast
    with True c s1 less.prems(2) show ?thesis by (auto simp: read_method.simps [of b n i])
  qed (use less.prems in \<open>auto simp: read_method.simps [of b n i]\<close>)
qed

lemma read_path_total:
  "readable b n \<Longrightarrow> exact_string s t \<Longrightarrow> \<exists>r. read_path b n i s = Inr r
    \<and> (\<forall>i' s'. r = Some (i', s') \<longrightarrow> (\<exists>t'. exact_string s' t'))"
proof (induction "n - i" arbitrary: i s t rule: less_induct)
  case less
  show ?case
  proof (cases "i < n \<and> \<not> n - 1 \<le> i")
    case True
    then have i: "i < n" "\<not> n - 1 \<le> i" by auto
    obtain c where c: "rd b i = Inr c" using readable_rd [OF less.prems(1) i(1)] by blast
    obtain s1 t1 where s1: "realloc_append s c = Inr s1" "exact_string s1 t1"
      using realloc_append_total [OF less.prems(2)] by blast
    have "n - (i + 1) < n - i" using i by simp
    with less.hyps [OF _ less.prems(1) s1(2)] obtain r where
      "read_path b n (i + 1) s1 = Inr r" "\<forall>i' s'. r = Some (i', s') \<longrightarrow> (\<exists>t'. exact_string s' t')"
      by blast
    with i c s1 less.prems(2) show ?thesis by (auto simp: read_path.simps [of b n i])
  qed (use less.prems in \<open>auto simp: read_path.simps [of b n i]\<close>)
qed

lemma skip_line_total: "readable b n \<Longrightarrow> \<exists>i'. skip_line b n i = Inr i'"
proof (induction "n - i" arbitrary: i rule: less_induct)
  case less
  show ?case
  proof (cases "i < n")
    case True
    obtain t where t: "at_pair b i CR LF = Inr t"
      using readable_at_pair [OF less.prems True] by blast
    have "n - (i + 1) < n - i" using True by simp
    with less.hyps [OF _ less.prems] obtain i' where "skip_line b n (i + 1) = Inr i'" by blast
    with True t show ?thesis by (simp add: skip_line.simps [of b n i])
  qed (simp add: skip_line.simps [of b n i])
qed

text \<open>What every parsed request satisfies.\<close>

definition wf_request :: "httpserv_http_request_t \<Rightarrow> bool" where
  "wf_request r \<longleftrightarrow> req_method r \<noteq> HTTPSERV_HTTP_METHOD_INVALID \<and> no_nul (path r)
     \<and> numheaders r = length (headers r)
     \<and> (\<forall>h \<in> set (headers r). \<exists>k v. h = header_line (k, v) \<and> no_nul k \<and> no_nul v)"

lemma wf_request_new: "m \<noteq> HTTPSERV_HTTP_METHOD_INVALID \<Longrightarrow> no_nul p \<Longrightarrow>
    wf_request (httpserv_http_request_new m p)"
  by (simp add: wf_request_def httpserv_http_request_new_def)

lemma wf_request_add_header: "wf_request req \<Longrightarrow> no_nul k \<Longrightarrow> no_nul v \<Longrightarrow>
    wf_request (req\<lparr>numheaders := numheaders req + 1, headers := headers req @ [k @ '': '' @ v]\<rparr>)"
  by (auto simp: wf_request_def header_line_def)

lemma read_headers_total:
  "readable b n \<Longrightarrow> exact_string kb k \<Longrightarrow> exact_string vb v \<Longrightarrow> wf_request req \<Longrightarrow>
    \<exists>r. read_headers b n i kr kb vb req = Inr r \<and> (\<forall>q. r = Some q \<longrightarrow> wf_request q)"
proof (induction "n - i" arbitrary: i kr kb k vb v req rule: less_induct)
  case less
  note p = less.prems
  show ?case
  proof (cases "i < n \<and> \<not> n - 1 \<le> i")
    case False
    then show ?thesis using p(4) by (auto simp: read_headers.simps [of b n i])
  next
    case True
    then have i: "i < n" "\<not> n - 1 \<le> i" by auto
    then have dec: "n - (i + 1) < n - i" "n - (i + 2) < n - i" by auto
    obtain c where c: "rd b i = Inr c" using readable_rd [OF p(1) i(1)] by blast
    obtain nl cs where nl: "at_pair b i CR LF = Inr nl" and cs: "at_pair b i (CHR '':'') SP = Inr cs"
      using readable_at_pair [OF p(1) i(1)] by blast
    obtain kb1 k1 vb1 v1 where push: "realloc_append kb c = Inr kb1" "realloc_append vb c = Inr vb1"
      and ex1: "exact_string kb1 k1" "exact_string vb1 v1"
      using realloc_append_total [OF p(2)] realloc_append_total [OF p(3)] by blast
    obtain kb0 vb0 where z: "memset kb NUL (length k + 1) = Inr kb0" "memset vb NUL (length v + 1) = Inr vb0"
      and ex0: "exact_string kb0 []" "exact_string vb0 []"
      using memset_clears [OF p(2)] memset_clears [OF p(3)] by blast
    have kv: "cstr_of kb = Inr k" "cstr_of vb = Inr v" and nn: "no_nul k" "no_nul v"
      using p(2,3) by (auto simp: exact_cstr dest: cstr_of_no_nul)
    have step: "read_headers b n i kr kb vb req =
      (if k = [] \<and> v = [] \<and> nl then Inr (Some req)
       else if kr then
         if nl then read_headers b n (i + 2) False kb0 vb0
           (req\<lparr>numheaders := numheaders req + 1, headers := headers req @ [k @ '': '' @ v]\<rparr>)
         else read_headers b n (i + 1) kr kb vb1 req
       else if cs then read_headers b n (i + 2) True kb vb req
       else read_headers b n (i + 1) kr kb1 vb req)"
      using i kv nn cs nl c push z
      by (simp add: read_headers.simps [of b n i] add_header_ok)
    show ?thesis
      unfolding step
      using less.hyps [OF dec(2) p(1) ex0 wf_request_add_header [OF p(4) nn]]
        less.hyps [OF dec(1) p(1) p(2) ex1(2) p(4)]
        less.hyps [OF dec(2) p(1-4)] less.hyps [OF dec(1) p(1) ex1(1) p(3,4)] p(4)
      by simp
  qed
qed

text \<open>
  Whatever the bytes are, the parser stays inside the block (one byte past the raw data
  must be readable) and returns \<open>NULL\<close> or a well-formed request.
\<close>

lemma from_raw_total:
  assumes "content raw = Some b" and "readable b (len raw)"
  shows "\<exists>r. httpserv_http_request_from_raw raw = Inr r \<and> (\<forall>q. r = Some q \<longrightarrow> wf_request q)"
proof (cases "len raw = 0")
  case True
  obtain e where e: "empty_string = Inr e" "exact_string e []" using empty_string_exact by blast
  have "httpserv_http_strtomethod [] = HTTPSERV_HTTP_METHOD_INVALID"
    by (simp add: httpserv_http_strtomethod_def)
  with True e(2) show ?thesis
    by (simp add: httpserv_http_request_from_raw_def e(1) read_method.simps exact_cstr)
next
  case False
  obtain e where e: "empty_string = Inr e" "exact_string e []" using empty_string_exact by blast
  obtain i1 s1 t1 where m: "read_method b (len raw) 0 e = Inr (i1, s1)" "cstr_of s1 = Inr t1"
    using read_method_total [OF assms(2) e(2), of 0] by (auto simp: exact_cstr)
  let ?m = "httpserv_http_strtomethod t1"
  show ?thesis
  proof (cases "?m = HTTPSERV_HTTP_METHOD_INVALID")
    case True
    with False show ?thesis by (simp add: httpserv_http_request_from_raw_def Let_def assms(1) e(1) m)
  next
    case valid: False
    obtain r where r: "read_path b (len raw) i1 e = Inr r"
      "\<forall>i' s'. r = Some (i', s') \<longrightarrow> (\<exists>t'. exact_string s' t')"
      using read_path_total [OF assms(2) e(2)] by blast
    show ?thesis
    proof (cases r)
      case None
      with False valid show ?thesis
        by (simp add: httpserv_http_request_from_raw_def Let_def assms(1) e(1) m r(1))
    next
      case (Some is2)
      then obtain i2 s2 t2 where s2: "is2 = (i2, s2)" "cstr_of s2 = Inr t2"
        using r(2) by (cases is2) (auto simp: exact_cstr)
      obtain i3 where i3: "skip_line b (len raw) i2 = Inr i3"
        using skip_line_total [OF assms(2)] by blast
      have "wf_request (httpserv_http_request_new ?m t2)"
        using valid s2(2) by (intro wf_request_new) (auto dest: cstr_of_no_nul)
      with read_headers_total [OF assms(2) e(2) e(2), of "httpserv_http_request_new ?m t2" i3 False]
      show ?thesis
        using False valid Some
        by (simp add: httpserv_http_request_from_raw_def Let_def assms(1) e(1) m r(1) s2 i3)
    qed
  qed
qed

end
