(* ===== verification/RequestProps.thy ===== *)
theory RequestProps
  imports RequestParse
begin

section \<open>Properties of the requests\<close>

text \<open>
  The round trip of the method table, the round trip of the parser over a printed request,
  its memory safety on arbitrary bytes, the inputs it rejects, and the look-up of a header.
\<close>

subsection \<open>Looking a header up\<close>

text \<open>
  A key without a colon matches a header exactly when it begins the header's own key.
\<close>

lemma key_matches_iff:
  assumes "valid_header kv" and "CHR '':'' \<notin> set key" and "no_nul key"
  shows "strncmp (header_line kv) key (length key) = 0 \<longleftrightarrow> take (length key) (fst kv) = key"
proof -
  have "no_nul (header_line kv)" using assms(1) by (auto simp: valid_header_def header_line_def)
  then have "strncmp (header_line kv) key (length key) = 0 \<longleftrightarrow> take (length key) (header_line kv) = key"
    using assms(3) by (simp add: strncmp_zero_iff)
  also have "\<dots> \<longleftrightarrow> take (length key) (fst kv) = key"
  proof (cases "length key \<le> length (fst kv)")
    case False
    then obtain d where d: "length key - length (fst kv) = Suc d" by (metis Suc_diff_Suc diff_zero not_le)
    then have "take (length key) (header_line kv) = fst kv @ CHR '':'' # take d (SP # snd kv)"
      using False by (simp add: header_line_def)
    then have "take (length key) (header_line kv) \<noteq> key" using assms(2) by auto
    moreover have "take (length key) (fst kv) \<noteq> key" using False by auto
    ultimately show ?thesis by blast
  qed (simp add: header_line_def)
  finally show ?thesis .
qed

text \<open>The header found, and where in it the result points.\<close>

definition found_value :: "string \<Rightarrow> string \<times> string \<Rightarrow> string" where
  "found_value key kv = drop (length key + 2) (header_line kv)"

lemma get_header_loop_find:
  assumes "list_all valid_header kvs" and "CHR '':'' \<notin> set key" and "no_nul key"
  shows "get_header_loop (map header_line kvs) key =
    Inr (map_option (found_value key) (find (\<lambda>kv. take (length key) (fst kv) = key) kvs))"
  using assms(1)
proof (induction kvs)
  case (Cons kv kvs)
  then have "length key + 2 \<le> length (header_line kv)" if "take (length key) (fst kv) = key"
    using that by (auto simp: header_line_def dest: arg_cong [of _ _ length])
  with Cons key_matches_iff [OF _ assms(2,3), of kv] show ?case by (auto simp: found_value_def)
qed simp

lemma get_header_first_prefix:
  assumes "list_all valid_header kvs" and "CHR '':'' \<notin> set key" and "no_nul key"
    and "headers r = map header_line kvs" and "numheaders r = length kvs"
  shows "httpserv_http_request_get_header (Some r) key =
    Inr (map_option (found_value key) (find (\<lambda>kv. take (length key) (fst kv) = key) kvs))"
  using get_header_loop_find [OF assms(1-3)] by (simp add: httpserv_http_request_get_header_def assms(4,5))

lemma find_unambiguous:
  assumes "\<forall>k \<in> fst ` set kvs. take (length key) k = key \<longrightarrow> k = key"
  shows "map_option (found_value key) (find (\<lambda>kv. take (length key) (fst kv) = key) kvs) = map_of kvs key"
  using assms by (induction kvs) (auto simp: found_value_def header_line_def)

subsection \<open>The request line\<close>

lemma strtomethod_names:
  assumes "no_nul s"
  shows "httpserv_http_strtomethod s = HTTPSERV_HTTP_METHOD_INVALID
    \<or> httpserv_http_strmethod (httpserv_http_strtomethod s) = Some s"
  using assms by (simp add: httpserv_http_strtomethod_def split: if_splits)

text \<open>What the first three loops leave for the fourth.\<close>

lemma request_line_read:
  assumes "httpserv_http_strmethod mth = Some m" and "SP \<notin> set p" and "no_nul p"
    and "content raw = Some b" and "holds_text b (m @ SP # p @ SP # (v0 # vs) @ CR # LF # q)"
    and "CR \<notin> set vs" and "length m + length p + length vs + 5 \<le> len raw"
  shows "\<exists>s0 s1 s2. empty_string = Inr s0 \<and> exact_string s0 []
    \<and> read_method b (len raw) 0 s0 = Inr (length m + 1, s1) \<and> cstr_of s1 = Inr m
    \<and> read_path b (len raw) (length m + 1) s0 = Inr (Some (length m + length p + 3, s2)) \<and> cstr_of s2 = Inr p
    \<and> skip_line b (len raw) (length m + length p + 3) = Inr (length m + length p + length vs + 5)"
proof -
  note tok = strmethod_token [OF assms(1)]
  obtain s0 s1 where s0: "empty_string = Inr s0"
    and r1: "read_method b (len raw) 0 s0 = Inr (length m + 1, s1)" "cstr_of s1 = Inr m"
    using from_raw_method [OF assms(4) assms(5)] tok assms(7) by auto
  have ex0: "exact_string s0 []" using empty_string_exact s0 by (metis sum.inject(2))
  obtain s2 where r2: "read_path b (len raw) (length (m @ [SP])) s0 =
      Inr (Some (length (m @ [SP]) + length p + 2, s2))" "exact_string s2 p"
    using read_path_space [of b "m @ [SP]" p "(v0 # vs) @ CR # LF # q" s0 "[]" "len raw"] assms(2,3,5,7) ex0
    by auto
  have "skip_line b (len raw) (length (m @ SP # p @ [SP, v0])) =
      Inr (length (m @ SP # p @ [SP, v0]) + length vs + 2)"
    using assms(5-7) by (intro skip_line_crlf [where q = q]) simp_all
  with s0 ex0 r1 r2 show ?thesis
    by (intro exI [of _ s0] exI [of _ s1] exI [of _ s2]) (simp add: exact_cstr numeral_eq_Suc)
qed

subsection \<open>Properties\<close>

text \<open>
  C3: parsing the text of a request gives back its method, its path and its headers in
  order, for every method of the table, every path without a space, and every list of
  headers whose keys have no colon and no carriage return and whose values have no carriage
  return.
\<close>

theorem request_roundtrip:
  assumes "httpserv_http_strmethod mth = Some m"
    and "SP \<notin> set p" and "no_nul p"
    and "ver \<noteq> []" and "CR \<notin> set (tl ver)"
    and "list_all valid_header kvs"
    and "content raw = Some b" and "holds_text b (request_text m p ver kvs)"
    and "len raw = length (request_text m p ver kvs)"
  shows "httpserv_http_request_from_raw raw = Inr (Some
    \<lparr>req_method = mth, path = p, headers = map header_line kvs, numheaders = length kvs,
     body = None, content_length = 0\<rparr>)"
  using assms by (rule from_raw_request_text)

theorem request_roundtrip_witness:
  "httpserv_http_request_from_raw
     \<lparr>content = Some (map Some (''GET / HTTP/1.1'' @ [CR, LF] @ ''Host: a'' @ [CR, LF, CR, LF])), len = 27\<rparr>
   = Inr (Some \<lparr>req_method = HTTPSERV_HTTP_METHOD_GET, path = ''/'', headers = [''Host: a''],
      numheaders = 1, body = None, content_length = 0\<rparr>)"
proof -
  let ?t = "''GET / HTTP/1.1'' @ [CR, LF] @ ''Host: a'' @ [CR, LF, CR, LF]"
  let ?raw = "\<lparr>content = Some (map Some ?t), len = 27\<rparr>"
  have t: "request_text ''GET'' ''/'' ''HTTP/1.1'' [(''Host'', ''a'')] = ?t"
    by (simp add: request_text_def header_text_def header_line_def)
  show ?thesis
    using request_roundtrip [of HTTPSERV_HTTP_METHOD_GET "''GET''" "''/''" "''HTTP/1.1''" "[(''Host'', ''a'')]"
        ?raw "map Some ?t"]
    unfolding t by (simp add: valid_header_def header_line_def holds_text_def)
qed

text \<open>
  C4: on every input that is readable up to one byte past its length the parser ends
  without reading outside a block; when it does not return \<open>NULL\<close> the request has a valid
  method, a header count that matches its headers, and headers of the form key, colon,
  space, value.
\<close>

theorem request_parser_safe:
  assumes "content raw = Some b" and "readable b (len raw)"
  shows "\<exists>r. httpserv_http_request_from_raw raw = Inr r \<and> (\<forall>q. r = Some q \<longrightarrow> wf_request q)"
  using assms by (rule from_raw_total)

theorem request_parser_safe_witness:
  "\<exists>r. httpserv_http_request_from_raw \<lparr>content = Some (map Some ''PUT x''  @ [Some NUL]), len = 5\<rparr> = Inr r
    \<and> (\<forall>q. r = Some q \<longrightarrow> wf_request q)"
proof -
  have "readable (map Some ''PUT x'' @ [Some NUL]) 5"
    unfolding readable_def by (simp add: rd_def le_Suc_eq numeral_eq_Suc)
  then show ?thesis
    using request_parser_safe [of "\<lparr>content = Some (map Some ''PUT x''  @ [Some NUL]), len = 5\<rparr>"] by simp
qed

text \<open>
  when the bytes before the first space are not the name of a method, the parser
  returns \<open>NULL\<close>, whatever follows.
\<close>

theorem unknown_method_rejected:
  assumes "content raw = Some b" and "holds_text b (m @ SP # q)" and "length m < len raw"
    and "SP \<notin> set m" and "no_nul m"
    and "\<And>mth. httpserv_http_strmethod mth \<noteq> Some m"
  shows "httpserv_http_request_from_raw raw = Inr None"
proof (rule from_raw_invalid_method [OF assms(1-5)])
  show "httpserv_http_strtomethod m = HTTPSERV_HTTP_METHOD_INVALID"
    using strtomethod_names [OF assms(5)] assms(6) by blast
qed

theorem unknown_method_rejected_witness:
  "httpserv_http_request_from_raw \<lparr>content = Some (map Some ''get / x''), len = 7\<rparr> = Inr None"
proof (rule unknown_method_rejected [of _ "map Some ''get / x''" "''get''" "''/ x''"])
  show "httpserv_http_strmethod mth \<noteq> Some ''get''" for mth by (cases mth) simp_all
qed (simp_all add: holds_text_def)

text \<open>
  a request whose header part does not begin with a carriage return and has no colon
  followed by a space is rejected: in particular a header written as \<open>Host:a\<close>.
\<close>

theorem header_without_separator_rejected:
  assumes "httpserv_http_strmethod mth = Some m"
    and "SP \<notin> set p" and "no_nul p"
    and "ver \<noteq> []" and "CR \<notin> set (tl ver)"
    and "h \<noteq> []" and "hd h \<noteq> CR" and "no_nul h" and "\<not> has_colon_space h"
    and "content raw = Some b" and "holds_text b (m @ SP # p @ SP # ver @ CR # LF # h)"
    and "len raw = length (m @ SP # p @ SP # ver @ CR # LF # h)"
  shows "httpserv_http_request_from_raw raw = Inr None"
proof -
  let ?q1 = "ver @ CR # LF # h"
  obtain v0 vs where v: "ver = v0 # vs" using assms(4) by (cases ver) auto
  have raw: "content raw = Some b" "holds_text b (m @ SP # p @ SP # ?q1)" using assms(10,11) by simp_all
  have n: "len raw = length m + length p + length vs + length h + 5" using assms(12) v by simp
  obtain s0 s1 s2 where s0: "empty_string = Inr s0" "exact_string s0 []"
    and r1: "read_method b (len raw) 0 s0 = Inr (length m + 1, s1)" "cstr_of s1 = Inr m"
    and r2: "read_path b (len raw) (length m + 1) s0 = Inr (Some (length m + length p + 3, s2))" "cstr_of s2 = Inr p"
    and r3: "skip_line b (len raw) (length m + length p + 3) = Inr (length m + length p + length vs + 5)"
    using request_line_read [of mth m p raw b v0 vs h] assms(1-3,5) raw n v by auto
  have "read_headers b (len raw) (length (m @ SP # p @ SP # ver @ [CR, LF])) False s0 s0
      (httpserv_http_request_new mth p) = Inr None"
    using assms(6-9) raw(2) n v s0(2) by (intro read_headers_no_colon [where s = h]) simp_all
  then have r4: "read_headers b (len raw) (length m + length p + length vs + 5) False s0 s0
      (httpserv_http_request_new mth p) = Inr None"
    by (simp add: v numeral_eq_Suc add.assoc)
  have "len raw \<noteq> 0" using n by simp
  then show ?thesis
    using strmethod_token [OF assms(1)]
    by (simp add: httpserv_http_request_from_raw_def s0(1) r1 [simplified] r2 [simplified] r3 r4 raw(1) Let_def
        strtomethod_strmethod [OF assms(1)])
qed

theorem header_without_separator_rejected_witness:
  "httpserv_http_request_from_raw
     \<lparr>content = Some (map Some (''GET / HTTP/1.1'' @ [CR, LF] @ ''Host:a'' @ [CR, LF, CR, LF])), len = 26\<rparr>
   = Inr None"
proof -
  let ?h = "''Host:a'' @ [CR, LF, CR, LF]"
  let ?t = "''GET / HTTP/1.1'' @ [CR, LF] @ ?h"
  have "\<not> has_colon_space ?h"
    by (auto simp: has_colon_space_def Cons_eq_append_conv)
  then show ?thesis
    using header_without_separator_rejected [of HTTPSERV_HTTP_METHOD_GET "''GET''" "''/''" "''HTTP/1.1''" ?h
        "\<lparr>content = Some (map Some ?t), len = 26\<rparr>" "map Some ?t"]
    by (simp add: holds_text_def)
qed

text \<open>
  the method table is read back exactly: a string converts to a method other than the
  invalid one precisely when it is that method's name.
\<close>

theorem method_names_roundtrip:
  assumes "no_nul s"
  shows "httpserv_http_strmethod mth = Some s \<longleftrightarrow>
    httpserv_http_strtomethod s = mth \<and> mth \<noteq> HTTPSERV_HTTP_METHOD_INVALID"
  using strtomethod_strmethod [of mth s] strmethod_token [of mth s] strtomethod_names [OF assms] by auto

theorem method_names_roundtrip_witness:
  "httpserv_http_strtomethod ''PATCH'' = HTTPSERV_HTTP_METHOD_PATCH
    \<and> httpserv_http_strmethod HTTPSERV_HTTP_METHOD_PATCH = Some ''PATCH''"
  using method_names_roundtrip [of "''PATCH''" HTTPSERV_HTTP_METHOD_PATCH] by simp

text \<open>
  after parsing the text of a request, the look-up of a key returns the value of the
  first header with that key, or \<open>NULL\<close> when there is none, provided the key is not a
  proper prefix of the key of one of the headers.
\<close>

theorem parsed_header_lookup:
  assumes "httpserv_http_strmethod mth = Some m" and "SP \<notin> set p" and "no_nul p"
    and "ver \<noteq> []" and "CR \<notin> set (tl ver)" and "list_all valid_header kvs"
    and "content raw = Some b" and "holds_text b (request_text m p ver kvs)"
    and "len raw = length (request_text m p ver kvs)"
    and "CHR '':'' \<notin> set key" and "no_nul key"
    and "\<forall>k \<in> fst ` set kvs. take (length key) k = key \<longrightarrow> k = key"
  shows "bindR (httpserv_http_request_from_raw raw) (\<lambda>r. httpserv_http_request_get_header r key)
    = Inr (map_of kvs key)"
  using from_raw_request_text [OF assms(1-9)] get_header_first_prefix [OF assms(6,10,11)]
    find_unambiguous [OF assms(12)]
  by simp

theorem parsed_header_lookup_witness:
  "bindR (httpserv_http_request_from_raw
      \<lparr>content = Some (map Some (request_text ''GET'' ''/'' ''HTTP/1.1'' [(''Host'', ''a''), (''B'', ''c d'')])), len = 35\<rparr>)
     (\<lambda>r. httpserv_http_request_get_header r ''B'') = Inr (Some ''c d'')"
proof -
  let ?t = "request_text ''GET'' ''/'' ''HTTP/1.1'' [(''Host'', ''a''), (''B'', ''c d'')]"
  have t: "length ?t = 35" by code_simp
  show ?thesis
    using parsed_header_lookup [of HTTPSERV_HTTP_METHOD_GET "''GET''" "''/''" "''HTTP/1.1''"
        "[(''Host'', ''a''), (''B'', ''c d'')]" "\<lparr>content = Some (map Some ?t), len = 35\<rparr>"
        "map Some ?t" "''B''"] t
    by (simp add: valid_header_def holds_text_def)
qed

text \<open>
  the look-up compares only the beginning of each header. A header whose key merely
  starts with the searched key is returned, and the result then begins inside its key and
  hides the header that has the searched key.
\<close>

theorem header_lookup_is_by_prefix:
  assumes "list_all valid_header ((key @ ext, v) # kvs)" and "length ext \<ge> 2"
    and "headers r = map header_line ((key @ ext, v) # kvs)" and "numheaders r = length kvs + 1"
  shows "httpserv_http_request_get_header (Some r) key = Inr (Some (drop 2 ext @ '': '' @ v))"
proof -
  have "CHR '':'' \<notin> set key" "no_nul key" using assms(1) by (auto simp: valid_header_def)
  from get_header_first_prefix [OF assms(1) this assms(3)] assms(2,4) show ?thesis
    by (simp add: found_value_def header_line_def)
qed

theorem header_lookup_is_by_prefix_witness:
  "httpserv_http_request_get_header (Some \<lparr>req_method = HTTPSERV_HTTP_METHOD_GET, path = ''/'',
     headers = [''Hostname: a'', ''Host: b''], numheaders = 2, body = None, content_length = 0\<rparr>) ''Host''
   = Inr (Some ''me: a'')"
  using header_lookup_is_by_prefix [of "''Host''" "''name''" "''a''" "[(''Host'', ''b'')]"
      "\<lparr>req_method = HTTPSERV_HTTP_METHOD_GET, path = ''/'', headers = [''Hostname: a'', ''Host: b''],
        numheaders = 2, body = None, content_length = 0\<rparr>"]
  by (simp add: valid_header_def header_line_def)

end
