(* ===== verification/CNum.thy ===== *)
theory CNum
  imports CPrelude "HOL-Library.Word"
begin

section \<open>Decimal numbers and machine integers\<close>

text \<open>
  \<open>dec\<close> is what \<open>%d\<close>, \<open>%zu\<close> print for a non-negative number. \<open>strtol\<close> (base 10) skips
  white space, takes an optional sign and the longest run of digits, and saturates at the
  bounds of a 64-bit \<open>long\<close>; \<open>to_int\<close>, \<open>to_size_t\<close> and \<open>to_port\<close> are the conversions of
  the code from \<open>long\<close> to \<open>int\<close>, \<open>size_t\<close> and \<open>uint16_t\<close>.
\<close>

definition digit :: "nat \<Rightarrow> char" where
  "digit d = char_of (48 + d)"

fun dec :: "nat \<Rightarrow> string" where
  "dec n = (if n < 10 then [digit n] else dec (n div 10) @ [digit (n mod 10)])"

declare dec.simps [simp del]

definition is_digit :: "char \<Rightarrow> bool" where
  "is_digit c \<longleftrightarrow> 48 \<le> (of_char c :: nat) \<and> (of_char c :: nat) \<le> 57"

definition digit_val :: "char \<Rightarrow> nat" where
  "digit_val c = of_char c - 48"

fun digits_val :: "nat \<Rightarrow> string \<Rightarrow> nat" where
  "digits_val acc [] = acc"
| "digits_val acc (c # cs) = (if is_digit c then digits_val (10 * acc + digit_val c) cs else acc)"

definition LONG_MAX :: int where "LONG_MAX = 9223372036854775807"
definition LONG_MIN :: int where "LONG_MIN = - 9223372036854775808"

definition clamp_long :: "int \<Rightarrow> 64 word" where
  "clamp_long v = word_of_int (max LONG_MIN (min LONG_MAX v))"

definition strtol :: "string \<Rightarrow> 64 word" where
  "strtol s = (let t = dropWhile iswspace s in
     case t of
       [] \<Rightarrow> 0
     | c # u \<Rightarrow>
         if c = CHR ''-'' then clamp_long (- int (digits_val 0 u))
         else if c = CHR ''+'' then clamp_long (int (digits_val 0 u))
         else clamp_long (int (digits_val 0 t)))"

definition to_int :: "64 word \<Rightarrow> 32 word" where "to_int w = ucast w"
definition to_size_t :: "64 word \<Rightarrow> nat" where "to_size_t w = unat w"
definition to_port :: "32 word \<Rightarrow> 16 word" where "to_port w = ucast w"

subsection \<open>Printing and reading back\<close>

lemma of_char_digit: "d < 10 \<Longrightarrow> (of_char (digit d) :: nat) = 48 + d"
  by (simp add: digit_def of_char_of)

lemma is_digit_digit [simp]: "d < 10 \<Longrightarrow> is_digit (digit d)"
  by (simp add: is_digit_def of_char_digit)

lemma digit_val_digit [simp]: "d < 10 \<Longrightarrow> digit_val (digit d) = d"
  by (simp add: digit_val_def of_char_digit)

lemma dec_digits: "c \<in> set (dec n) \<Longrightarrow> is_digit c"
proof (induction n rule: dec.induct)
  case (1 n)
  then show ?case by (subst (asm) dec.simps) (auto split: if_splits)
qed

lemma dec_not_Nil [simp]: "dec n \<noteq> []"
  by (subst dec.simps) simp

lemma not_is_digit [simp]:
  "\<not> is_digit NUL" "\<not> is_digit CR" "\<not> is_digit LF" "\<not> is_digit SP"
  "\<not> is_digit (CHR ''-'')" "\<not> is_digit (CHR ''+'')"
  by (simp_all add: is_digit_def)

lemma is_digit_not_space: "is_digit c \<Longrightarrow> \<not> iswspace c"
  by (auto simp: iswspace_def is_digit_def)

lemma dec_no_nul [simp]: "no_nul (dec n)"
  using dec_digits [of NUL n] by auto

lemma digits_val_append:
  "list_all is_digit s \<Longrightarrow> digits_val acc (s @ t) = digits_val (digits_val acc s) t"
  by (induction s arbitrary: acc) auto

lemma dec_all_digits: "list_all is_digit (dec n)"
  using dec_digits by (auto simp: list_all_iff)

lemma digits_val_dec: "digits_val 0 (dec n) = n"
proof (induction n rule: dec.induct)
  case (1 n)
  show ?case
  proof (cases "n < 10")
    case True
    then show ?thesis by (subst dec.simps) simp
  next
    case False
    with 1 show ?thesis
      by (subst dec.simps) (simp add: digits_val_append dec_all_digits)
  qed
qed

text \<open>\<open>strtol\<close> reads back what \<open>printf\<close> wrote, whatever non-digit follows.\<close>

lemma strtol_dec:
  assumes "int n \<le> LONG_MAX" and "t = [] \<or> \<not> is_digit (hd t)"
  shows "strtol (dec n @ t) = of_nat n"
proof -
  obtain c u where cu: "dec n = c # u" by (cases "dec n") auto
  then have "is_digit c" using dec_digits [of c n] by simp
  then have sgn: "\<not> iswspace c" "c \<noteq> CHR ''-''" "c \<noteq> CHR ''+''"
    by (auto dest: is_digit_not_space)
  have val: "digits_val 0 (dec n @ t) = n"
    using assms(2) by (cases t) (simp_all add: digits_val_append dec_all_digits digits_val_dec)
  have cl: "clamp_long (int n) = of_nat n"
    using assms(1) by (simp add: clamp_long_def LONG_MIN_def min_absorb2)
  from sgn have "strtol (dec n @ t) = clamp_long (int (digits_val 0 (dec n @ t)))"
    by (simp add: strtol_def cu)
  then show ?thesis
    by (simp only: val cl)
qed

text \<open>The number of decimal digits.\<close>

lemma length_dec_le: "n < 10 ^ k \<Longrightarrow> 0 < k \<Longrightarrow> length (dec n) \<le> k"
proof (induction n arbitrary: k rule: dec.induct)
  case (1 n)
  show ?case
  proof (cases "n < 10")
    case True
    with 1 show ?thesis by (subst dec.simps) simp
  next
    case False
    with "1.prems" obtain j where k: "k = Suc (Suc j)"
      by (metis Suc_pred not_gr0 power_0 power_Suc mult_1_right)
    with "1.prems" have "n div 10 < 10 ^ Suc j"
      by (simp add: less_mult_imp_div_less mult.commute)
    with "1.IH" [of "Suc j"] False k show ?thesis
      by (subst dec.simps) simp
  qed
qed

lemma length_dec_ge: "10 ^ k \<le> n \<Longrightarrow> k < length (dec n)"
proof (induction n arbitrary: k rule: dec.induct)
  case (1 n)
  show ?case
  proof (cases "n < 10 \<or> k = 0")
    case True
    with "1.prems" have "k = 0"
      using power_increasing [of 1 k "10::nat"] by (cases "k = 0") auto
    then show ?thesis by simp
  next
    case False
    then obtain j where k: "k = Suc j" by (cases k) auto
    with "1.prems" have "10 ^ j \<le> n div 10" by simp
    with "1.IH" [of j] False k show ?thesis
      by (subst dec.simps) simp
  qed
qed

end
