(* ===== verification/Response.thy ===== *)
theory Response
  imports RawData Status CNum
begin

section \<open>HTTP responses (include/http/response.h, src/http/response.c, src/httpserv.c)\<close>

text \<open>
  The response record, the operations that fill it and \<open>httpserv_http_response_build\<close>,
  which prints it into a block of \<open>lenght\<close> bytes. The allocator is a parameter: \<open>us n\<close> is
  the number of bytes a block obtained by \<open>malloc (n)\<close> or \<open>realloc (p, n)\<close> can hold. The
  C standard only promises \<open>n\<close> (\<open>us = id\<close>), real allocators round up; writing past
  \<open>us n\<close> is an error of the model. Whether \<open>realloc\<close> gives a block is a function \<open>ra\<close> of
  what it is called with: whether there is a block already, and the size.
  Sizes are natural numbers; the one subtraction of the code is covered by the invariant
  \<open>wf_response\<close>, by which it never goes below zero. \<open>strncat (dst, NULL, 0)\<close>, by which a response
  without a body is built, reads nothing and is taken as defined, as the C library has it.
\<close>

subsection \<open>Versions\<close>

definition HTTPSERV_VERSION_MAJOR :: nat where "HTTPSERV_VERSION_MAJOR = 0"
definition HTTPSERV_VERSION_MINOR :: nat where "HTTPSERV_VERSION_MINOR = 1"
definition HTTPSERV_VERSION_PATCH :: nat where "HTTPSERV_VERSION_PATCH = 0"

definition httpserv_version_major :: nat where
  "httpserv_version_major = HTTPSERV_VERSION_MAJOR"
definition httpserv_version_minor :: nat where
  "httpserv_version_minor = HTTPSERV_VERSION_MINOR"
definition httpserv_version_patch :: nat where
  "httpserv_version_patch = HTTPSERV_VERSION_PATCH"

text \<open>\<open>sprintf\<close> into a zeroed block of 30 bytes.\<close>

definition httpserv_http_server_version :: "block res" where
  "httpserv_http_server_version =
     bindR (memset (malloc 30) NUL 30) (\<lambda>v.
       wr_run v 0 (''cweb/'' @ dec httpserv_version_major @ ''.'' @ dec httpserv_version_minor
         @ ''.'' @ dec httpserv_version_patch @ [NUL]))"

definition httpserv_http_response_default :: string where
  "httpserv_http_response_default = ''<h1>libhttpserv.so</h1>''"

subsection \<open>The response and its operations\<close>

record httpserv_http_response_t =
  status :: int
  resp_headers :: "string list"
  resp_body :: "block option"
  numheads :: nat
  bodylength :: nat
  lenght :: nat

definition httpserv_http_response_new :: "int \<Rightarrow> httpserv_http_response_t res" where
  "httpserv_http_response_new st =
     bindR (deref (httpserv_http_strstatus st)) (\<lambda>reason.
       Inr \<lparr>status = st, resp_headers = [], resp_body = None, numheads = 0, bodylength = 0,
            lenght = 9 + 4 + length reason + 4\<rparr>)"

text \<open>
  The array of header pointers is reallocated to \<open>numheads\<close> bytes; the slot that is then
  written ends at byte \<open>8 * numheads\<close>.
\<close>

definition httpserv_http_response_add_header :: "(nat \<Rightarrow> nat) \<Rightarrow> httpserv_http_response_t option
    \<Rightarrow> string option \<Rightarrow> string option \<Rightarrow> httpserv_http_response_t option res" where
  "httpserv_http_response_add_header us response key value =
     (case (key, response, value) of
       (Some k, Some r, Some v) \<Rightarrow>
         (let headlen = length k + length v + 3 in
          bindR (snprintf (malloc headlen) headlen (k @ '': '' @ v)) (\<lambda>buf.
          bindR (cstr_of buf) (\<lambda>header.
          if 8 * (numheads r + 1) \<le> us (numheads r + 1)
          then Inr (Some (r\<lparr>numheads := numheads r + 1, resp_headers := resp_headers r @ [header],
                 lenght := lenght r + (length k + length v + 4)\<rparr>))
          else Inl OutOfBounds)))
     | _ \<Rightarrow> Inr response)"

definition httpserv_http_response_set_body :: "(bool \<Rightarrow> nat \<Rightarrow> bool) \<Rightarrow> httpserv_http_response_t option
    \<Rightarrow> block \<Rightarrow> nat \<Rightarrow> (int \<times> httpserv_http_response_t option) res" where
  "httpserv_http_response_set_body ra response b n =
     (case response of
       None \<Rightarrow> Inr (-1, None)
     | Some r \<Rightarrow>
         if \<not> ra (resp_body r \<noteq> None) n then Inr (1, Some (r\<lparr>resp_body := None\<rparr>))
         else if n \<le> length b then
           Inr (0, Some (r\<lparr>resp_body := Some (take n b),
             lenght := lenght r - bodylength r + n, bodylength := n\<rparr>))
         else Inl OutOfBounds)"

text \<open>
  With memory to spare, the C library gives a block for every size, except that \<open>realloc\<close> of
  a block to size zero frees it and returns \<open>NULL\<close>.
\<close>

definition glibc_realloc :: "bool \<Rightarrow> nat \<Rightarrow> bool" where
  "glibc_realloc had n \<longleftrightarrow> \<not> (had \<and> n = 0)"

text \<open>The bytes \<open>strncat\<close> reads from a block: at most \<open>n\<close>, up to a NUL.\<close>

fun rd_run :: "block \<Rightarrow> nat \<Rightarrow> string res" where
  "rd_run b 0 = Inr []"
| "rd_run [] (Suc n) = Inl OutOfBounds"
| "rd_run (None # b) (Suc n) = Inl Uninit"
| "rd_run (Some c # b) (Suc n) =
     (if c = NUL then Inr [] else bindR (rd_run b n) (\<lambda>s. Inr (c # s)))"

definition body_bytes :: "httpserv_http_response_t \<Rightarrow> string res" where
  "body_bytes r = (if bodylength r = 0 then Inr []
     else bindR (deref (resp_body r)) (\<lambda>b. rd_run b (bodylength r)))"

text \<open>The loop over the headers, each printed with its line end into \<open>buf\<close> first.\<close>

fun build_headers :: "block \<Rightarrow> string list \<Rightarrow> block res" where
  "build_headers dst [] = Inr dst"
| "build_headers dst (h # hs) =
     bindR (snprintf (malloc (length h + 3)) (length h + 3) (h @ [CR, LF])) (\<lambda>buf.
     bindR (cstr_of buf) (\<lambda>line.
     bindR (strcat dst line) (\<lambda>dst'. build_headers dst' hs)))"

definition httpserv_http_response_build ::
  "(nat \<Rightarrow> nat) \<Rightarrow> httpserv_http_response_t \<Rightarrow> httpserv_raw_data_t option res" where
  "httpserv_http_response_build us response =
     (if \<not> httpserv_http_status_valid (status response) then Inr None
      else
        bindR (snprintf (malloc 4) 4 (dec (nat (status response)) @ '' '')) (\<lambda>statusb.
        bindR (cstr_of statusb) (\<lambda>st.
        bindR (memset (malloc (us (lenght response))) NUL (lenght response)) (\<lambda>c0.
        bindR (strncat c0 ''HTTP/1.1 '' 10) (\<lambda>c1.
        bindR (strncat c1 st 5) (\<lambda>c2.
        bindR (strncat c2 '' '' 2) (\<lambda>c3.
        bindR (deref (httpserv_http_strstatus (status response))) (\<lambda>reason.
        bindR (strcat c3 reason) (\<lambda>c4.
        bindR (strncat c4 [CR, LF] 3) (\<lambda>c5.
        bindR (if numheads response = 0 then Inr c5
               else build_headers c5 (take (numheads response) (resp_headers response))) (\<lambda>c6.
        bindR (strncat c6 [CR, LF] 3) (\<lambda>c7.
        bindR (body_bytes response) (\<lambda>bs.
        bindR (strncat c7 bs (bodylength response)) (\<lambda>c8.
          Inr (Some \<lparr>content = Some c8, len = lenght response\<rparr>)))))))))))))))"

text \<open>
  \<open>httpserv_http_response_destroy\<close> frees the headers, the body, the array and the record;
  the model lists what it hands to \<open>free\<close>.
\<close>

datatype response_part = HeaderPart nat | BodyPart | HeaderArrayPart | ResponsePart

definition httpserv_http_response_destroy ::
  "httpserv_http_response_t option \<Rightarrow> response_part list res" where
  "httpserv_http_response_destroy response =
     bindR (deref response) (\<lambda>r.
       Inr (map HeaderPart [0..<numheads r] @ [BodyPart, HeaderArrayPart, ResponsePart]))"

end
