(* ===== verification/ResponseBuild.thy ===== *)
theory ResponseBuild
  imports Response
begin

section \<open>What a built response holds, and when it does not fit\<close>

text \<open>
  \<open>httpserv_http_response_build\<close> is a chain of appends to one block. \<open>text_in b0 s\<close> is
  that block after the text \<open>s\<close> was appended to the block \<open>b0\<close>, and one lemma
  (\<open>strcats_text_in\<close>) says for the whole chain either that it fits or that it runs past
  the end. The rest is arithmetic between the text and the \<open>lenght\<close> field.
\<close>

subsection \<open>Chains of appends\<close>

definition text_in :: "block \<Rightarrow> string \<Rightarrow> block" where
  "text_in b0 s = map Some s @ Some NUL # drop (Suc (length s)) b0"

lemma length_text_in: "length s < length b0 \<Longrightarrow> length (text_in b0 s) = length b0"
  by (simp add: text_in_def)

lemma cstr_text_in: "no_nul s \<Longrightarrow> cstr_of (text_in b0 s) = Inr s"
  by (simp add: text_in_def cmem)

lemma strcat_text_in:
  assumes "no_nul s" and "length s < length b0"
  shows "strcat (text_in b0 s) t =
    (if length s + length t < length b0 then Inr (text_in b0 (s @ t)) else Inl OutOfBounds)"
proof -
  have len: "strlen (text_in b0 s) = Inr (length s)"
    using cstr_text_in [OF assms(1)] by (rule strlen_holds)
  show ?thesis
  proof (cases "length s + length t < length b0")
    case True
    then have "wr_run (text_in b0 s) (length s) (t @ [NUL]) = Inr (text_in b0 (s @ t))"
      using length_text_in [OF assms(2)] by (simp add: wr_run_def) (simp add: text_in_def add.commute)
    with True len show ?thesis by (simp add: strcat_def)
  next
    case False
    then have "wr_run (text_in b0 s) (length s) (t @ [NUL]) = Inl OutOfBounds"
      using length_text_in [OF assms(2)] by (simp add: wr_run_def)
    with False len show ?thesis by (simp add: strcat_def)
  qed
qed

fun strcats :: "block \<Rightarrow> string list \<Rightarrow> block res" where
  "strcats b [] = Inr b"
| "strcats b (t # ts) = bindR (strcat b t) (\<lambda>b'. strcats b' ts)"

lemma strcats_append: "strcats b (ts @ us) = bindR (strcats b ts) (\<lambda>b'. strcats b' us)"
  by (induction ts arbitrary: b) (simp_all add: bindR_assoc)

lemma strcats_text_in:
  "no_nul s \<Longrightarrow> list_all no_nul ts \<Longrightarrow> length s < length b0 \<Longrightarrow>
    strcats (text_in b0 s) ts =
      (if length s + length (concat ts) < length b0 then Inr (text_in b0 (s @ concat ts))
       else Inl OutOfBounds)"
proof (induction ts arbitrary: s)
  case (Cons t ts)
  show ?case
  proof (cases "length s + length t < length b0")
    case True
    with Cons.IH [of "s @ t"] Cons.prems show ?thesis
      by (simp add: strcat_text_in add.assoc)
  next
    case False
    with Cons.prems show ?thesis by (simp add: strcat_text_in)
  qed
qed simp

lemma strncat_whole: "no_nul t \<Longrightarrow> length t \<le> n \<Longrightarrow> strncat b t n = strcat b t"
  by (simp add: strncat_def strcat_def)

lemma snprintf_whole:
  "no_nul s \<Longrightarrow> bindR (snprintf (malloc (length s + 1)) (length s + 1) s) cstr_of = Inr s"
  by (simp add: snprintf_def wr_run_def malloc_def cmem)

lemma build_headers_strcats:
  "list_all no_nul hs \<Longrightarrow> build_headers b hs = strcats b (map (\<lambda>h. h @ [CR, LF]) hs)"
proof (induction hs arbitrary: b)
  case (Cons h hs)
  then have "bindR (snprintf (malloc (length h + 3)) (length h + 3) (h @ [CR, LF])) cstr_of
      = Inr (h @ [CR, LF])"
    using snprintf_whole [of "h @ [CR, LF]"] by (simp add: numeral_3_eq_3)
  then obtain buf where "snprintf (malloc (length h + 3)) (length h + 3) (h @ [CR, LF]) = Inr buf"
    "cstr_of buf = Inr (h @ [CR, LF])"
    by (auto simp: bindR_Inr_iff)
  with Cons show ?case by simp
qed simp

subsection \<open>The text of a response\<close>

definition head_pieces :: "httpserv_http_response_t \<Rightarrow> string \<Rightarrow> string list" where
  "head_pieces r reason =
     [''HTTP/1.1 '', dec (nat (status r)), '' '', reason, [CR, LF]]
     @ map (\<lambda>h. h @ [CR, LF]) (resp_headers r) @ [[CR, LF]]"

definition response_text :: "httpserv_http_response_t \<Rightarrow> string \<Rightarrow> string \<Rightarrow> string" where
  "response_text r reason bs = concat (head_pieces r reason) @ bs"

definition zeroed :: "nat \<Rightarrow> nat \<Rightarrow> block" where
  "zeroed n cap = replicate n (Some NUL) @ replicate (cap - n) None"

lemma rd_run_facts: "rd_run b n = Inr s \<Longrightarrow> no_nul s \<and> length s \<le> n"
  by (induction b n arbitrary: s rule: rd_run.induct) (auto simp: bindR_Inr_iff split: if_splits)

lemma body_bytes_facts: "body_bytes r = Inr bs \<Longrightarrow> no_nul bs \<and> length bs \<le> bodylength r"
  by (auto simp: body_bytes_def bindR_Inr_iff split: if_splits dest: rd_run_facts)

lemma status_digits:
  assumes "100 \<le> n" and "n \<le> 999"
  shows "length (dec (nat n)) = 3"
proof -
  from assms have "(10::nat) ^ 2 \<le> nat n" "nat n < 10 ^ 3" by (auto simp: nat_less_iff le_nat_iff)
  then show ?thesis
    using length_dec_ge [of 2 "nat n"] length_dec_le [of "nat n" 3] by linarith
qed

lemma status_printed:
  assumes "httpserv_http_status_valid n"
  shows "\<exists>b. snprintf (malloc 4) 4 (dec (nat n) @ '' '') = Inr b \<and> cstr_of b = Inr (dec (nat n))"
proof -
  have d: "length (dec (nat n)) = 3"
    using status_valid_bounds [OF assms] by (intro status_digits) auto
  then have "snprintf (malloc 4) 4 (dec (nat n) @ '' '') = Inr (cstr (dec (nat n)))"
    by (simp add: snprintf_def wr_run_def malloc_def cstr_def)
  then show ?thesis by (simp add: cmem)
qed

text \<open>The chain of the code is the chain of the pieces; the body is read after all the others.\<close>

lemma build_is_strcats:
  assumes reason: "httpserv_http_strstatus (status r) = Some reason"
    and hs: "list_all no_nul (resp_headers r)" "numheads r = length (resp_headers r)"
    and us: "0 < lenght r" "lenght r \<le> us (lenght r)"
  shows "httpserv_http_response_build us r =
    bindR (strcats (text_in (zeroed (lenght r) (us (lenght r))) []) (head_pieces r reason)) (\<lambda>c.
    bindR (body_bytes r) (\<lambda>bs. bindR (strcat c bs) (\<lambda>b. Inr (Some \<lparr>content = Some b, len = lenght r\<rparr>))))"
proof -
  have valid: "httpserv_http_status_valid (status r)"
    using reason by (simp add: httpserv_http_status_valid_def)
  obtain stb where stb: "snprintf (malloc 4) 4 (dec (nat (status r)) @ '' '') = Inr stb"
    "cstr_of stb = Inr (dec (nat (status r)))"
    using status_printed [OF valid] by blast
  have d3: "length (dec (nat (status r))) = 3"
    using status_valid_bounds [OF valid] by (intro status_digits) auto
  have z: "memset (malloc (us (lenght r))) NUL (lenght r) =
      Inr (text_in (zeroed (lenght r) (us (lenght r))) [])"
    using us by (cases "lenght r")
      (simp_all add: memset_def wr_run_def malloc_def text_in_def zeroed_def)
  have heads: "(if numheads r = 0 then Inr b else build_headers b (take (numheads r) (resp_headers r)))
      = strcats b (map (\<lambda>h. h @ [CR, LF]) (resp_headers r))" for b
    using build_headers_strcats [OF hs(1)] hs(2) by simp
  have split: "strcats b (head_pieces r reason) =
      bindR (strcat b ''HTTP/1.1 '') (\<lambda>c1. bindR (strcat c1 (dec (nat (status r)))) (\<lambda>c2.
      bindR (strcat c2 '' '') (\<lambda>c3. bindR (strcat c3 reason) (\<lambda>c4. bindR (strcat c4 [CR, LF]) (\<lambda>c5.
      bindR (strcats c5 (map (\<lambda>h. h @ [CR, LF]) (resp_headers r))) (\<lambda>c6. strcat c6 [CR, LF]))))))" for b
    by (simp add: head_pieces_def strcats_append bindR_def split: sum.splits)
  have body: "bindR (body_bytes r) (\<lambda>bs. bindR (strncat c bs (bodylength r)) f)
      = bindR (body_bytes r) (\<lambda>bs. bindR (strcat c bs) f)" for c and f :: "block \<Rightarrow> httpserv_raw_data_t option res"
    by (rule bindR_cong) (auto dest!: body_bytes_facts simp: strncat_whole)
  show ?thesis
    unfolding httpserv_http_response_build_def split
    by (simp add: valid stb z heads reason body strstatus_no_nul [OF reason] strncat_whole d3 bindR_assoc)
qed

lemma build_outcome:
  assumes reason: "httpserv_http_strstatus (status r) = Some reason"
    and hs: "list_all no_nul (resp_headers r)" "numheads r = length (resp_headers r)"
    and us: "0 < lenght r" "lenght r \<le> us (lenght r)"
  shows "body_bytes r = Inr bs \<Longrightarrow> httpserv_http_response_build us r =
    (if length (response_text r reason bs) < us (lenght r)
     then Inr (Some \<lparr>content = Some (text_in (zeroed (lenght r) (us (lenght r))) (response_text r reason bs)),
                len = lenght r\<rparr>)
     else Inl OutOfBounds)"
    and "body_bytes r = Inl e \<Longrightarrow> length (response_text r reason []) < us (lenght r) \<Longrightarrow>
      httpserv_http_response_build us r = Inl e"
proof -
  let ?z = "text_in (zeroed (lenght r) (us (lenght r))) []"
  have heads: "list_all no_nul (head_pieces r reason)"
    using hs(1) strstatus_no_nul [OF reason] by (auto simp: head_pieces_def list_all_iff)
  have len: "length (zeroed (lenght r) (us (lenght r))) = us (lenght r)"
    using us by (simp add: zeroed_def)
  note chain = build_is_strcats [OF reason hs us(1), of us, OF us(2)]
  have whole: "response_text r reason bs = concat (head_pieces r reason @ [bs])" for bs
    by (simp add: response_text_def)
  show "httpserv_http_response_build us r =
    (if length (response_text r reason bs) < us (lenght r)
     then Inr (Some \<lparr>content = Some (text_in (zeroed (lenght r) (us (lenght r))) (response_text r reason bs)),
                len = lenght r\<rparr>)
     else Inl OutOfBounds)" if bs: "body_bytes r = Inr bs" for bs
  proof -
    have "httpserv_http_response_build us r = bindR (strcats ?z (head_pieces r reason @ [bs]))
        (\<lambda>b. Inr (Some \<lparr>content = Some b, len = lenght r\<rparr>))"
      unfolding chain strcats_append bs by (simp add: bindR_assoc)
    then show ?thesis
      using strcats_text_in [of "[]" "head_pieces r reason @ [bs]" "zeroed (lenght r) (us (lenght r))"]
        heads body_bytes_facts [OF bs] us len unfolding whole by simp
  qed
  show "httpserv_http_response_build us r = Inl e"
    if "body_bytes r = Inl e" and "length (response_text r reason []) < us (lenght r)"
    using strcats_text_in [of "[]" "head_pieces r reason" "zeroed (lenght r) (us (lenght r))"]
      heads us len that unfolding chain whole by simp
qed

subsection \<open>The length field\<close>

text \<open>
  \<open>wf_response reason0 r\<close>: the field counts the text of a response whose reason phrase is
  \<open>reason0\<close>, the one of the status the response was created with.
\<close>

definition wf_response :: "string \<Rightarrow> httpserv_http_response_t \<Rightarrow> bool" where
  "wf_response reason0 r \<longleftrightarrow>
     lenght r = 17 + length reason0 + (\<Sum>h\<leftarrow>resp_headers r. length h + 2) + bodylength r
     \<and> numheads r = length (resp_headers r) \<and> list_all no_nul (resp_headers r)"

lemma add_header_result:
  assumes "no_nul k" and "no_nul v"
  shows "httpserv_http_response_add_header us (Some r) (Some k) (Some v) =
    (if 8 * (numheads r + 1) \<le> us (numheads r + 1)
     then Inr (Some (r\<lparr>numheads := numheads r + 1, resp_headers := resp_headers r @ [k @ '': '' @ v],
       lenght := lenght r + (length k + length v + 4)\<rparr>))
     else Inl OutOfBounds)"
proof -
  let ?h = "k @ '': '' @ v"
  have "snprintf (malloc (length k + length v + 3)) (length k + length v + 3) ?h = Inr (cstr ?h)"
    by (simp add: snprintf_def wr_run_def cstr_def malloc_def)
  moreover have "cstr_of (cstr ?h) = Inr ?h" using assms by (simp add: cmem)
  ultimately show ?thesis
    by (simp add: httpserv_http_response_add_header_def Let_def)
qed

lemma response_text_length:
  assumes "wf_response reason0 r" and "httpserv_http_strstatus (status r) = Some reason"
  shows "length (response_text r reason bs) + length reason0 + bodylength r =
    lenght r + length reason + length bs"
proof -
  have "httpserv_http_status_valid (status r)"
    using assms(2) by (simp add: httpserv_http_status_valid_def)
  then have "length (dec (nat (status r))) = 3"
    by (intro status_digits) (auto dest: status_valid_bounds)
  moreover have "length (concat (map (\<lambda>h. h @ [CR, LF]) hs)) = (\<Sum>h\<leftarrow>hs. length h + 2)" for hs
    by (induction hs) auto
  ultimately show ?thesis
    using assms(1) by (simp add: response_text_def head_pieces_def wf_response_def)
qed

subsection \<open>The bytes that go out\<close>

lemma raw_bytes_text_in:
  assumes "n \<le> cap" and "length s < cap"
  shows "raw_bytes \<lparr>content = Some (text_in (zeroed n cap) s), len = n\<rparr>
    = Inr (take n (s @ replicate n NUL))"
proof -
  let ?b = "text_in (zeroed n cap) s"
  have len: "length ?b = cap"
    using assms length_text_in [of s "zeroed n cap"] by (simp add: zeroed_def)
  have "take n ?b = map Some (take n (s @ replicate n NUL))"
  proof (rule nth_equalityI)
    fix i assume i: "i < length (take n ?b)"
    then have i': "i < n" "i < cap" using len by auto
    consider "i < length s" | "i = length s" | "length s < i" by linarith
    then show "take n ?b ! i = map Some (take n (s @ replicate n NUL)) ! i"
    proof cases
      case 3
      then obtain j where j: "i = Suc (length s + j)" by (auto simp: less_iff_Suc_add)
      have "drop (Suc (length s)) (zeroed n cap) ! j = zeroed n cap ! i"
        using i' assms by (subst nth_drop) (simp_all add: zeroed_def j)
      then show ?thesis
        using i' j by (simp add: text_in_def nth_append zeroed_def)
    qed (use i' in \<open>simp_all add: text_in_def nth_append\<close>)
  qed (use len assms in \<open>simp add: min_def\<close>)
  then show ?thesis
    using len assms(1) by (simp add: raw_bytes_def rd_all_def list_all_iff)
qed

text \<open>
  An allocator that rounds up: 64-bit glibc gives every block at least 24 usable bytes
  and rounds the chunk (the block and 8 bytes of size) up to a multiple of 16.
\<close>

definition glibc_usable :: "nat \<Rightarrow> nat" where
  "glibc_usable n = max 24 ((n + 23) div 16 * 16 - 8)"

subsection \<open>Sequences of calls on one response\<close>

text \<open>
  Any client: a list of calls, stopped by the first undefined behaviour. The body of a call is
  any sequence of bytes, and \<open>ra\<close> says which of its reallocations give a block.
\<close>

datatype response_call = AddHeader string string | SetBody string

fun apply_call :: "(nat \<Rightarrow> nat) \<Rightarrow> (bool \<Rightarrow> nat \<Rightarrow> bool) \<Rightarrow> httpserv_http_response_t \<Rightarrow> response_call
    \<Rightarrow> httpserv_http_response_t res" where
  "apply_call us ra r (AddHeader k v) =
     bindR (httpserv_http_response_add_header us (Some r) (Some k) (Some v)) deref"
| "apply_call us ra r (SetBody s) =
     bindR (httpserv_http_response_set_body ra (Some r) (map Some s) (length s)) (\<lambda>p. deref (snd p))"

fun apply_calls :: "(nat \<Rightarrow> nat) \<Rightarrow> (bool \<Rightarrow> nat \<Rightarrow> bool) \<Rightarrow> httpserv_http_response_t \<Rightarrow> response_call list
    \<Rightarrow> httpserv_http_response_t res" where
  "apply_calls us ra r [] = Inr r"
| "apply_calls us ra r (c # cs) = bindR (apply_call us ra r c) (\<lambda>r'. apply_calls us ra r' cs)"

text \<open>A response created with status \<open>st\<close> and filled by such a client.\<close>

definition filled_response :: "(nat \<Rightarrow> nat) \<Rightarrow> (bool \<Rightarrow> nat \<Rightarrow> bool) \<Rightarrow> int \<Rightarrow> response_call list
    \<Rightarrow> httpserv_http_response_t res" where
  "filled_response us ra st cs = bindR (httpserv_http_response_new st) (\<lambda>r. apply_calls us ra r cs)"

text \<open>
  What the calls amount to, without the response: the headers in the order of the calls, and
  the last body for which there was memory, with whether the response still holds it. A
  rejected body takes the one before it away, but not its length.
\<close>

fun c_call :: "response_call \<Rightarrow> bool" where
  "c_call (AddHeader k v) \<longleftrightarrow> no_nul k \<and> no_nul v"
| "c_call (SetBody s) \<longleftrightarrow> True"

fun added_headers :: "response_call list \<Rightarrow> (string \<times> string) list" where
  "added_headers [] = []"
| "added_headers (AddHeader k v # cs) = (k, v) # added_headers cs"
| "added_headers (SetBody s # cs) = added_headers cs"

fun body_step :: "(bool \<Rightarrow> nat \<Rightarrow> bool) \<Rightarrow> response_call \<Rightarrow> bool \<times> string \<Rightarrow> bool \<times> string" where
  "body_step ra (AddHeader k v) (held, s) = (held, s)"
| "body_step ra (SetBody t) (held, s) = (if ra held (length t) then (True, t) else (False, s))"

definition body_after :: "(bool \<Rightarrow> nat \<Rightarrow> bool) \<Rightarrow> response_call list \<Rightarrow> bool \<times> string" where
  "body_after ra cs = fold (body_step ra) cs (False, [])"

definition message_text :: "int \<Rightarrow> string \<Rightarrow> (string \<times> string) list \<Rightarrow> string \<Rightarrow> string" where
  "message_text st reason hs body = ''HTTP/1.1 '' @ dec (nat st) @ '' '' @ reason @ [CR, LF]
     @ concat (map (\<lambda>(k, v). k @ '': '' @ v @ [CR, LF]) hs) @ [CR, LF] @ body"

text \<open>What is printed of a body: up to its first NUL; a body that is gone is read through \<open>NULL\<close>.\<close>

fun printed_body :: "bool \<times> string \<Rightarrow> string res" where
  "printed_body (held, s) = (if held then Inr (takeWhile (\<lambda>c. c \<noteq> NUL) s)
     else if s = [] then Inr [] else Inl NullDeref)"

text \<open>The response after the calls, field by field.\<close>

fun filled_with :: "int \<Rightarrow> string \<Rightarrow> (string \<times> string) list \<Rightarrow> bool \<times> string \<Rightarrow> httpserv_http_response_t" where
  "filled_with st reason hs (held, s) = \<lparr>status = st, resp_headers = map (\<lambda>(k, v). k @ '': '' @ v) hs,
     resp_body = (if held then Some (map Some s) else None), numheads = length hs, bodylength = length s,
     lenght = length (message_text st reason hs s)\<rparr>"

text \<open>The array of headers has room for the headers after the first \<open>n\<close>, up to \<open>m\<close>.\<close>

definition header_room :: "(nat \<Rightarrow> nat) \<Rightarrow> nat \<Rightarrow> nat \<Rightarrow> bool" where
  "header_room us n m \<longleftrightarrow> (\<forall>i \<in> {n<..m}. 8 * i \<le> us i)"

lemma header_room_step: "n < m \<Longrightarrow> header_room us n m \<longleftrightarrow> 8 * (n + 1) \<le> us (n + 1) \<and> header_room us (n + 1) m"
proof -
  assume "n < m"
  then have "{n<..m} = insert (n + 1) {n + 1<..m}" by auto
  then show ?thesis by (simp add: header_room_def)
qed

lemma apply_add_header:
  assumes "no_nul k" and "no_nul v"
  shows "apply_call us ra (filled_with st reason hs p) (AddHeader k v) =
    (if 8 * (length hs + 1) \<le> us (length hs + 1) then Inr (filled_with st reason (hs @ [(k, v)]) p) else Inl OutOfBounds)"
  by (cases p) (simp add: add_header_result [OF assms] message_text_def)

lemma apply_set_body:
  "apply_call us ra (filled_with st reason hs p) (SetBody t) = Inr (filled_with st reason hs (body_step ra (SetBody t) p))"
  by (cases p) (simp add: httpserv_http_response_set_body_def message_text_def)

lemma apply_calls_outcome:
  "list_all c_call cs \<Longrightarrow> apply_calls us ra (filled_with st reason hs p) cs =
    (if header_room us (length hs) (length hs + length (added_headers cs))
     then Inr (filled_with st reason (hs @ added_headers cs) (fold (body_step ra) cs p)) else Inl OutOfBounds)"
proof (induction cs arbitrary: hs p)
  case Nil
  then show ?case by (simp add: header_room_def)
next
  case (Cons c cs)
  show ?case
  proof (cases c)
    case (AddHeader k v)
    then have "body_step ra c p = p" by (cases p) simp
    with AddHeader Cons show ?thesis
      by (simp del: apply_call.simps filled_with.simps add: apply_add_header header_room_step)
  next
    case (SetBody t)
    with Cons show ?thesis by (simp del: apply_call.simps filled_with.simps body_step.simps add: apply_set_body)
  qed
qed

lemma filled_response_outcome:
  assumes "list_all c_call cs"
  shows "filled_response us ra st cs = (case httpserv_http_strstatus st of None \<Rightarrow> Inl NullDeref
    | Some reason \<Rightarrow> if header_room us 0 (length (added_headers cs))
        then Inr (filled_with st reason (added_headers cs) (body_after ra cs)) else Inl OutOfBounds)"
proof (cases "httpserv_http_strstatus st")
  case (Some reason)
  then have "httpserv_http_status_valid st" by (simp add: httpserv_http_status_valid_def)
  then have "length (dec (nat st)) = 3" by (intro status_digits) (auto dest: status_valid_bounds)
  then have "httpserv_http_response_new st = Inr (filled_with st reason [] (False, []))"
    using Some by (simp add: httpserv_http_response_new_def message_text_def)
  then show ?thesis using Some apply_calls_outcome [OF assms, of us ra st reason "[]"]
    by (simp del: filled_with.simps add: filled_response_def body_after_def)
qed (simp add: filled_response_def httpserv_http_response_new_def)

lemma filled_responseE:
  assumes "filled_response us ra st cs = Inr r" and "list_all c_call cs"
  obtains reason held s where "httpserv_http_strstatus st = Some reason" and "body_after ra cs = (held, s)"
    and "r = filled_with st reason (added_headers cs) (held, s)"
  using assms(1) unfolding filled_response_outcome [OF assms(2)]
  by (cases "body_after ra cs") (auto simp del: filled_with.simps split: option.splits if_splits)

subsection \<open>The fields of a filled response\<close>

lemma rd_run_text: "rd_run (map Some s) (length s) = Inr (takeWhile (\<lambda>c. c \<noteq> NUL) s)"
  by (induction s) auto

lemma body_bytes_filled: "body_bytes (filled_with st reason hs p) = printed_body p"
  by (cases p) (auto simp: body_bytes_def rd_run_text)

lemma response_text_filled: "response_text (filled_with st reason hs p) reason bs = message_text st reason hs bs"
  by (cases p) (auto simp: response_text_def head_pieces_def message_text_def comp_def case_prod_unfold)

lemma headers_no_nul: "list_all c_call cs \<Longrightarrow> list_all no_nul (map (\<lambda>(k, v). k @ '': '' @ v) (added_headers cs))"
  by (induction cs rule: added_headers.induct) auto

lemma printed_body_length: "printed_body (held, s) = Inr bs \<Longrightarrow> length bs \<le> length s"
  by (auto simp: length_takeWhile_le split: if_splits)

lemma printed_whole_iff:
  "(\<exists>bs. printed_body (held, s) = Inr bs \<and> length bs = length s) \<longleftrightarrow> no_nul s \<and> (held \<or> s = [])"
proof -
  have "length (takeWhile (\<lambda>c. c \<noteq> NUL) s) = length s \<longleftrightarrow> no_nul s" by (induction s) auto
  then show ?thesis by auto
qed

lemma filled_wf: "list_all c_call cs \<Longrightarrow> httpserv_http_strstatus st = Some reason \<Longrightarrow>
    wf_response reason (filled_with st reason (added_headers cs) p)"
proof -
  assume cs: "list_all c_call cs" and "httpserv_http_strstatus st = Some reason"
  then have "httpserv_http_status_valid st" by (simp add: httpserv_http_status_valid_def)
  then have "length (dec (nat st)) = 3" by (intro status_digits) (auto dest: status_valid_bounds)
  moreover have "length (concat (map (\<lambda>(k, v). k @ '': '' @ v @ [CR, LF]) hs))
      = (\<Sum>h\<leftarrow>map (\<lambda>(k, v). k @ '': '' @ v) hs. length h + 2)" for hs
    by (induction hs) auto
  ultimately show ?thesis using headers_no_nul [OF cs] by (cases p) (simp add: wf_response_def message_text_def)
qed

lemma wf_response_parts:
  assumes "wf_response reason r"
  shows "list_all no_nul (resp_headers r)" "numheads r = length (resp_headers r)" "0 < lenght r"
  using assms by (auto simp: wf_response_def)

text \<open>A build that fits, and the bytes it puts on the wire.\<close>

lemma build_fits:
  assumes "httpserv_http_strstatus (status r) = Some reason" and "wf_response reason0 r"
    and "body_bytes r = Inr bs" and "lenght r \<le> us (lenght r)"
    and "length (response_text r reason bs) < us (lenght r)"
  shows "\<exists>raw. httpserv_http_response_build us r = Inr (Some raw)
    \<and> raw_bytes raw = Inr (take (lenght r) (response_text r reason bs @ replicate (lenght r) NUL))"
  using build_outcome(1) [OF assms(1) wf_response_parts [OF assms(2)], of us, OF assms(4,3)]
    raw_bytes_text_in [OF assms(4,5)] assms(5) by simp

text \<open>A whole response in one block of any size that is not smaller than the field says.\<close>

lemma build_filled:
  assumes "httpserv_http_strstatus st = Some reason" and "list_all c_call cs"
    and "r = filled_with st reason (added_headers cs) p" and "lenght r \<le> us' (lenght r)"
  shows "printed_body p = Inr bs \<Longrightarrow> httpserv_http_response_build us' r = Inl OutOfBounds
      \<longleftrightarrow> us' (lenght r) \<le> length (message_text st reason (added_headers cs) bs)"
    and "printed_body p = Inl e \<Longrightarrow> httpserv_http_response_build us' r = Inl e"
proof -
  have st: "httpserv_http_strstatus (status r) = Some reason" using assms(1,3) by (cases p) simp
  have wf: "wf_response reason r" unfolding assms(3) by (rule filled_wf [OF assms(2,1)])
  note whole = response_text_filled [of st reason "added_headers cs" p, folded assms(3)]
    and body = body_bytes_filled [of st reason "added_headers cs" p, folded assms(3)]
    and out = build_outcome [OF st wf_response_parts [OF wf], of us', OF assms(4)]
  show "httpserv_http_response_build us' r = Inl OutOfBounds
      \<longleftrightarrow> us' (lenght r) \<le> length (message_text st reason (added_headers cs) bs)" if "printed_body p = Inr bs"
    using out(1) [of bs] that by (simp add: body whole not_less)
  show "httpserv_http_response_build us' r = Inl e" if "printed_body p = Inl e"
  proof -
    obtain held s where p: "p = (held, s)" by (cases p)
    with that have "\<not> held" "s \<noteq> []" by (auto split: if_splits)
    with p have "length (message_text st reason (added_headers cs) []) < lenght r"
      unfolding assms(3) by (simp add: message_text_def)
    then show ?thesis using out(2) [of e] that assms(4) by (simp add: body whole)
  qed
qed

subsection \<open>Properties\<close>

text \<open>
  C6: whatever headers and bodies a client puts into a response, NUL bytes and rejected
  reallocations included, the \<open>lenght\<close> field is the length of the message with all the headers
  and the last body there was memory for. What the response prints as its body is that body up
  to its first NUL byte, or \<open>NULL\<close> is read when a later body was rejected; so the field is the
  number of characters of the printed text exactly if that body has no NUL byte and is still
  held (or is empty).
\<close>

theorem response_length_exact:
  assumes "filled_response us ra st cs = Inr r" and "list_all c_call cs" and "body_after ra cs = (held, s)"
  shows "\<exists>reason. httpserv_http_strstatus (status r) = Some reason \<and> status r = st
    \<and> lenght r = length (message_text st reason (added_headers cs) s)
    \<and> body_bytes r = printed_body (held, s)
    \<and> ((\<exists>bs. body_bytes r = Inr bs \<and> lenght r = length (message_text st reason (added_headers cs) bs))
        \<longleftrightarrow> no_nul s \<and> (held \<or> s = []))"
proof -
  obtain reason where r: "httpserv_http_strstatus st = Some reason" "r = filled_with st reason (added_headers cs) (held, s)"
    using filled_responseE [OF assms(1,2)] assms(3) by metis
  have "length (message_text st reason (added_headers cs) bs) = length (message_text st reason (added_headers cs) s)
      \<longleftrightarrow> length bs = length s" for bs by (simp add: message_text_def)
  then show ?thesis using r printed_whole_iff [of held s] unfolding r(2) body_bytes_filled
    by (simp del: printed_body.simps) metis
qed

text \<open>An empty body after another one: the C library frees the old body and reports a failure.\<close>

theorem response_length_exact_witness:
  "\<exists>r. filled_response ((*) 8) glibc_realloc 200 [SetBody ''no'', AddHeader ''A'' ''b'', SetBody ''hi'', SetBody []] = Inr r
    \<and> lenght r = 27 \<and> body_bytes r = Inl NullDeref"
proof -
  let ?cs = "[SetBody ''no'', AddHeader ''A'' ''b'', SetBody ''hi'', SetBody []]"
  have calls: "list_all c_call ?cs" by simp
  have body: "body_after glibc_realloc ?cs = (False, ''hi'')" by code_simp
  have "bindR (filled_response ((*) 8) glibc_realloc 200 ?cs) (\<lambda>r. Inr (lenght r)) = Inr 27" by code_simp
  then obtain r where r: "filled_response ((*) 8) glibc_realloc 200 ?cs = Inr r" "lenght r = 27"
    by (auto simp: bindR_Inr_iff)
  with response_length_exact [OF r(1) calls body] show ?thesis by auto
qed

text \<open>
  C29: with an allocator that gives exactly the bytes asked for, which is all the C standard
  promises, building a response writes past the end of the block, because the terminating
  NUL has no room: for every sequence of calls whose last body has no NUL byte and was not lost
  to a rejected one, and for no other.
\<close>

theorem response_build_overflows:
  assumes "filled_response us ra st cs = Inr r" and "list_all c_call cs" and "body_after ra cs = (held, s)"
  shows "httpserv_http_response_build id r = Inl OutOfBounds \<longleftrightarrow> no_nul s \<and> (held \<or> s = [])"
proof -
  obtain reason where r: "httpserv_http_strstatus st = Some reason" "r = filled_with st reason (added_headers cs) (held, s)"
    using filled_responseE [OF assms(1,2)] assms(3) by metis
  have "lenght r \<le> id (lenght r)" by simp
  note out = build_filled [where us' = id, OF r(1) assms(2) r(2) this]
  show ?thesis
  proof (cases "printed_body (held, s)")
    case (Inl e)
    then show ?thesis using out(2) printed_whole_iff [of held s] by (auto split: if_splits)
  next
    case (Inr bs)
    have "lenght r \<le> length (message_text st reason (added_headers cs) bs) \<longleftrightarrow> length s \<le> length bs"
      unfolding r(2) by (simp add: message_text_def)
    then have "httpserv_http_response_build id r = Inl OutOfBounds \<longleftrightarrow> length bs = length s"
      using out(1) [OF Inr] printed_body_length [OF Inr] by auto
    then show ?thesis using printed_whole_iff [of held s] Inr by (metis sum.inject(2))
  qed
qed

theorem response_build_overflows_witness:
  "\<exists>r. filled_response ((*) 8) glibc_realloc 404 [AddHeader ''Server'' ''cweb/0.1.0''] = Inr r
    \<and> httpserv_http_response_build id r = Inl OutOfBounds"
proof -
  let ?cs = "[AddHeader ''Server'' ''cweb/0.1.0'']"
  have calls: "list_all c_call ?cs" by simp
  have body: "body_after glibc_realloc ?cs = (False, [])" by code_simp
  have "bindR (filled_response ((*) 8) glibc_realloc 404 ?cs) (\<lambda>r. Inr (lenght r)) = Inr 46" by code_simp
  then obtain r where r: "filled_response ((*) 8) glibc_realloc 404 ?cs = Inr r"
    by (auto simp: bindR_Inr_iff)
  with response_build_overflows [OF r calls body] show ?thesis by simp
qed

text \<open>
  C5: whenever the block has at least one spare byte, the bytes of the raw response are, for
  every sequence of calls: the status line, every header in the order in which it was added, the
  blank line, and the last body up to its first NUL byte, with NUL bytes in the place of the
  rest of the body. If that body was lost to a rejected one, \<open>NULL\<close> is read.
\<close>

theorem response_wire_exact:
  assumes "filled_response us ra st cs = Inr r" and "list_all c_call cs" and "body_after ra cs = (held, s)"
    and "lenght r < us' (lenght r)"
  shows "\<exists>reason. httpserv_http_strstatus st = Some reason
    \<and> (case printed_body (held, s) of
        Inl e \<Rightarrow> httpserv_http_response_build us' r = Inl e
      | Inr bs \<Rightarrow> \<exists>raw. httpserv_http_response_build us' r = Inr (Some raw)
          \<and> raw_bytes raw = Inr (message_text st reason (added_headers cs) bs @ replicate (length s - length bs) NUL))"
proof -
  obtain reason where r: "httpserv_http_strstatus st = Some reason" "r = filled_with st reason (added_headers cs) (held, s)"
    using filled_responseE [OF assms(1,2)] assms(3) by metis
  have "\<exists>raw. httpserv_http_response_build us' r = Inr (Some raw)
      \<and> raw_bytes raw = Inr (message_text st reason (added_headers cs) bs @ replicate (length s - length bs) NUL)"
    if bs: "printed_body (held, s) = Inr bs" for bs
  proof -
    let ?t = "message_text st reason (added_headers cs) bs"
    have wf: "wf_response reason r" unfolding r(2) by (rule filled_wf [OF assms(2) r(1)])
    have len: "lenght r = length ?t + (length s - length bs)"
      unfolding r(2) using printed_body_length [OF bs] by (simp add: message_text_def)
    have st: "httpserv_http_strstatus (status r) = Some reason" unfolding r(2) using r(1) by simp
    have "response_text r reason bs = ?t" unfolding r(2) by (rule response_text_filled)
    then have "\<exists>raw. httpserv_http_response_build us' r = Inr (Some raw)
        \<and> raw_bytes raw = Inr (take (lenght r) (?t @ replicate (lenght r) NUL))"
      using build_fits [OF st wf, of bs us'] assms(4) len bs body_bytes_filled [of st reason "added_headers cs" "(held, s)"]
      unfolding r(2) by simp
    moreover have "take (lenght r) (?t @ replicate (lenght r) NUL) = ?t @ replicate (length s - length bs) NUL"
      using len by simp
    ultimately show ?thesis by simp
  qed
  moreover have "httpserv_http_response_build us' r = Inl e" if "printed_body (held, s) = Inl e" for e
    using build_filled(2) [where us' = us', OF r(1) assms(2) r(2) less_imp_le [OF assms(4)] that] .
  ultimately show ?thesis using r(1) by (auto simp del: printed_body.simps split: sum.splits)
qed

theorem response_wire_exact_witness:
  "\<exists>r raw. filled_response ((*) 8) glibc_realloc 200 [AddHeader ''A'' ''1'', SetBody ''old'', AddHeader ''B'' ''2'', SetBody ''h'']
      = Inr r \<and> httpserv_http_response_build Suc r = Inr (Some raw)
    \<and> raw_bytes raw = Inr (''HTTP/1.1 200 OK'' @ [CR, LF] @ ''A: 1'' @ [CR, LF] @ ''B: 2'' @ [CR, LF, CR, LF] @ ''h'')"
proof -
  let ?cs = "[AddHeader ''A'' ''1'', SetBody ''old'', AddHeader ''B'' ''2'', SetBody ''h'']"
  have calls: "list_all c_call ?cs" by simp
  have body: "body_after glibc_realloc ?cs = (True, ''h'')" by code_simp
  have "bindR (filled_response ((*) 8) glibc_realloc 200 ?cs) (\<lambda>r. Inr (lenght r)) = Inr 32" by code_simp
  then obtain r where r: "filled_response ((*) 8) glibc_realloc 200 ?cs = Inr r"
    by (auto simp: bindR_Inr_iff)
  have "httpserv_http_strstatus 200 = Some ''OK''" by code_simp
  moreover have "message_text 200 ''OK'' (added_headers ?cs) ''h'' =
      ''HTTP/1.1 200 OK'' @ [CR, LF] @ ''A: 1'' @ [CR, LF] @ ''B: 2'' @ [CR, LF, CR, LF] @ ''h''" by code_simp
  ultimately show ?thesis using response_wire_exact [OF r calls body, of Suc] r by auto
qed

text \<open>
  changing the status after creation does not change the length field. When the new
  reason phrase is longer, the text is longer than the field by the difference, the block
  is overrun by that much and the terminator, and even when the allocator's slack hides
  this, the bytes that go out lack the last bytes of the text.
\<close>

theorem status_change_truncates:
  assumes "filled_response us ra st cs = Inr r" and "list_all c_call cs"
    and "body_after ra cs = (held, s)" and "printed_body (held, s) = Inr s"
    and "httpserv_http_strstatus st = Some reason" and "httpserv_http_strstatus st' = Some reason'"
    and "length reason \<le> length reason'"
    and "lenght r + (length reason' - length reason) < us' (lenght r)"
  shows "\<exists>raw. httpserv_http_response_build us' (r\<lparr>status := st'\<rparr>) = Inr (Some raw)
    \<and> raw_bytes raw = Inr (take (lenght r) (message_text st' reason' (added_headers cs) s))
    \<and> length (message_text st' reason' (added_headers cs) s) = lenght r + (length reason' - length reason)"
proof -
  have r: "r = filled_with st reason (added_headers cs) (held, s)"
    using filled_responseE [OF assms(1,2)] assms(3,5) by (metis option.inject)
  let ?r = "r\<lparr>status := st'\<rparr>" and ?t = "message_text st' reason' (added_headers cs) s"
  have wf: "wf_response reason ?r" using filled_wf [OF assms(2,5), of "(held, s)"] unfolding r by (simp add: wf_response_def)
  have "body_bytes ?r = body_bytes r" by (simp add: body_bytes_def)
  then have bs: "body_bytes ?r = Inr s" using assms(4) body_bytes_filled [of st reason "added_headers cs" "(held, s)"] r by simp
  have whole: "response_text ?r reason' s = ?t"
    using response_text_filled [of st' reason' "added_headers cs" "(held, s)" s] unfolding r
    by (simp add: response_text_def head_pieces_def)
  have len: "length ?t = lenght r + (length reason' - length reason)"
    using response_text_length [OF wf, of reason' s] assms(6,7) unfolding whole by (simp add: r)
  have "\<exists>raw. httpserv_http_response_build us' ?r = Inr (Some raw)
      \<and> raw_bytes raw = Inr (take (lenght ?r) (response_text ?r reason' s @ replicate (lenght ?r) NUL))"
    using assms(6,8) len whole by (intro build_fits [OF _ wf bs]) simp_all
  then show ?thesis using len by (simp add: whole)
qed

theorem status_change_truncates_witness:
  "\<exists>r raw. filled_response ((*) 8) glibc_realloc 200 [AddHeader ''A'' ''b''] = Inr r
    \<and> httpserv_http_response_build ((+) 8) (r\<lparr>status := 404\<rparr>) = Inr (Some raw)
    \<and> raw_bytes raw = Inr (''HTTP/1.1 404 Not Found'' @ [CR, LF, CHR ''A''])"
proof -
  let ?cs = "[AddHeader ''A'' ''b'']"
  have calls: "list_all c_call ?cs" by simp
  have body: "body_after glibc_realloc ?cs = (False, [])" by code_simp
  have "bindR (filled_response ((*) 8) glibc_realloc 200 ?cs) (\<lambda>r. Inr (lenght r)) = Inr 25" by code_simp
  then obtain r where r: "filled_response ((*) 8) glibc_realloc 200 ?cs = Inr r" "lenght r = 25"
    by (auto simp: bindR_Inr_iff)
  have st: "httpserv_http_strstatus 200 = Some ''OK''" "httpserv_http_strstatus 404 = Some ''Not Found''"
    by code_simp+
  have "take 25 (message_text 404 ''Not Found'' (added_headers ?cs) []) = ''HTTP/1.1 404 Not Found'' @ [CR, LF, CHR ''A'']"
    by code_simp
  with status_change_truncates [OF r(1) calls body _ st, of "(+) 8"] r show ?thesis by auto
qed

text \<open>
  the array of header pointers is reallocated to one byte per header. Under the glibc
  allocator the array holds three pointers, so the fourth header overruns it; an allocator
  that gives exactly what is asked for loses already the first.
\<close>

theorem header_array_capacity:
  assumes "no_nul k" and "no_nul v"
  shows "((\<exists>r'. httpserv_http_response_add_header glibc_usable (Some r) (Some k) (Some v) = Inr (Some r'))
      \<longleftrightarrow> numheads r < 3)
    \<and> httpserv_http_response_add_header id (Some r) (Some k) (Some v) = Inl OutOfBounds"
proof -
  have "8 * (n + 1) \<le> glibc_usable (n + 1) \<longleftrightarrow> n < 3" for n :: nat
  proof (cases "n < 3")
    case True
    then have "n = 0 \<or> n = 1 \<or> n = 2" by arith
    with True show ?thesis by (auto simp: glibc_usable_def)
  next
    case False
    have "(n + 1 + 23) div 16 * 16 \<le> n + 1 + 23" by (rule div_times_less_eq_dividend)
    with False show ?thesis by (simp add: glibc_usable_def)
  qed
  then show ?thesis by (simp add: add_header_result [OF assms])
qed

theorem header_array_capacity_witness:
  "httpserv_http_response_add_header id (Some \<lparr>status = 200, resp_headers = [], resp_body = None,
     numheads = 0, bodylength = 0, lenght = 19\<rparr>) (Some ''A'') (Some ''b'') = Inl OutOfBounds"
  using header_array_capacity [of "''A''" "''b''"] by simp

end
