(* ===== verification/Config.thy ===== *)
theory Config
  imports StrBuild Stringh CNum
begin

section \<open>The configuration file (src/config.c)\<close>

text \<open>
  \<open>httpserv_config_process_line\<close> splits one line at its first \<open>=\<close> and strips both
  sides; \<open>httpserv_config_load\<close> reads a file byte by byte, cuts it into lines and adds
  every entry to a tree. The tree is the libtree submodule, which is not part of the
  repository: its functions are the fields of the record \<open>libtree\<close>, a parameter. A node that
  is there may have the value \<open>NULL\<close>, such as one that was made on the way to another one. The
  state of the file system is a function from a path to the error text of \<open>fopen\<close> or
  the contents of the file. What the code prints to stderr is part of the result.
\<close>

record 't libtree =
  tree_new :: 't
  tree_add_node :: "'t \<Rightarrow> string \<Rightarrow> string \<Rightarrow> 't"
  tree_get_node :: "'t \<Rightarrow> string \<Rightarrow> string option option"

record httpserv_cfg_t =
  label :: block
  cfg_value :: block

subsection \<open>One line\<close>

text \<open>
  The scanning loop. \<open>label_read\<close> is 1 while the label is read, 0 while the value is
  read, and becomes -1 at a comment sign, which also ends the loop.
\<close>

fun config_scan :: "int \<Rightarrow> block \<Rightarrow> block \<Rightarrow> string \<Rightarrow> (int \<times> block \<times> block) res" where
  "config_scan label_read l v [] = Inr (label_read, l, v)"
| "config_scan label_read l v (c # cs) =
     (if c = CHR ''#'' then Inr (-1, l, v)
      else if label_read = 1 then
        (if c = CHR ''='' then config_scan 0 l v cs
         else bindR (append_realloc l c) (\<lambda>l'. config_scan label_read l' v cs))
      else bindR (append_realloc v c) (\<lambda>v'. config_scan label_read l v' cs))"

definition no_assignment_msg :: "string \<Rightarrow> nat \<Rightarrow> string" where
  "no_assignment_msg path linenum = ''In file \"'' @ path @ ''\": line '' @ dec linenum
     @ '' doesn't contain an assignment operator'' @ [LF]"

text \<open>The result is the text written to stderr and the entry, if there is one.\<close>

definition httpserv_config_process_line ::
  "string \<Rightarrow> nat \<Rightarrow> string \<Rightarrow> (string \<times> httpserv_cfg_t option) res" where
  "httpserv_config_process_line line linenum path =
     bindR (memset (malloc 2) NUL 2) (\<lambda>l0.
     bindR (memset (malloc 2) NUL 2) (\<lambda>v0.
     bindR (config_scan 1 l0 v0 line) (\<lambda>(label_read, l, v).
       if label_read = 1 then Inr (no_assignment_msg path linenum, None)
       else if label_read = -1 then Inr ([], None)
       else
         bindR (bindR (httpserv_strstripltw (Some l)) deref) (\<lambda>l1.
         bindR (bindR (httpserv_strstripltw (Some v)) deref) (\<lambda>v1.
         bindR (strlen l1) (\<lambda>ln.
         bindR (strlen v1) (\<lambda>vn.
           Inr ([], Some \<lparr>label = realloc l1 (ln + 1), cfg_value = realloc v1 (vn + 1)\<rparr>))))))))"

subsection \<open>The whole file\<close>

fun config_read :: "'t libtree \<Rightarrow> string \<Rightarrow> block \<Rightarrow> nat \<Rightarrow> 't \<Rightarrow> string \<Rightarrow> string
    \<Rightarrow> (string \<times> 't) res" where
  "config_read ops path linebuf linenum tree err [] = Inr (err, tree)"
| "config_read ops path linebuf linenum tree err (c # cs) =
     bindR (strncat linebuf [c] 1) (\<lambda>lb.
     if c = LF then
       bindR (cstr_of lb) (\<lambda>line.
       bindR (httpserv_config_process_line line linenum path) (\<lambda>(msg, cfg_res).
       bindR (case cfg_res of None \<Rightarrow> Inr tree
          | Some r \<Rightarrow> bindR (cstr_of (label r)) (\<lambda>k. bindR (cstr_of (cfg_value r)) (\<lambda>v.
              Inr (tree_add_node ops tree k v)))) (\<lambda>tree'.
       bindR (memset lb NUL (length line + 1)) (\<lambda>lb0.
       bindR (strlen lb0) (\<lambda>n.
         config_read ops path (realloc lb0 (n + 2)) (linenum + 1) tree' (err @ msg) cs)))))
     else
       bindR (strlen lb) (\<lambda>n.
         config_read ops path (realloc lb (n + 2)) linenum tree err cs))"

definition httpserv_config_load ::
  "'t libtree \<Rightarrow> (string \<Rightarrow> string + string) \<Rightarrow> string \<Rightarrow> (string \<times> 't option) res" where
  "httpserv_config_load ops fs path =
     (case fs path of
       Inl strerror \<Rightarrow> Inr (''failed to open file \"'' @ path @ ''\": '' @ strerror @ [LF], None)
     | Inr bytes \<Rightarrow>
         bindR (memset (malloc 3) NUL 3) (\<lambda>linebuf.
         bindR (config_read ops path linebuf 1 (tree_new ops) [] bytes) (\<lambda>(err, tree).
           Inr (err, Some tree))))"

subsection \<open>What a line and a file mean\<close>

text \<open>The reference: which entry a line holds, and when reading it goes wrong.\<close>

definition config_key :: "string \<Rightarrow> string" where
  "config_key line = takeWhile (\<lambda>c. c \<noteq> CHR ''='') line"

definition config_val :: "string \<Rightarrow> string" where
  "config_val line = tl (dropWhile (\<lambda>c. c \<noteq> CHR ''='') line)"

definition is_assignment :: "string \<Rightarrow> bool" where
  "is_assignment line \<longleftrightarrow> CHR ''#'' \<notin> set line \<and> CHR ''='' \<in> set line"

definition blank_side :: "string \<Rightarrow> bool" where
  "blank_side line \<longleftrightarrow> is_assignment line
     \<and> (list_all iswspace (config_key line) \<or> list_all iswspace (config_val line))"

definition line_entry :: "string \<Rightarrow> (string \<times> string) option" where
  "line_entry line = (if is_assignment line
     then Some (strip (config_key line), strip (config_val line)) else None)"

definition line_msg :: "string \<Rightarrow> nat \<times> string \<Rightarrow> string" where
  "line_msg path nl = (if CHR ''#'' \<notin> set (snd nl) \<and> CHR ''='' \<notin> set (snd nl)
     then no_assignment_msg path (fst nl) else [])"

fun complete_lines :: "string \<Rightarrow> string \<Rightarrow> string list" where
  "complete_lines cur [] = []"
| "complete_lines cur (c # cs) =
     (if c = LF then (cur @ [LF]) # complete_lines [] cs
      else complete_lines (if c = NUL then cur else cur @ [c]) cs)"

subsection \<open>The scanning loop\<close>

lemma config_scan_value:
  assumes "roomy_string v t" and "no_nul cs"
  shows "\<exists>v'. config_scan 0 l v cs = Inr (if CHR ''#'' \<in> set cs then -1 else 0, l, v')
    \<and> roomy_string v' (t @ takeWhile (\<lambda>c. c \<noteq> CHR ''#'') cs)"
  using assms
proof (induction cs arbitrary: v t)
  case (Cons c cs)
  show ?case
  proof (cases "c = CHR ''#''")
    case False
    from Cons.prems have "c \<noteq> NUL" by auto
    with Cons.prems(1) obtain v1 where "append_realloc v c = Inr v1" "roomy_string v1 (t @ [c])"
      by (rule ar.pushE)
    with Cons.IH [of v1 "t @ [c]"] Cons.prems(2) False show ?thesis by simp
  qed (use Cons.prems in auto)
qed simp

lemma config_scan_label:
  assumes "roomy_string l s" and "roomy_string v []" and "no_nul cs"
  shows "\<exists>l' v'. config_scan 1 l v cs =
      Inr (if CHR ''#'' \<in> set cs then -1 else if CHR ''='' \<in> set cs then 0 else 1, l', v')
    \<and> (is_assignment cs \<longrightarrow>
        roomy_string l' (s @ config_key cs) \<and> roomy_string v' (config_val cs))"
  using assms
proof (induction cs arbitrary: l s)
  case (Cons c cs)
  consider (comment) "c = CHR ''#''" | (assign) "c = CHR ''=''"
    | (other) "c \<noteq> CHR ''#''" "c \<noteq> CHR ''=''" by blast
  then show ?case
  proof cases
    case comment
    then show ?thesis by (simp add: is_assignment_def)
  next
    case assign
    obtain v' where v': "config_scan 0 l v cs = Inr (if CHR ''#'' \<in> set cs then -1 else 0, l, v')"
      "roomy_string v' (takeWhile (\<lambda>c. c \<noteq> CHR ''#'') cs)"
      using config_scan_value [OF Cons.prems(2), of cs l] Cons.prems(3) by auto
    have "roomy_string v' cs" if "CHR ''#'' \<notin> set cs"
    proof -
      from that have "takeWhile (\<lambda>c. c \<noteq> CHR ''#'') cs = cs"
        unfolding takeWhile_eq_all_conv by blast
      with v'(2) show ?thesis by simp
    qed
    with assign v'(1) Cons.prems(1) show ?thesis
      by (simp add: is_assignment_def config_key_def config_val_def)
  next
    case other
    from Cons.prems have "c \<noteq> NUL" by auto
    with Cons.prems(1) obtain l1 where "append_realloc l c = Inr l1" "roomy_string l1 (s @ [c])"
      by (rule ar.pushE)
    moreover obtain l' v' where
      "config_scan 1 l1 v cs =
        Inr (if CHR ''#'' \<in> set cs then -1 else if CHR ''='' \<in> set cs then 0 else 1, l', v')"
      "is_assignment cs \<longrightarrow>
        roomy_string l' ((s @ [c]) @ config_key cs) \<and> roomy_string v' (config_val cs)"
      using Cons.IH [OF calculation(2) Cons.prems(2)] Cons.prems(3) by auto
    ultimately show ?thesis
      using other by (intro exI [of _ l'] exI [of _ v'])
        (simp add: is_assignment_def config_key_def config_val_def)
  qed
qed (simp add: is_assignment_def)

lemma memset_fresh: "0 < n \<Longrightarrow> memset (malloc n) NUL n = Inr (replicate n (Some NUL))"
  by (simp add: memset_def wr_run_def)

lemma replicate_nul_roomy: "2 \<le> n \<Longrightarrow> roomy_string (replicate n (Some NUL)) []"
  by (cases n) (auto simp: roomy_string_def)

text \<open>The white-space behaviour of both sides decides what the line yields.\<close>

lemma process_line_cases:
  assumes "no_nul line"
  shows "blank_side line \<Longrightarrow>
      httpserv_config_process_line line linenum path = Inl OutOfBounds"
    and "\<not> blank_side line \<Longrightarrow> \<exists>cfg. httpserv_config_process_line line linenum path =
      Inr (line_msg path (linenum, line), cfg)
      \<and> (case line_entry line of None \<Rightarrow> cfg = None
         | Some (k, v) \<Rightarrow> \<exists>r. cfg = Some r \<and> cstr_of (label r) = Inr k \<and> cstr_of (cfg_value r) = Inr v)"
proof -
  have two: "roomy_string (replicate 2 (Some NUL)) []"
    by (rule replicate_nul_roomy) simp
  obtain l v where scan: "config_scan 1 (replicate 2 (Some NUL)) (replicate 2 (Some NUL)) line =
      Inr (if CHR ''#'' \<in> set line then -1 else if CHR ''='' \<in> set line then 0 else 1, l, v)"
    and parts: "is_assignment line \<longrightarrow>
      roomy_string l (config_key line) \<and> roomy_string v (config_val line)"
    using config_scan_label [OF two two assms] by auto
  note run = httpserv_config_process_line_def memset_fresh scan
  have sides: "cstr_of l = Inr (config_key line)" "cstr_of v = Inr (config_val line)"
    if "is_assignment line"
    using parts that by (auto simp: roomy_string_def)
  show "httpserv_config_process_line line linenum path = Inl OutOfBounds" if "blank_side line"
  proof -
    from that have a: "is_assignment line" by (simp add: blank_side_def)
    then have "CHR ''#'' \<notin> set line" "CHR ''='' \<in> set line" by (auto simp: is_assignment_def)
    with that sides [OF a] strstripltw_blank [of l "config_key line"]
      strstripltw_blank [of v "config_val line"] strstripltw_strips [of l "config_key line"]
    show ?thesis
      by (cases "list_all iswspace (config_key line)")
        (auto simp: run blank_side_def)
  qed
  show "\<exists>cfg. httpserv_config_process_line line linenum path =
      Inr (line_msg path (linenum, line), cfg)
      \<and> (case line_entry line of None \<Rightarrow> cfg = None
         | Some (k, v) \<Rightarrow> \<exists>r. cfg = Some r \<and> cstr_of (label r) = Inr k \<and> cstr_of (cfg_value r) = Inr v)"
    if "\<not> blank_side line"
  proof (cases "is_assignment line")
    case True
    then have ch: "CHR ''#'' \<notin> set line" "CHR ''='' \<in> set line" by (auto simp: is_assignment_def)
    from True that have nb: "\<not> list_all iswspace (config_key line)" "\<not> list_all iswspace (config_val line)"
      by (auto simp: blank_side_def)
    obtain l1 v1 where
      "httpserv_strstripltw (Some l) = Inr (Some l1)" "cstr_of l1 = Inr (strip (config_key line))"
      "httpserv_strstripltw (Some v) = Inr (Some v1)" "cstr_of v1 = Inr (strip (config_val line))"
      using strstripltw_strips [OF sides(1) [OF True] nb(1)]
        strstripltw_strips [OF sides(2) [OF True] nb(2)] by auto
    with True ch show ?thesis
      by (simp add: run line_msg_def line_entry_def cmem realloc_holds)
  next
    case False
    then have "CHR ''#'' \<in> set line \<or> CHR ''='' \<notin> set line" by (simp add: is_assignment_def)
    with False show ?thesis
      by (auto simp: run line_msg_def line_entry_def)
  qed
qed

subsection \<open>Reading the file\<close>

lemma roomy_no_nul: "roomy_string b s \<Longrightarrow> no_nul s"
  by (auto simp: roomy_string_def dest: cstr_of_no_nul)

lemma linebuf_append:
  assumes "roomy_string b s"
  shows "\<exists>b'. strncat b [c] 1 = Inr b' \<and> length b' = length b
    \<and> cstr_of b' = Inr (if c = NUL then s else s @ [c])"
  using assms strncat_holds [of b s 1 "[c]"]
  by (cases "c = NUL") (auto simp: roomy_string_def)

lemma linebuf_cleared:
  assumes "cstr_of b = Inr s"
  shows "\<exists>b'. memset b NUL (length s + 1) = Inr b' \<and> strlen b' = Inr 0
    \<and> roomy_string (realloc b' 2) []"
proof -
  let ?b = "replicate (Suc (length s)) (Some NUL) @ drop (Suc (length s)) b"
  from assms have "memset b NUL (length s + 1) = Inr ?b"
    by (auto simp: memset_def wr_run_def dest: cstr_of_length)
  moreover have "cstr_of ?b = Inr []" by simp
  ultimately show ?thesis
    using realloc_holds [of ?b "[]" 2] by (simp add: roomy_string_def strlen_holds)
qed

definition add_entries :: "'t libtree \<Rightarrow> (string \<times> string) list \<Rightarrow> 't \<Rightarrow> 't" where
  "add_entries ops es t = fold (\<lambda>(k, v) t. tree_add_node ops t k v) es t"

lemma config_read_line:
  assumes "roomy_string b s"
  shows "blank_side (s @ [LF]) \<Longrightarrow>
      config_read ops path b n tree err (LF # cs) = Inl OutOfBounds"
    and "\<not> blank_side (s @ [LF]) \<Longrightarrow> \<exists>b'. roomy_string b' [] \<and>
      config_read ops path b n tree err (LF # cs) =
      config_read ops path b' (Suc n)
        (add_entries ops (List.map_filter line_entry [s @ [LF]]) tree)
        (err @ line_msg path (n, s @ [LF])) cs"
proof -
  let ?line = "s @ [LF]"
  obtain b1 where b1: "strncat b [LF] 1 = Inr b1" "cstr_of b1 = Inr ?line"
    using linebuf_append [OF assms, of LF] by auto
  have nn: "no_nul ?line" using roomy_no_nul [OF assms] by simp
  obtain b2 where b2: "memset b1 NUL (length ?line + 1) = Inr b2" "strlen b2 = Inr 0"
    "roomy_string (realloc b2 2) []"
    using linebuf_cleared [OF b1(2)] by auto
  show "config_read ops path b n tree err (LF # cs) = Inl OutOfBounds" if "blank_side ?line"
    using process_line_cases(1) [OF nn that, of n path] b1 by simp
  show "\<exists>b'. roomy_string b' [] \<and>
      config_read ops path b n tree err (LF # cs) =
      config_read ops path b' (Suc n) (add_entries ops (List.map_filter line_entry [?line]) tree)
        (err @ line_msg path (n, ?line)) cs" if nb: "\<not> blank_side ?line"
  proof (intro exI conjI)
    show "roomy_string (realloc b2 2) []" by (rule b2(3))
    obtain cfg where cfg: "httpserv_config_process_line ?line n path = Inr (line_msg path (n, ?line), cfg)"
      "case line_entry ?line of None \<Rightarrow> cfg = None
         | Some (k, v) \<Rightarrow> \<exists>r. cfg = Some r \<and> cstr_of (label r) = Inr k \<and> cstr_of (cfg_value r) = Inr v"
      using process_line_cases(2) [OF nn nb, of n path] by blast
    then show "config_read ops path b n tree err (LF # cs) =
      config_read ops path (realloc b2 2) (Suc n)
        (add_entries ops (List.map_filter line_entry [?line]) tree)
        (err @ line_msg path (n, ?line)) cs"
      using b1 b2
      by (cases "line_entry ?line") (auto simp: add_entries_def map_filter_simps numeral_2_eq_2)
  qed
qed

lemma config_read_char:
  assumes "roomy_string b s" and "c \<noteq> LF"
  shows "\<exists>b'. roomy_string b' (if c = NUL then s else s @ [c]) \<and>
    config_read ops path b n tree err (c # cs) = config_read ops path b' n tree err cs"
proof -
  let ?s = "if c = NUL then s else s @ [c]"
  obtain b1 where b1: "strncat b [c] 1 = Inr b1" "cstr_of b1 = Inr ?s"
    using linebuf_append [OF assms(1)] by blast
  then have "roomy_string (realloc b1 (length ?s + 2)) ?s"
    by (simp only: roomy_string_def realloc_holds length_realloc) simp
  with b1 assms(2) strlen_holds [OF b1(2)] show ?thesis
    by (intro exI [of _ "realloc b1 (length ?s + 2)"]) simp
qed

lemma config_read_bad:
  "roomy_string b s \<Longrightarrow> \<exists>line \<in> set (complete_lines s cs). blank_side line \<Longrightarrow>
    config_read ops path b n tree err cs = Inl OutOfBounds"
proof (induction cs arbitrary: b s n tree err)
  case (Cons c cs)
  show ?case
  proof (cases "c = LF")
    case True
    show ?thesis
    proof (cases "blank_side (s @ [LF])")
      case True
      from config_read_line(1) [OF Cons.prems(1) this] \<open>c = LF\<close> show ?thesis by simp
    next
      case False
      with Cons.prems(2) \<open>c = LF\<close> have "\<exists>line \<in> set (complete_lines [] cs). blank_side line"
        by simp
      with config_read_line(2) [OF Cons.prems(1) False] \<open>c = LF\<close> show ?thesis
        using Cons.IH by metis
    qed
  next
    case False
    with Cons.prems(2) have "\<exists>line \<in> set (complete_lines (if c = NUL then s else s @ [c]) cs). blank_side line"
      by simp
    with config_read_char [OF Cons.prems(1) False] show ?thesis
      using Cons.IH by metis
  qed
qed simp

lemma config_read_good:
  "roomy_string b s \<Longrightarrow> \<forall>line \<in> set (complete_lines s cs). \<not> blank_side line \<Longrightarrow>
    config_read ops path b n tree err cs =
      Inr (err @ concat (map (line_msg path) (enumerate n (complete_lines s cs))),
        add_entries ops (List.map_filter line_entry (complete_lines s cs)) tree)"
proof (induction cs arbitrary: b s n tree err)
  case Nil
  then show ?case by (simp add: add_entries_def map_filter_simps)
next
  case (Cons c cs)
  show ?case
  proof (cases "c = LF")
    case True
    with Cons.prems(2) have nb: "\<not> blank_side (s @ [LF])" by simp
    from config_read_line(2) [OF Cons.prems(1) nb, of ops path n tree err cs] obtain b' where b': "roomy_string b' []"
      "config_read ops path b n tree err (LF # cs) =
        config_read ops path b' (Suc n)
          (add_entries ops (List.map_filter line_entry [s @ [LF]]) tree)
          (err @ line_msg path (n, s @ [LF])) cs" by blast
    with Cons.IH [OF b'(1)] Cons.prems(2) True show ?thesis
      by (cases "line_entry (s @ [LF])") (simp_all add: add_entries_def map_filter_simps)
  next
    case False
    from config_read_char [OF Cons.prems(1) False, of ops path n tree err cs] obtain b' where
      b': "roomy_string b' (if c = NUL then s else s @ [c])"
      "config_read ops path b n tree err (c # cs) = config_read ops path b' n tree err cs" by blast
    with Cons.IH [OF b'(1)] Cons.prems(2) False show ?thesis by simp
  qed
qed

text \<open>Both outcomes of reading a file.\<close>

lemma config_load_outcome:
  assumes "fs path = Inr file"
  shows "httpserv_config_load ops fs path =
    (if \<exists>line \<in> set (complete_lines [] file). blank_side line then Inl OutOfBounds
     else Inr (concat (map (line_msg path) (enumerate 1 (complete_lines [] file))),
       Some (add_entries ops (List.map_filter line_entry (complete_lines [] file)) (tree_new ops))))"
proof -
  have buf: "roomy_string (replicate 3 (Some NUL)) []" by (rule replicate_nul_roomy) simp
  show ?thesis
  proof (cases "\<exists>line \<in> set (complete_lines [] file). blank_side line")
    case True
    then show ?thesis
      by (simp add: httpserv_config_load_def memset_fresh assms config_read_bad [OF buf True])
  next
    case False
    then have good: "\<forall>line \<in> set (complete_lines [] file). \<not> blank_side line" by blast
    show ?thesis
      using config_read_good [OF buf good, of ops path 1 "tree_new ops" "[]"] False
      by (simp add: httpserv_config_load_def memset_fresh assms)
  qed
qed

lemma complete_lines_tail: "LF \<notin> set rest \<Longrightarrow> complete_lines cur (s @ rest) = complete_lines cur s"
proof (induction s arbitrary: cur)
  case Nil
  then show ?case by (induction rest arbitrary: cur) auto
qed simp

lemma complete_lines_line:
  "LF \<notin> set s \<Longrightarrow> no_nul s \<Longrightarrow> complete_lines cur (s @ LF # rest) = (cur @ s @ [LF]) # complete_lines [] rest"
  by (induction s arbitrary: cur) auto

subsection \<open>Entries as text\<close>

definition trimmed :: "string \<Rightarrow> bool" where
  "trimmed s \<longleftrightarrow> s \<noteq> [] \<and> \<not> iswspace (hd s) \<and> \<not> iswspace (last s)"

lemma strip_padded:
  assumes "trimmed s" and "list_all iswspace p" and "list_all iswspace q"
  shows "strip (p @ s @ q) = s"
proof -
  have drop: "dropWhile iswspace (p @ t) = t" if "t \<noteq> []" "\<not> iswspace (hd t)" "list_all iswspace p" for p t
    using that(3) by (induction p) (use that(1,2) in \<open>auto simp: neq_Nil_conv\<close>)
  have "dropWhile iswspace (p @ s @ q) = s @ q"
    using assms by (intro drop) (auto simp: trimmed_def)
  moreover have "dropWhile iswspace (rev q @ rev s) = rev s"
    using assms by (intro drop) (auto simp: trimmed_def hd_rev list_all_iff)
  ultimately show ?thesis by (simp add: strip_def rstrip_def)
qed

lemma trimmed_not_blank: "trimmed s \<Longrightarrow> \<not> list_all iswspace (p @ s @ q)"
  by (cases s) (auto simp: trimmed_def)

definition plain_entry :: "string \<times> string \<Rightarrow> bool" where
  "plain_entry kv \<longleftrightarrow> trimmed (fst kv) \<and> trimmed (snd kv)
     \<and> set (fst kv) \<inter> {CHR ''#'', CHR ''='', LF, NUL} = {} \<and> set (snd kv) \<inter> {CHR ''#'', LF, NUL} = {}"

definition entry_line :: "string \<times> string \<Rightarrow> string" where
  "entry_line kv = fst kv @ '' = '' @ snd kv"

lemma entry_line_parts:
  assumes "plain_entry kv"
  shows "config_key (entry_line kv @ [LF]) = fst kv @ '' ''"
    and "config_val (entry_line kv @ [LF]) = '' '' @ snd kv @ [LF]"
    and "is_assignment (entry_line kv @ [LF])"
proof -
  have tw: "takeWhile (\<lambda>c. c \<noteq> CHR ''='') (k @ SP # CHR ''='' # r) = k @ [SP]"
    "dropWhile (\<lambda>c. c \<noteq> CHR ''='') (k @ SP # CHR ''='' # r) = CHR ''='' # r"
    if "CHR ''='' \<notin> set k" for k r
    using that by (induction k) auto
  have k: "CHR ''='' \<notin> set (fst kv)" using assms by (auto simp: plain_entry_def)
  show "config_key (entry_line kv @ [LF]) = fst kv @ '' ''"
    using tw(1) [OF k] by (simp add: config_key_def entry_line_def)
  show "config_val (entry_line kv @ [LF]) = '' '' @ snd kv @ [LF]"
    using tw(2) [OF k] by (simp add: config_val_def entry_line_def)
  show "is_assignment (entry_line kv @ [LF])"
    using assms by (auto simp: is_assignment_def entry_line_def plain_entry_def)
qed

lemma entry_line_reads_back:
  assumes "plain_entry kv"
  shows "line_entry (entry_line kv @ [LF]) = Some kv" and "\<not> blank_side (entry_line kv @ [LF])"
    and "line_msg path (n, entry_line kv @ [LF]) = []"
proof -
  note parts = entry_line_parts [OF assms]
  have t: "trimmed (fst kv)" "trimmed (snd kv)" using assms by (auto simp: plain_entry_def)
  have "strip (fst kv @ [SP]) = fst kv" using strip_padded [OF t(1), of "[]" "[SP]"] by simp
  moreover have "strip (SP # snd kv @ [LF]) = snd kv"
    using strip_padded [OF t(2), of "[SP]" "[LF]"] by simp
  ultimately show "line_entry (entry_line kv @ [LF]) = Some kv"
    using parts by (simp add: line_entry_def)
  show "\<not> blank_side (entry_line kv @ [LF])"
    using parts trimmed_not_blank [OF t(1), of "[]" "[SP]"] trimmed_not_blank [OF t(2), of "[SP]" "[LF]"]
    by (simp add: blank_side_def)
  show "line_msg path (n, entry_line kv @ [LF]) = []"
    using parts(3) by (simp add: line_msg_def is_assignment_def)
qed

lemma complete_lines_entries:
  "list_all plain_entry kvs \<Longrightarrow>
    complete_lines [] (concat (map (\<lambda>kv. entry_line kv @ [LF]) kvs)) = map (\<lambda>kv. entry_line kv @ [LF]) kvs"
proof (induction kvs)
  case (Cons kv kvs)
  then have "LF \<notin> set (entry_line kv)" "no_nul (entry_line kv)"
    by (auto simp: plain_entry_def entry_line_def)
  with Cons complete_lines_line [of "entry_line kv" "[]"] show ?case by simp
qed simp

subsection \<open>Properties\<close>

text \<open>
  C21: loading a file either adds exactly the entries of its complete lines to a new tree,
  in order, each with both sides stripped, and reports exactly the lines without an
  assignment by their numbers; or some line has an assignment with a blank side, and then
  the load reads outside a block.
\<close>

theorem config_load_correct:
  assumes "fs path = Inr file"
  shows "httpserv_config_load ops fs path =
    (if \<exists>line \<in> set (complete_lines [] file). blank_side line then Inl OutOfBounds
     else Inr (concat (map (line_msg path) (enumerate 1 (complete_lines [] file))),
       Some (add_entries ops (List.map_filter line_entry (complete_lines [] file)) (tree_new ops))))"
  using config_load_outcome [where fs = fs and path = path and ops = ops, OF assms] .

text \<open>A tree as the list of its entries; the way to an entry leads over nodes without a value.\<close>

definition alist_node :: "(string \<times> string) list \<Rightarrow> string \<Rightarrow> string option option" where
  "alist_node t k = (case map_of t k of
     Some v \<Rightarrow> Some (Some v)
   | None \<Rightarrow> if list_ex (\<lambda>(k', v). take (length k + 1) k' = k @ ''.'') t then Some None else None)"

definition alist_tree :: "(string \<times> string) list libtree" where
  "alist_tree = \<lparr>tree_new = [], tree_add_node = (\<lambda>t k v. (k, v) # t), tree_get_node = alist_node\<rparr>"

theorem config_load_correct_witness:
  "httpserv_config_load alist_tree (\<lambda>_. Inr (''ssl ='' @ [LF])) ''c'' = Inl OutOfBounds
    \<and> httpserv_config_load alist_tree (\<lambda>_. Inr (''# note'' @ [LF] @ '' a = 1'' @ [LF] @ ''b=2=3 '' @ [LF])) ''c''
      = Inr ([], Some [(''b'', ''2=3''), (''a'', ''1'')])"
proof -
  let ?f = "''# note'' @ [LF] @ '' a = 1'' @ [LF] @ ''b=2=3 '' @ [LF]"
  have 1: "list_ex blank_side (complete_lines [] (''ssl ='' @ [LF]))" by code_simp
  have 2: "\<not> list_ex blank_side (complete_lines [] ?f)"
    "concat (map (line_msg ''c'') (enumerate 1 (complete_lines [] ?f))) = []"
    "add_entries alist_tree (List.map_filter line_entry (complete_lines [] ?f)) (tree_new alist_tree)
      = [(''b'', ''2=3''), (''a'', ''1'')]"
    by code_simp+
  show ?thesis
    using config_load_correct [of "\<lambda>_. Inr (''ssl ='' @ [LF])" "''c''" _ alist_tree]
      config_load_correct [of "\<lambda>_. Inr ?f" "''c''" ?f alist_tree] 1 2
    by (simp only: list_ex_iff if_True if_False refl simp_thms)
qed

text \<open>
  C22: entries written as \<open>key = value\<close> lines are read back unchanged and in order, also when
  a value contains an equals sign.
\<close>

theorem config_roundtrip:
  assumes "list_all plain_entry kvs"
    and "fs path = Inr (concat (map (\<lambda>kv. entry_line kv @ [LF]) kvs))"
  shows "httpserv_config_load ops fs path = Inr ([], Some (add_entries ops kvs (tree_new ops)))"
proof -
  let ?lines = "map (\<lambda>kv. entry_line kv @ [LF]) kvs"
  note lines = complete_lines_entries [OF assms(1)]
  have ok: "plain_entry kv" if "kv \<in> set kvs" for kv
    using assms(1) that by (auto simp: list_all_iff)
  then have "\<not> (\<exists>line \<in> set ?lines. blank_side line)"
    using entry_line_reads_back(2) by auto
  moreover have "List.map_filter line_entry ?lines = kvs"
    using ok by (induction kvs) (simp_all add: map_filter_simps entry_line_reads_back(1))
  moreover have "concat (map (line_msg path) (enumerate n ?lines)) = []" for n
    using ok by (induction kvs arbitrary: n) (simp_all add: entry_line_reads_back(3))
  ultimately show ?thesis
    using config_load_outcome [where fs = fs and path = path and ops = ops, OF assms(2)] by (simp add: lines)
qed

theorem config_roundtrip_witness:
  "httpserv_config_load alist_tree (\<lambda>_. Inr (''http.ip = ::1'' @ [LF] @ ''x = a=b'' @ [LF])) ''c''
    = Inr ([], Some [(''x'', ''a=b''), (''http.ip'', ''::1'')])"
proof -
  let ?kvs = "[(''http.ip'', ''::1''), (''x'', ''a=b'')]"
  have ok: "list_all plain_entry ?kvs" by (simp add: plain_entry_def trimmed_def iswspace_def)
  have bytes: "concat (map (\<lambda>kv. entry_line kv @ [LF]) ?kvs) = ''http.ip = ::1'' @ [LF] @ ''x = a=b'' @ [LF]"
    by (simp add: entry_line_def)
  show ?thesis
    using config_roundtrip [OF ok, of "\<lambda>_. Inr (concat (map (\<lambda>kv. entry_line kv @ [LF]) ?kvs))" "''c''" alist_tree]
    unfolding bytes by (simp add: add_entries_def alist_tree_def)
qed

text \<open>
  what follows the last line feed is ignored: a file whose last line is not terminated
  loads as if that line were not there.
\<close>

theorem config_unterminated_line_ignored:
  assumes "fs path = Inr (s @ rest)" and "fs' path = Inr s" and "LF \<notin> set rest"
  shows "httpserv_config_load ops fs path = httpserv_config_load ops fs' path"
  using config_load_outcome [where fs = fs and path = path and ops = ops, OF assms(1)]
    config_load_outcome [where fs = fs' and path = path and ops = ops, OF assms(2)]
  by (simp add: complete_lines_tail [OF assms(3)])

theorem config_unterminated_line_ignored_witness:
  "httpserv_config_load alist_tree (\<lambda>_. Inr (''http.port = 8080'')) ''c'' = Inr ([], Some [])"
proof -
  have "httpserv_config_load alist_tree (\<lambda>_. Inr []) ''c'' = Inr ([], Some [])" by code_simp
  with config_unterminated_line_ignored [of "\<lambda>_. Inr (''http.port = 8080'')" "''c''" "[]"
      "''http.port = 8080''" "\<lambda>_. Inr []" alist_tree]
  show ?thesis by simp
qed

end
