(* ===== verification/Logging.thy ===== *)
theory Logging
  imports CNum
begin

section \<open>Logging (include/logging.h, src/logging.c)\<close>

text \<open>
  The two globals of the logging module are the fields of a record; a pointer that is
  \<open>NULL\<close> or dangling is the error that using it gives. The text already written to
  stderr and to the log file is part of the state. The variable arguments of the logging
  functions are formatted by their callers, so a message is a string here. The other
  components report what they log as a list of \<open>log_event\<close>s.
\<close>

datatype log_level = LOG | WRN | ERR

type_synonym log_event = "log_level \<times> string"

subsection \<open>The time string\<close>

text \<open>The broken-down local time, as \<open>localtime\<close> gives it (with the year written out).\<close>

record tm =
  tm_year :: nat
  tm_mon :: nat
  tm_mday :: nat
  tm_hour :: nat
  tm_min :: nat
  tm_sec :: nat

definition two_digits :: "nat \<Rightarrow> string" where
  "two_digits n = [digit (n div 10 mod 10), digit (n mod 10)]"

text \<open>\<open>HTTPSERV_LOGGING_TIME_FORMAT\<close> is \<open>%Y-%m-%d %H:%M:%S\<close>.\<close>

definition format_time :: "tm \<Rightarrow> string" where
  "format_time t = dec (tm_year t) @ ''-'' @ two_digits (tm_mon t) @ ''-'' @ two_digits (tm_mday t)
     @ '' '' @ two_digits (tm_hour t) @ '':'' @ two_digits (tm_min t) @ '':'' @ two_digits (tm_sec t)"

definition HTTPSERV_LOGGING_TIME_LENGTH :: nat where
  "HTTPSERV_LOGGING_TIME_LENGTH = 20"

text \<open>
  \<open>strftime\<close> returns 0 when the text and its NUL do not fit; the buffer is then not looked at.
\<close>

definition strftime :: "block \<Rightarrow> nat \<Rightarrow> string \<Rightarrow> (nat \<times> block) res" where
  "strftime buf n s = (if length s < n
     then bindR (wr_run buf 0 (s @ [NUL])) (\<lambda>buf'. Inr (length s, buf'))
     else Inr (0, buf))"

subsection \<open>The module\<close>

record logging =
  httpserv_time_str :: "block res"
  httpserv_log_file :: "string res option"
  stderr_text :: string

definition logging_start :: logging where
  "logging_start = \<lparr>httpserv_time_str = Inl NullDeref, httpserv_log_file = None, stderr_text = []\<rparr>"

definition httpserv_logging_get_time :: "tm \<Rightarrow> logging \<Rightarrow> (string \<times> logging) res" where
  "httpserv_logging_get_time now st =
     bindR (httpserv_time_str st) (\<lambda>buf.
     bindR (strftime buf HTTPSERV_LOGGING_TIME_LENGTH (format_time now)) (\<lambda>(n, buf').
       let st' = st\<lparr>httpserv_time_str := Inr buf'\<rparr> in
       if n = 0 then Inr ([], st')
       else bindR (cstr_of buf') (\<lambda>s. Inr (s, st'))))"

text \<open>\<open>can_open\<close> says whether \<open>fopen (logfile, "a")\<close> succeeds.\<close>

definition httpserv_logging_init :: "(string \<Rightarrow> bool) \<Rightarrow> string option \<Rightarrow> logging \<Rightarrow> logging" where
  "httpserv_logging_init can_open logfile st = st\<lparr>
     httpserv_time_str := Inr (malloc HTTPSERV_LOGGING_TIME_LENGTH),
     httpserv_log_file := (case logfile of None \<Rightarrow> None
       | Some f \<Rightarrow> if can_open f then Some (Inr []) else None)\<rparr>"

definition httpserv_logging_destroy :: "logging \<Rightarrow> logging res" where
  "httpserv_logging_destroy st =
     bindR (case httpserv_time_str st of
         Inl NullDeref \<Rightarrow> Inr (Inl NullDeref)
       | Inl e \<Rightarrow> Inl DoubleFree
       | Inr _ \<Rightarrow> Inr (Inl UseAfterFree)) (\<lambda>time'.
     case httpserv_log_file st of
       None \<Rightarrow> Inr (st\<lparr>httpserv_time_str := time'\<rparr>)
     | Some f \<Rightarrow> bindR f (\<lambda>_.
         Inr (st\<lparr>httpserv_time_str := time', httpserv_log_file := Some (Inl UseAfterFree)\<rparr>)))"

text \<open>What the three functions share: the line goes to stderr and, if there is one, to the file.\<close>

definition log_out :: "string \<Rightarrow> logging \<Rightarrow> logging res" where
  "log_out line st =
     (let st' = st\<lparr>stderr_text := stderr_text st @ line\<rparr> in
      case httpserv_log_file st of
        None \<Rightarrow> Inr st'
      | Some f \<Rightarrow> bindR f (\<lambda>t. Inr (st'\<lparr>httpserv_log_file := Some (Inr (t @ line))\<rparr>)))"

definition httpserv_logging_log :: "tm \<Rightarrow> string \<Rightarrow> logging \<Rightarrow> logging res" where
  "httpserv_logging_log now msg st =
     bindR (httpserv_logging_get_time now st) (\<lambda>(time, st').
       log_out (''['' @ time @ ''] '' @ msg @ [LF]) st')"

definition httpserv_logging_wrn :: "tm \<Rightarrow> string \<Rightarrow> logging \<Rightarrow> logging res" where
  "httpserv_logging_wrn now msg st =
     bindR (httpserv_logging_get_time now st) (\<lambda>(time, st').
       log_out (''['' @ time @ ''] Warning: '' @ msg @ [LF]) st')"

definition httpserv_logging_err :: "tm \<Rightarrow> string \<Rightarrow> logging \<Rightarrow> logging res" where
  "httpserv_logging_err now msg st =
     bindR (httpserv_logging_get_time now st) (\<lambda>(time, st').
       log_out (''['' @ time @ ''] Error: '' @ msg @ [LF]) st')"

definition log_event_out :: "tm \<Rightarrow> log_event \<Rightarrow> logging \<Rightarrow> logging res" where
  "log_event_out now e st = (case e of
     (LOG, msg) \<Rightarrow> httpserv_logging_log now msg st
   | (WRN, msg) \<Rightarrow> httpserv_logging_wrn now msg st
   | (ERR, msg) \<Rightarrow> httpserv_logging_err now msg st)"

fun log_events_out :: "(tm \<times> log_event) list \<Rightarrow> logging \<Rightarrow> logging res" where
  "log_events_out [] st = Inr st"
| "log_events_out ((now, e) # es) st = bindR (log_event_out now e st) (log_events_out es)"

subsection \<open>What is logged\<close>

definition time_shown :: "tm \<Rightarrow> string" where
  "time_shown t = (if tm_year t < 10000 then format_time t else [])"

fun level_prefix :: "log_level \<Rightarrow> string" where
  "level_prefix LOG = []"
| "level_prefix WRN = ''Warning: ''"
| "level_prefix ERR = ''Error: ''"

definition event_line :: "tm \<times> log_event \<Rightarrow> string" where
  "event_line x = ''['' @ time_shown (fst x) @ ''] '' @ level_prefix (fst (snd x)) @ snd (snd x) @ [LF]"

text \<open>The module is ready: its buffer has its size, and its file, if any, is open.\<close>

definition logging_ready :: "logging \<Rightarrow> bool" where
  "logging_ready st \<longleftrightarrow> (\<exists>b. httpserv_time_str st = Inr b \<and> length b = HTTPSERV_LOGGING_TIME_LENGTH)
     \<and> (\<forall>f. httpserv_log_file st = Some f \<longrightarrow> (\<exists>t. f = Inr t))"

lemma length_format_time: "length (format_time t) < 20 \<longleftrightarrow> tm_year t < 10000"
proof (cases "tm_year t < 10000")
  case True
  then show ?thesis
    using length_dec_le [of "tm_year t" 4] by (simp add: format_time_def two_digits_def)
next
  case False
  then show ?thesis
    using length_dec_ge [of 4 "tm_year t"] by (simp add: format_time_def two_digits_def)
qed

lemma format_time_no_nul: "no_nul (format_time t)"
proof -
  have "digit (n mod 10) \<noteq> NUL" for n
    using dec_no_nul [of "n mod 10"] by (simp add: dec.simps)
  then have "NUL \<noteq> digit (n mod 10)" for n by metis
  then show ?thesis by (auto simp: format_time_def two_digits_def)
qed

lemma init_ready: "logging_ready (httpserv_logging_init can_open logfile st)"
  by (auto simp: logging_ready_def httpserv_logging_init_def split: option.splits)

lemma get_time_ready:
  assumes "logging_ready st"
  shows "\<exists>b. length b = HTTPSERV_LOGGING_TIME_LENGTH \<and>
    httpserv_logging_get_time now st = Inr (time_shown now, st\<lparr>httpserv_time_str := Inr b\<rparr>)"
proof -
  obtain b where b: "httpserv_time_str st = Inr b" "length b = 20"
    using assms by (auto simp: logging_ready_def HTTPSERV_LOGGING_TIME_LENGTH_def)
  let ?s = "format_time now"
  show ?thesis
  proof (cases "tm_year now < 10000")
    case True
    then have len: "length ?s < 20" by (simp add: length_format_time)
    define b' where "b' = map Some ?s @ Some NUL # drop (length ?s + 1) b"
    have "strftime b 20 ?s = Inr (length ?s, b')" "length b' = 20"
      using len b(2) by (simp_all add: strftime_def wr_run_def b'_def)
    moreover have "cstr_of b' = Inr ?s"
      unfolding b'_def using format_time_no_nul by (rule cstr_of_mem)
    moreover have "length ?s \<noteq> 0" by (simp add: format_time_def)
    ultimately show ?thesis
      using True b by (intro exI [of _ b']) (simp add: httpserv_logging_get_time_def
          HTTPSERV_LOGGING_TIME_LENGTH_def time_shown_def Let_def)
  next
    case False
    then have "\<not> length ?s < 20" by (simp add: length_format_time)
    then have "strftime b 20 ?s = Inr (0, b)" by (simp add: strftime_def)
    with False b show ?thesis
      by (intro exI [of _ b]) (simp add: httpserv_logging_get_time_def
          HTTPSERV_LOGGING_TIME_LENGTH_def time_shown_def)
  qed
qed

text \<open>The state after some lines have been written.\<close>

definition logged :: "string \<Rightarrow> logging \<Rightarrow> logging \<Rightarrow> bool" where
  "logged t st st' \<longleftrightarrow> logging_ready st' \<and> stderr_text st' = stderr_text st @ t
     \<and> httpserv_log_file st' = map_option (map_sum id (\<lambda>u. u @ t)) (httpserv_log_file st)"

lemma ready_file: "logging_ready st \<Longrightarrow> httpserv_log_file st = None \<or> (\<exists>t. httpserv_log_file st = Some (Inr t))"
  by (cases "httpserv_log_file st") (auto simp: logging_ready_def)

lemma logged_trans: "logged t st st1 \<Longrightarrow> logged u st1 st2 \<Longrightarrow> logged (t @ u) st st2"
  by (cases "httpserv_log_file st")
    (auto simp: logged_def map_sum.compositionality o_def id_def)

lemma log_event_line:
  assumes "logging_ready st"
  shows "\<exists>st'. log_event_out now e st = Inr st' \<and> logged (event_line (now, e)) st st'"
proof -
  obtain lv msg where e: "e = (lv, msg)" by (cases e)
  obtain b where b: "length b = HTTPSERV_LOGGING_TIME_LENGTH"
    "httpserv_logging_get_time now st = Inr (time_shown now, st\<lparr>httpserv_time_str := Inr b\<rparr>)"
    using get_time_ready [OF assms] by blast
  note f = ready_file [OF assms]
  have "log_event_out now e st = log_out (event_line (now, e)) (st\<lparr>httpserv_time_str := Inr b\<rparr>)"
    by (cases lv) (simp_all add: e log_event_out_def httpserv_logging_log_def httpserv_logging_wrn_def
        httpserv_logging_err_def b(2) event_line_def)
  with f b(1) show ?thesis
    by (auto simp: log_out_def Let_def logged_def logging_ready_def)
qed

lemma log_events_lines:
  "logging_ready st \<Longrightarrow> \<exists>st'. log_events_out es st = Inr st' \<and> logged (concat (map event_line es)) st st'"
proof (induction es arbitrary: st)
  case Nil
  then show ?case
    by (cases "httpserv_log_file st") (auto simp: logged_def logging_ready_def map_sum.id)
next
  case (Cons ne es)
  obtain st1 where st1: "log_event_out (fst ne) (snd ne) st = Inr st1" "logged (event_line ne) st st1"
    using log_event_line [OF Cons.prems, of "fst ne" "snd ne"] by auto
  from st1(2) have "logging_ready st1" by (simp add: logged_def)
  from Cons.IH [OF this] obtain st2 where
    st2: "log_events_out es st1 = Inr st2" "logged (concat (map event_line es)) st1 st2" by blast
  have "log_events_out (ne # es) st = Inr st2" using st1(1) st2(1) by (cases ne) simp
  moreover have "logged (concat (map event_line (ne # es))) st st2"
    using logged_trans [OF st1(2) st2(2)] by simp
  ultimately show ?case by blast
qed

subsection \<open>Properties\<close>

text \<open>
  C39: once the module is initialised, a sequence of messages writes exactly one line per
  message, in order, to stderr and to the open log file; the line shows the local time up to
  the year 9999, and empty brackets from then on, because the text no longer fits the
  twenty bytes of the buffer.
\<close>

theorem logging_writes_lines:
  assumes "logging_ready st"
  shows "\<exists>st'. log_events_out es st = Inr st' \<and> logging_ready st'
    \<and> stderr_text st' = stderr_text st @ concat (map event_line es)
    \<and> httpserv_log_file st' = map_option (map_sum id (\<lambda>u. u @ concat (map event_line es))) (httpserv_log_file st)"
  using log_events_lines [OF assms, of es] by (simp add: logged_def)

definition some_time :: tm where
  "some_time = \<lparr>tm_year = 2022, tm_mon = 1, tm_mday = 31, tm_hour = 7, tm_min = 5, tm_sec = 59\<rparr>"

theorem logging_writes_lines_witness:
  "\<exists>st'. log_events_out [(some_time, WRN, ''low''), (some_time\<lparr>tm_year := 10000\<rparr>, LOG, ''hi'')]
      (httpserv_logging_init (\<lambda>_. True) (Some ''l'') logging_start) = Inr st'
    \<and> httpserv_log_file st' = Some (Inr (''[2022-01-31 07:05:59] Warning: low'' @ [LF] @ ''[] hi'' @ [LF]))"
proof -
  let ?es = "[(some_time, WRN, ''low''), (some_time\<lparr>tm_year := 10000\<rparr>, LOG, ''hi'')]"
  let ?st = "httpserv_logging_init (\<lambda>_. True) (Some ''l'') logging_start"
  have "concat (map event_line ?es) = ''[2022-01-31 07:05:59] Warning: low'' @ [LF] @ ''[] hi'' @ [LF]"
    by code_simp
  moreover have "httpserv_log_file ?st = Some (Inr [])" by code_simp
  ultimately show ?thesis
    using logging_writes_lines [OF init_ready, of ?es "\<lambda>_. True" "Some ''l''" logging_start] by force
qed

text \<open>
  logging before the module is initialised dereferences \<open>NULL\<close>; after it is destroyed
  every message uses a freed buffer, and destroying it again frees it twice.
\<close>

theorem logging_outside_lifetime:
  assumes "logging_ready st"
  shows "log_event_out now e logging_start = Inl NullDeref
    \<and> (\<exists>st'. httpserv_logging_destroy st = Inr st'
        \<and> log_event_out now e st' = Inl UseAfterFree \<and> httpserv_logging_destroy st' = Inl DoubleFree)"
proof -
  have dead: "log_event_out now e s = Inl x" if "httpserv_time_str s = Inl x" for s x
    using that by (cases e; cases "fst e") (auto simp: log_event_out_def httpserv_logging_log_def
        httpserv_logging_wrn_def httpserv_logging_err_def httpserv_logging_get_time_def)
  obtain b where "httpserv_time_str st = Inr b" using assms by (auto simp: logging_ready_def)
  moreover note ready_file [OF assms]
  ultimately obtain st' where "httpserv_logging_destroy st = Inr st'" "httpserv_time_str st' = Inl UseAfterFree"
    by (auto simp: httpserv_logging_destroy_def)
  then show ?thesis
    using dead [of logging_start] dead [of st']
    by (auto simp: logging_start_def httpserv_logging_destroy_def)
qed

theorem logging_outside_lifetime_witness:
  "\<exists>st'. httpserv_logging_destroy (httpserv_logging_init (\<lambda>_. True) None logging_start) = Inr st'
    \<and> log_event_out some_time (LOG, ''bye'') st' = Inl UseAfterFree"
  using logging_outside_lifetime [OF init_ready] by blast

end
