(* ===== verification/CHeap.thy ===== *)
theory CHeap
  imports CPrelude
begin

section \<open>Objects behind pointers, mutexes, and calls that may not return\<close>

text \<open>
  The router, the resource loader and the job queue keep their entries in linked lists of
  heap objects. A pointer is an address or \<open>NULL\<close>; a store maps addresses to objects.
  Addresses are handed out once and never again, so that a use of a freed object is always
  seen as one. A call that waits for ever, or loops for ever, has no result:
  \<open>'a run = 'a res option\<close>, with \<open>None\<close> for the call that does not return.
\<close>

type_synonym ref = "nat option"

type_synonym 'a run = "'a res option"

named_theorems heap_simps \<open>equations of the store operations\<close>

subsection \<open>Runs\<close>

definition bindX :: "'a run \<Rightarrow> ('a \<Rightarrow> 'b run) \<Rightarrow> 'b run" where
  "bindX m f = (case m of None \<Rightarrow> None | Some (Inl e) \<Rightarrow> Some (Inl e) | Some (Inr x) \<Rightarrow> f x)"

definition ret :: "'a \<Rightarrow> 'a run" where
  "ret x = Some (Inr x)"

abbreviation (input) lift_res :: "'a res \<Rightarrow> 'a run" where
  "lift_res m \<equiv> Some m"

lemma bindX_simps [simp]:
  "bindX None f = None"
  "bindX (Some (Inl e)) f = Some (Inl e)"
  "bindX (Some (Inr x)) f = f x"
  by (simp_all add: bindX_def)

lemma bindX_cong [fundef_cong]:
  "m = m' \<Longrightarrow> (\<And>x. m' = Some (Inr x) \<Longrightarrow> f x = g x) \<Longrightarrow> bindX m f = bindX m' g"
  by (auto simp: bindX_def split: option.splits sum.splits)

lemma bindX_ret_iff: "bindX m f = Some (Inr y) \<longleftrightarrow> (\<exists>x. m = Some (Inr x) \<and> f x = Some (Inr y))"
  by (auto simp: bindX_def split: option.splits sum.splits)

lemma bindX_as_bind: "bindX m g = Option.bind m (case_sum (\<lambda>e. Some (Inl e)) g)"
  by (cases m) (auto split: sum.splits)

lemma bindX_mono [partial_function_mono]:
  assumes "mono_option B" and "\<And>y. mono_option (\<lambda>f. C y f)"
  shows "mono_option (\<lambda>f. bindX (B f) (\<lambda>y. C y f))"
  unfolding bindX_as_bind
proof (rule bind_mono [OF assms(1)])
  show "mono_option (\<lambda>f. case s of Inl e \<Rightarrow> Some (Inl e) | Inr y \<Rightarrow> C y f)" for s
    using assms(2) by (cases s) (simp_all add: option.const_mono)
qed

subsection \<open>Mutexes\<close>

text \<open>
  A call takes a mutex, works, and releases it. A mutex that an earlier call left taken is
  never released, so taking it does not return.
\<close>

definition lock :: "bool \<Rightarrow> bool run" where
  "lock taken = (if taken then None else ret True)"

definition unlock :: "bool \<Rightarrow> bool" where
  "unlock taken = False"

lemma lock_simps [simp]: "lock False = Some (Inr True)" "lock True = None"
  by (simp_all add: lock_def ret_def)

lemma unlock_simp [simp]: "unlock b = False"
  by (simp add: unlock_def)

subsection \<open>Stores\<close>

record 'n store =
  cells :: "nat \<Rightarrow> 'n option"
  fresh :: nat

definition empty_store :: "'n store" where
  "empty_store = \<lparr>cells = (\<lambda>_. None), fresh = 0\<rparr>"

definition alloc :: "'n store \<Rightarrow> 'n \<Rightarrow> nat \<times> 'n store" where
  "alloc h n = (fresh h, h\<lparr>cells := (cells h)(fresh h := Some n), fresh := fresh h + 1\<rparr>)"

definition load :: "'n store \<Rightarrow> ref \<Rightarrow> 'n res" where
  "load h r = (case r of None \<Rightarrow> Inl NullDeref
     | Some a \<Rightarrow> (case cells h a of None \<Rightarrow> Inl UseAfterFree | Some n \<Rightarrow> Inr n))"

definition assign :: "'n store \<Rightarrow> ref \<Rightarrow> 'n \<Rightarrow> 'n store res" where
  "assign h r n = bindR (load h r) (\<lambda>_. Inr (h\<lparr>cells := (cells h)(the r := Some n)\<rparr>))"

text \<open>\<open>free (NULL)\<close> does nothing.\<close>

definition release :: "'n store \<Rightarrow> ref \<Rightarrow> 'n store res" where
  "release h r = (case r of None \<Rightarrow> Inr h
     | Some a \<Rightarrow> (case cells h a of None \<Rightarrow> Inl DoubleFree
         | Some n \<Rightarrow> Inr (h\<lparr>cells := (cells h)(a := None)\<rparr>)))"

definition wf_store :: "'n store \<Rightarrow> bool" where
  "wf_store h \<longleftrightarrow> (\<forall>a. cells h a \<noteq> None \<longrightarrow> a < fresh h)"

lemma load_None [heap_simps]: "load h None = Inl NullDeref"
  by (simp add: load_def)

lemma load_Some [heap_simps]: "cells h a = Some n \<Longrightarrow> load h (Some a) = Inr n"
  by (simp add: load_def)

lemma load_freed [heap_simps]: "cells h a = None \<Longrightarrow> load h (Some a) = Inl UseAfterFree"
  by (simp add: load_def)

lemma assign_Some [heap_simps]:
  "cells h a = Some m \<Longrightarrow> assign h (Some a) n = Inr (h\<lparr>cells := (cells h)(a := Some n)\<rparr>)"
  by (simp add: assign_def load_def)

lemma release_None [heap_simps]: "release h None = Inr h"
  by (simp add: release_def)

lemma release_Some [heap_simps]:
  "cells h a = Some n \<Longrightarrow> release h (Some a) = Inr (h\<lparr>cells := (cells h)(a := None)\<rparr>)"
  by (simp add: release_def)

lemma wf_store_empty [simp]: "wf_store empty_store"
  by (simp add: wf_store_def empty_store_def)

lemma wf_store_alloc: "wf_store h \<Longrightarrow> alloc h n = (a, h') \<Longrightarrow>
    wf_store h' \<and> cells h a = None \<and> cells h' = (cells h)(a \<mapsto> n)"
  by (auto simp: wf_store_def alloc_def less_Suc_eq)

lemma wf_store_update: "wf_store h \<Longrightarrow> cells h a \<noteq> None \<Longrightarrow> wf_store (h\<lparr>cells := (cells h)(a := v)\<rparr>)"
  by (auto simp: wf_store_def)

subsection \<open>Linked lists\<close>

text \<open>
  \<open>linked nxt c r as\<close>: following the \<open>next\<close> fields from \<open>r\<close> through the cells \<open>c\<close>
  visits exactly the addresses \<open>as\<close>, in order, and ends at \<open>NULL\<close>.
\<close>

fun linked :: "('n \<Rightarrow> ref) \<Rightarrow> (nat \<Rightarrow> 'n option) \<Rightarrow> ref \<Rightarrow> nat list \<Rightarrow> bool" where
  "linked nxt c r [] \<longleftrightarrow> r = None"
| "linked nxt c r (a # as) \<longleftrightarrow> r = Some a \<and> (\<exists>n. c a = Some n \<and> linked nxt c (nxt n) as)"

lemma linked_det: "linked nxt c r as \<Longrightarrow> linked nxt c r bs \<Longrightarrow> as = bs"
proof (induction as arbitrary: r bs)
  case Nil
  then show ?case by (cases bs) auto
next
  case (Cons a as)
  then show ?case by (cases bs) auto
qed

lemma linked_cong: "(\<And>a. a \<in> set as \<Longrightarrow> c a = d a) \<Longrightarrow> linked nxt c r as \<longleftrightarrow> linked nxt d r as"
  by (induction as arbitrary: r) auto

lemma linked_frame: "a \<notin> set as \<Longrightarrow> linked nxt (c(a := v)) r as \<longleftrightarrow> linked nxt c r as"
  by (rule linked_cong) auto

lemma linked_suffix: "linked nxt c r (as @ bs) \<Longrightarrow> \<exists>q. linked nxt c q bs"
  by (induction as arbitrary: r) auto

lemma linked_live: "linked nxt c r as \<Longrightarrow> a \<in> set as \<Longrightarrow> c a \<noteq> None"
  by (induction as arbitrary: r) auto

lemma linked_distinct: "linked nxt c r as \<Longrightarrow> distinct as"
proof (induction as arbitrary: r)
  case (Cons a as)
  then obtain n where n: "r = Some a" "c a = Some n" "linked nxt c (nxt n) as" by auto
  have "a \<notin> set as"
  proof
    assume "a \<in> set as"
    then obtain bs cs where as: "as = bs @ a # cs" using split_list by metis
    with n(3) obtain q where "linked nxt c q (a # cs)" using linked_suffix by metis
    then have "linked nxt c r (a # cs)" using n(1) by simp
    with Cons.prems have "a # cs = a # as" by (blast dest: linked_det)
    with as show False by simp
  qed
  with Cons.IH [OF n(3)] show ?case by simp
qed simp

text \<open>The values along a list.\<close>

definition values_of :: "(nat \<Rightarrow> 'n option) \<Rightarrow> nat list \<Rightarrow> 'n list" where
  "values_of c as = map (\<lambda>a. the (c a)) as"

lemma values_of_simps [simp]:
  "values_of c [] = []"
  "values_of c (a # as) = the (c a) # values_of c as"
  "values_of c (as @ bs) = values_of c as @ values_of c bs"
  by (simp_all add: values_of_def)

lemma values_of_frame: "a \<notin> set as \<Longrightarrow> values_of (c(a := v)) as = values_of c as"
  by (auto simp: values_of_def)

subsection \<open>The search loop\<close>

text \<open>
  \<open>while (cur) { if (p (cur)) break; cur = cur->next; }\<close>. On a cyclic list without a match
  it runs for ever.
\<close>

partial_function (option) find_from ::
  "('n \<Rightarrow> ref) \<Rightarrow> ('n \<Rightarrow> bool) \<Rightarrow> 'n store \<Rightarrow> ref \<Rightarrow> ref run" where
  "find_from nxt p h r = (case r of None \<Rightarrow> ret None
     | Some a \<Rightarrow> bindX (lift_res (load h r)) (\<lambda>n. if p n then ret r else find_from nxt p h (nxt n)))"

lemma find_from_linked:
  "linked nxt (cells h) r as \<Longrightarrow>
    find_from nxt p h r = ret (find (\<lambda>a. p (the (cells h a))) as)"
proof (induction as arbitrary: r)
  case Nil
  then show ?case by (simp add: find_from.simps)
next
  case (Cons a as)
  then show ?case by (auto simp: find_from.simps [of nxt p h "Some a"] load_def ret_def)
qed

subsection \<open>Releasing a whole list\<close>

text \<open>\<open>while (cur) { next = cur->next; free (cur); cur = next; }\<close>\<close>

partial_function (option) release_from :: "('n \<Rightarrow> ref) \<Rightarrow> 'n store \<Rightarrow> ref \<Rightarrow> 'n store run" where
  "release_from nxt h r = (case r of None \<Rightarrow> ret h
     | Some a \<Rightarrow> bindX (lift_res (load h r)) (\<lambda>n.
         bindX (lift_res (release h r)) (\<lambda>h'. release_from nxt h' (nxt n))))"

lemma release_from_linked:
  "linked nxt (cells h) r as \<Longrightarrow>
    release_from nxt h r = ret (h\<lparr>cells := (\<lambda>a. if a \<in> set as then None else cells h a)\<rparr>)"
proof (induction as arbitrary: h r)
  case Nil
  then show ?case by (simp add: release_from.simps)
next
  case (Cons a as)
  then obtain n where n: "r = Some a" "cells h a = Some n" "linked nxt (cells h) (nxt n) as" by auto
  let ?h = "h\<lparr>cells := (cells h)(a := None)\<rparr>"
  have "a \<notin> set as" using linked_distinct [OF Cons.prems] by simp
  with n(3) have "linked nxt (cells ?h) (nxt n) as" by (simp add: linked_frame)
  note rest = Cons.IH [OF this]
  have "release_from nxt h r = release_from nxt ?h (nxt n)"
    by (simp add: n release_from.simps [of nxt h "Some a"] heap_simps)
  also have "(\<lambda>b. if b \<in> set as then None else cells ?h b) = (\<lambda>b. if b \<in> set (a # as) then None else cells h b)"
    by auto
  with rest have "release_from nxt ?h (nxt n) =
      ret (h\<lparr>cells := (\<lambda>b. if b \<in> set (a # as) then None else cells h b)\<rparr>)" by simp
  finally show ?case .
qed

end
