(* ===== verification/Router.thy ===== *)
theory Router
  imports CHeap StrBuild Stringh Logging
begin

section \<open>The router (include/router.h, src/router.c)\<close>

text \<open>
  A router is a linked list of routes under a mutex. Routes and routers are heap objects,
  each kind in a store of its own; an operation returns the new state and what it logs.
  \<open>regcomp\<close> and \<open>regexec\<close> are parameters: \<open>regcomp pat\<close> is the compiled pattern, if the
  pattern compiles, and \<open>regexec p s\<close> says whether \<open>p\<close> matches somewhere in \<open>s\<close>. A call
  that logs uses the logging module, whose lines are given as events.
\<close>

datatype httpserv_route_kind_t =
    HTTPSERV_ROUTE_KIND_ROUTE
  | HTTPSERV_ROUTE_KIND_ALIAS
  | HTTPSERV_ROUTE_KIND_REDIRECT

record 'p httpserv_route_t =
  pattern :: 'p
  routepattern :: string
  kind :: httpserv_route_kind_t
  route_next :: ref

record httpserv_router_t =
  route_head :: ref
  route_mutex :: bool

record 'p router_state =
  routes :: "'p httpserv_route_t store"
  routers :: "httpserv_router_t store"

subsection \<open>Routers\<close>

text \<open>\<open>mutex_ok\<close> says whether \<open>pthread_mutex_init\<close> succeeds.\<close>

definition httpserv_router_new :: "bool \<Rightarrow> 'p router_state \<Rightarrow> ref \<times> 'p router_state" where
  "httpserv_router_new mutex_ok st =
     (if mutex_ok then
        (let (a, rs) = alloc (routers st) \<lparr>route_head = None, route_mutex = False\<rparr>
         in (Some a, st\<lparr>routers := rs\<rparr>))
      else (None, st))"

definition httpserv_router_add_route :: "ref \<Rightarrow> ref \<Rightarrow> 'p router_state \<Rightarrow> 'p router_state run" where
  "httpserv_router_add_route router route st =
     (if router = None then ret st
      else
        bindX (lift_res (load (routers st) router)) (\<lambda>r.
        bindX (lock (route_mutex r)) (\<lambda>held.
        bindX (lift_res (load (routes st) route)) (\<lambda>n.
        bindX (lift_res (assign (routes st) route (n\<lparr>route_next := route_head r\<rparr>))) (\<lambda>ns.
        bindX (lift_res (assign (routers st) router
            (r\<lparr>route_head := route, route_mutex := unlock held\<rparr>))) (\<lambda>rs.
          ret (st\<lparr>routes := ns, routers := rs\<rparr>)))))))"

text \<open>What \<open>lookup\<close> logs about the route it found.\<close>

definition lookup_event :: "'p httpserv_route_t \<Rightarrow> string \<Rightarrow> log_event" where
  "lookup_event n query = (case kind n of
     HTTPSERV_ROUTE_KIND_ALIAS \<Rightarrow> (LOG, ''alias: '' @ query @ '' => '' @ routepattern n)
   | HTTPSERV_ROUTE_KIND_REDIRECT \<Rightarrow> (LOG, ''redirecting (301): '' @ query @ '' => '' @ routepattern n)
   | HTTPSERV_ROUTE_KIND_ROUTE \<Rightarrow> (LOG, ''routing (302): '' @ query @ '' => '' @ routepattern n))"

definition httpserv_router_lookup :: "('p \<Rightarrow> string \<Rightarrow> bool) \<Rightarrow> ref \<Rightarrow> string option
    \<Rightarrow> 'p router_state \<Rightarrow> (ref \<times> log_event list) run" where
  "httpserv_router_lookup regexec router query st =
     (case query of
       None \<Rightarrow> ret (None, [])
     | Some q \<Rightarrow>
         if router = None then ret (None, [])
         else
           bindX (lift_res (load (routers st) router)) (\<lambda>r.
           bindX (lock (route_mutex r)) (\<lambda>held.
           bindX (find_from route_next (\<lambda>n. regexec (pattern n) q) (routes st) (route_head r)) (\<lambda>cur.
           case cur of
             None \<Rightarrow> ret (None, [])
           | Some a \<Rightarrow>
               bindX (lift_res (load (routes st) cur)) (\<lambda>n.
               if httpserv_streq (routepattern n) q = 0 then ret (None, [])
               else ret (cur, [lookup_event n q]))))))"

subsection \<open>Routes\<close>

definition httpserv_route_new :: "(string \<Rightarrow> 'p option) \<Rightarrow> string \<Rightarrow> string \<Rightarrow> httpserv_route_kind_t
    \<Rightarrow> 'p router_state \<Rightarrow> ref \<times> log_event list \<times> 'p router_state" where
  "httpserv_route_new regcomp pat target knd st =
     (case regcomp pat of
       None \<Rightarrow> (None, [(ERR, ''failed to compile regex'')], st)
     | Some p \<Rightarrow>
         (let (a, ns) = alloc (routes st)
            \<lparr>pattern = p, routepattern = target, kind = knd, route_next = None\<rparr>
          in (Some a, [], st\<lparr>routes := ns\<rparr>)))"

definition httpserv_route_destroy :: "ref \<Rightarrow> 'p router_state \<Rightarrow> 'p router_state res" where
  "httpserv_route_destroy route st =
     bindR (load (routes st) route) (\<lambda>_.
     bindR (release (routes st) route) (\<lambda>ns. Inr (st\<lparr>routes := ns\<rparr>)))"

text \<open>The loop of \<open>httpserv_router_destroy\<close> is the shared release loop.\<close>

definition httpserv_router_destroy :: "ref \<Rightarrow> 'p router_state \<Rightarrow> 'p router_state run" where
  "httpserv_router_destroy router st =
     bindX (lift_res (load (routers st) router)) (\<lambda>r.
     bindX (release_from route_next (routes st) (route_head r)) (\<lambda>ns.
     bindX (lift_res (release (routers st) router)) (\<lambda>rs.
       ret (st\<lparr>routes := ns, routers := rs\<rparr>))))"

subsection \<open>One line of the route file\<close>

definition no_expression_msg :: string where
  "no_expression_msg = ''error parsing routes: found '' @ [CHR 0x27] @ ''|'' @ [CHR 0x27]
     @ '' but no valid expression afterwards'' @ [LF]"

text \<open>
  The kind chosen at a bar. \<open>rest\<close> is the line from the bar on; the comparisons are over
  zero characters, as in the code.
\<close>

definition kind_after_bar :: "string \<Rightarrow> httpserv_route_kind_t \<Rightarrow> httpserv_route_kind_t \<times> string" where
  "kind_after_bar rest knd =
     (if strncmp rest ''route'' 0 = 0 then (HTTPSERV_ROUTE_KIND_ROUTE, [])
      else if strncmp rest ''alias'' 0 = 0 then (HTTPSERV_ROUTE_KIND_ALIAS, [])
      else if strncmp rest ''redirect'' 0 = 0 then (HTTPSERV_ROUTE_KIND_REDIRECT, [])
      else (knd, no_expression_msg))"

text \<open>The scanning loop, over the rest of the line; the last component goes to stderr.\<close>

function scan_route :: "bool \<Rightarrow> block \<Rightarrow> block \<Rightarrow> httpserv_route_kind_t \<Rightarrow> string
    \<Rightarrow> (block \<times> block \<times> httpserv_route_kind_t \<times> string) res" where
  "scan_route pattern_read pat target knd [] = Inr (pat, target, knd, [])"
| "scan_route pattern_read pat target knd (c # cs) =
     (if pattern_read then
        if c = CHR ''|'' then
          (let (knd', err) = kind_after_bar (c # cs) knd in Inr (pat, target, knd', err))
        else bindR (realloc_append target c) (\<lambda>target'. scan_route pattern_read pat target' knd cs)
      else if strncmp (c # cs) ''=>'' 2 = 0 then scan_route True pat target knd (tl cs)
      else bindR (realloc_append pat c) (\<lambda>pat'. scan_route pattern_read pat' target knd cs))"
  by pat_completeness auto
termination by (relation "measure (\<lambda>(_, _, _, _, s). length s)") auto

definition httpserv_parse_line :: "(string \<Rightarrow> 'p option) \<Rightarrow> string \<Rightarrow> 'p router_state
    \<Rightarrow> (ref \<times> log_event list \<times> string \<times> 'p router_state) res" where
  "httpserv_parse_line regcomp line st =
     bindR (strcpy (malloc 1) []) (\<lambda>pat0.
     bindR (strcpy (malloc 1) []) (\<lambda>target0.
     bindR (scan_route False pat0 target0 HTTPSERV_ROUTE_KIND_ALIAS line) (\<lambda>(pat, target, knd, err).
     bindR (cstr_of pat) (\<lambda>p.
     bindR (cstr_of target) (\<lambda>t.
       let (route, events, st') = httpserv_route_new regcomp p t knd st
       in Inr (route, events, err, st'))))))"

subsection \<open>The route file\<close>

text \<open>
  \<open>fscanf (f, "%ms\n", &line)\<close> skips white space, takes the next run of other characters
  as a new string, and skips the white space behind it; at the end of the file it returns
  EOF. As a C string the token ends at its first NUL.
\<close>

definition next_token :: "string \<Rightarrow> (string \<times> string) option" where
  "next_token s = (let t = dropWhile iswspace s in
     if t = [] then None
     else Some (takeWhile (\<lambda>c. \<not> iswspace c) t, dropWhile iswspace (dropWhile (\<lambda>c. \<not> iswspace c) t)))"

text \<open>
  The variable \<open>line\<close>: unset, \<open>NULL\<close>, or a string of its own. Whether \<open>fscanf\<close> clears it at
  the end of the file is up to the C library (\<open>clears\<close>).
\<close>

datatype line_var = LineUnset | LineNull | LineText string

fun free_line :: "line_var \<Rightarrow> unit res" where
  "free_line LineUnset = Inl Uninit"
| "free_line LineNull = Inr ()"
| "free_line (LineText s) = Inr ()"

lemma next_token_shorter: "next_token s = Some (w, rest) \<Longrightarrow> length rest < length s"
proof -
  assume "next_token s = Some (w, rest)"
  then have t: "dropWhile iswspace s \<noteq> []"
    and rest: "rest = dropWhile iswspace (dropWhile (\<lambda>c. \<not> iswspace c) (dropWhile iswspace s))"
    by (auto simp: next_token_def Let_def split: if_splits)
  from t have "\<not> iswspace (hd (dropWhile iswspace s))" by (rule hd_dropWhile)
  with t have "length (dropWhile (\<lambda>c. \<not> iswspace c) (dropWhile iswspace s)) < length (dropWhile iswspace s)"
    by (cases "dropWhile iswspace s") (auto simp: length_dropWhile_le le_imp_less_Suc)
  also have "\<dots> \<le> length s" by (rule length_dropWhile_le)
  finally show ?thesis unfolding rest using length_dropWhile_le le_less_trans by blast
qed

text \<open>
  The reading loop. A line whose pattern does not compile destroys the router and ends the
  loop; the result is the content of \<open>line\<close>, the events, the text on stderr and the state.
\<close>

function read_routes :: "(string \<Rightarrow> 'p option) \<Rightarrow> bool \<Rightarrow> ref \<Rightarrow> string \<Rightarrow> line_var \<Rightarrow> log_event list
    \<Rightarrow> string \<Rightarrow> 'p router_state \<Rightarrow> (line_var \<times> log_event list \<times> string \<times> 'p router_state) run" where
  "read_routes regcomp clears router s line events err st =
     (case next_token s of
       None \<Rightarrow> ret (if clears then LineNull else line, events, err, st)
     | Some (w, rest) \<Rightarrow>
         bindX (lift_res (httpserv_parse_line regcomp (takeWhile (\<lambda>c. c \<noteq> NUL) w) st))
           (\<lambda>(route, ev, msg, st1).
           if route \<noteq> None then
             bindX (httpserv_router_add_route router route st1) (\<lambda>st2.
               read_routes regcomp clears router rest (LineText w) (events @ ev) (err @ msg) st2)
           else
             bindX (httpserv_router_destroy router st1) (\<lambda>st2.
               ret (LineText w, events @ ev, err @ msg, st2))))"
  by pat_completeness auto
termination
  by (relation "measure (\<lambda>(_, _, _, s, _). length s)") (auto dest: next_token_shorter)

declare read_routes.simps [simp del]

definition httpserv_router_parse_from_file ::
  "(string \<Rightarrow> 'p option) \<Rightarrow> bool \<Rightarrow> bool \<Rightarrow> (string \<Rightarrow> string + string) \<Rightarrow> string \<Rightarrow> 'p router_state
    \<Rightarrow> (ref \<times> log_event list \<times> string \<times> 'p router_state) run" where
  "httpserv_router_parse_from_file regcomp clears mutex_ok fs path st =
     (case fs path of
       Inl strerror \<Rightarrow> ret (None, [], ''failed to open file: '' @ strerror @ [LF], st)
     | Inr bytes \<Rightarrow>
         (let (router, st0) = httpserv_router_new mutex_ok st in
          bindX (read_routes regcomp clears router bytes LineUnset [] [] st0) (\<lambda>(line, events, err, st1).
          bindX (lift_res (free_line line)) (\<lambda>_.
            ret (router, events, err, st1)))))"

end
