(* ===== verification/Registry.thy ===== *)
theory Registry
  imports CHeap
begin

section \<open>Registries that grow at the front\<close>

subsection \<open>Searching a list\<close>

lemma find_map: "find p (map f xs) = map_option f (find (\<lambda>x. p (f x)) xs)"
  by (induction xs) simp_all

lemma find_mem: "find p xs = Some x \<Longrightarrow> x \<in> set xs"
  by (induction xs) (auto split: if_splits)

lemma find_eqI: "(\<And>x. x \<in> set xs \<Longrightarrow> p x = q x) \<Longrightarrow> find p xs = find q xs"
  by (induction xs) auto

lemma find_skip: "\<forall>x \<in> set xs. \<not> p x \<Longrightarrow> find p (xs @ ys) = find p ys"
  by (induction xs) auto

subsection \<open>The contract\<close>

text \<open>
  The router and the resource loader keep their entries in a list that grows at its head
  and is searched from there. The locale states what both promise: adding succeeds and puts
  the entry in front, and a search returns the first entry that matches. What follows for a
  client: after a sequence of additions the search finds the match that was added last.
\<close>

locale registry =
  fixes has :: "'s \<Rightarrow> 'e list \<Rightarrow> bool"
    and ok :: "'e list \<Rightarrow> 'e \<Rightarrow> bool"
    and add :: "'e \<Rightarrow> 's \<Rightarrow> 's run"
    and search :: "('e \<Rightarrow> bool) \<Rightarrow> 's \<Rightarrow> 'e option run"
  assumes add_has: "has s es \<Longrightarrow> ok es e \<Longrightarrow> \<exists>s'. add e s = ret s' \<and> has s' (e # es)"
    and search_has: "has s es \<Longrightarrow> search p s = ret (find p es)"
begin

primrec add_all :: "'e list \<Rightarrow> 's \<Rightarrow> 's run" where
  "add_all [] s = ret s"
| "add_all (e # es) s = bindX (add e s) (add_all es)"

primrec ok_all :: "'e list \<Rightarrow> 'e list \<Rightarrow> bool" where
  "ok_all es [] = True"
| "ok_all es (x # xs) = (ok es x \<and> ok_all (x # es) xs)"

lemma add_all_has:
  "has s es \<Longrightarrow> ok_all es xs \<Longrightarrow> \<exists>s'. add_all xs s = ret s' \<and> has s' (rev xs @ es)"
proof (induction xs arbitrary: s es)
  case (Cons x xs)
  then obtain s1 where s1: "add x s = ret s1" "has s1 (x # es)" using add_has by fastforce
  from Cons.IH [OF s1(2)] Cons.prems(2) s1(1) show ?case by (simp add: ret_def)
qed (auto simp: ret_def)

lemma search_after_add_all:
  assumes "has s es" and "ok_all es xs"
  shows "bindX (add_all xs s) (search p) = ret (find p (rev xs @ es))"
  using add_all_has [OF assms] search_has by (auto simp: ret_def)

text \<open>An entry added last shadows what was there.\<close>

lemma search_last_added:
  assumes "has s es" and "ok es e" and "p e"
  shows "bindX (add e s) (search p) = ret (Some e)"
  using add_has [OF assms(1,2)] search_has assms(3) by (auto simp: ret_def)

lemma search_added_other:
  assumes "has s es" and "ok es e" and "\<not> p e"
  shows "bindX (add e s) (search p) = search p s"
  using add_has [OF assms(1,2)] search_has assms by (auto simp: ret_def)

end

end
