(* ===== verification/RouterProps.thy ===== *)
theory RouterProps
  imports Router Registry
begin

section \<open>Properties of the router\<close>

text \<open>
  The abstract router is the list of its entries (pattern, target, kind), newest first. The
  registry contract is discharged for it; looking a path up, reading a route file and
  destroying a router are described over it.
\<close>

subsection \<open>The entries of a router\<close>

type_synonym 'p entry = "'p \<times> string \<times> httpserv_route_kind_t"

definition route_entry :: "'p httpserv_route_t \<Rightarrow> 'p entry" where
  "route_entry n = (pattern n, routepattern n, kind n)"

definition router_at :: "nat \<Rightarrow> 'p router_state \<Rightarrow> nat list \<Rightarrow> bool" where
  "router_at a st as \<longleftrightarrow> wf_store (routes st) \<and> wf_store (routers st)
     \<and> (\<exists>r. cells (routers st) a = Some r \<and> \<not> route_mutex r
          \<and> linked route_next (cells (routes st)) (route_head r) as)"

definition router_has :: "nat \<Rightarrow> 'p router_state \<Rightarrow> 'p entry list \<Rightarrow> bool" where
  "router_has a st es \<longleftrightarrow> (\<exists>as. router_at a st as
     \<and> map route_entry (values_of (cells (routes st)) as) = es)
     \<and> (\<forall>e \<in> set es. no_nul (fst (snd e)))"

text \<open>Making a route and adding it, and the search over the entries.\<close>

definition router_add :: "nat \<Rightarrow> 'p entry \<Rightarrow> 'p router_state \<Rightarrow> 'p router_state run" where
  "router_add a e st =
     (let (route, ev, st1) = httpserv_route_new (\<lambda>_. Some (fst e)) [] (fst (snd e)) (snd (snd e)) st
      in httpserv_router_add_route (Some a) route st1)"

definition router_search :: "nat \<Rightarrow> ('p entry \<Rightarrow> bool) \<Rightarrow> 'p router_state \<Rightarrow> 'p entry option run" where
  "router_search a p st =
     bindX (lift_res (load (routers st) (Some a))) (\<lambda>r.
     bindX (find_from route_next (\<lambda>n. p (route_entry n)) (routes st) (route_head r)) (\<lambda>cur.
     case cur of None \<Rightarrow> ret None
     | Some b \<Rightarrow> bindX (lift_res (load (routes st) (Some b))) (\<lambda>n. ret (Some (route_entry n)))))"

lemma router_new_has:
  assumes "wf_store (routes st)" and "wf_store (routers st)"
    and "httpserv_router_new True st = (r, st')"
  shows "\<exists>a. r = Some a \<and> router_has a st' [] \<and> a = fresh (routers st)"
  using assms by (auto simp: httpserv_router_new_def alloc_def Let_def router_has_def router_at_def
      wf_store_def less_Suc_eq intro!: exI [of _ "[]"])

lemma router_add_at:
  assumes "router_at a st as"
  shows "\<exists>b st'. router_add a (p, t, k) st = ret st' \<and> router_at a st' (b # as)
    \<and> b \<notin> set as \<and> values_of (cells (routes st')) as = values_of (cells (routes st)) as
    \<and> (\<exists>n. cells (routes st') b = Some n \<and> route_entry n = (p, t, k))"
proof -
  let ?b = "fresh (routes st)"
  from assms obtain r where r: "cells (routers st) a = Some r" "\<not> route_mutex r"
    "linked route_next (cells (routes st)) (route_head r) as"
    and wf: "wf_store (routes st)" "wf_store (routers st)" by (auto simp: router_at_def)
  have new: "?b \<notin> set as" using linked_live [OF r(3)] wf(1) by (auto simp: wf_store_def)
  define n where "n = \<lparr>pattern = p, routepattern = t, kind = k, route_next = route_head r\<rparr>"
  let ?st = "\<lparr>routes = \<lparr>cells = (cells (routes st))(?b \<mapsto> n), fresh = ?b + 1\<rparr>,
    routers = (routers st)\<lparr>cells := (cells (routers st))(a \<mapsto> r\<lparr>route_head := Some ?b, route_mutex := False\<rparr>)\<rparr>\<rparr>"
  have "router_add a (p, t, k) st = ret (st\<lparr>routes := routes ?st, routers := routers ?st\<rparr>)"
    using r(1,2) by (simp add: router_add_def httpserv_route_new_def httpserv_router_add_route_def alloc_def
        heap_simps ret_def n_def)
  moreover have "router_at a (st\<lparr>routes := routes ?st, routers := routers ?st\<rparr>) (?b # as)"
    using r new wf by (auto simp: router_at_def n_def linked_frame wf_store_def less_Suc_eq)
  ultimately show ?thesis
    using new by (intro exI [of _ ?b] exI [of _ "st\<lparr>routes := routes ?st, routers := routers ?st\<rparr>"])
      (simp add: values_of_frame route_entry_def n_def)
qed

lemma router_add_has:
  assumes "router_has a st es" and "no_nul (fst (snd e))"
  shows "\<exists>st'. router_add a e st = ret st' \<and> router_has a st' (e # es)"
proof -
  obtain as where as: "router_at a st as" "map route_entry (values_of (cells (routes st)) as) = es"
    using assms(1) by (auto simp: router_has_def)
  obtain p t k where e: "e = (p, t, k)" by (cases e)
  from router_add_at [OF as(1), of p t k] obtain b st' where st': "router_add a (p, t, k) st = ret st'"
    "router_at a st' (b # as)" "values_of (cells (routes st')) as = values_of (cells (routes st)) as"
    "\<exists>n. cells (routes st') b = Some n \<and> route_entry n = (p, t, k)" by blast
  then have "router_has a st' (e # es)"
    using assms e as(2) unfolding router_has_def by (intro conjI exI [of _ "b # as"]) auto
  with st'(1) e show ?thesis by blast
qed

lemma router_search_has:
  assumes "router_has a st es"
  shows "router_search a p st = ret (find p es)"
proof -
  obtain as r where as: "cells (routers st) a = Some r"
    "linked route_next (cells (routes st)) (route_head r) as"
    "es = map (\<lambda>b. route_entry (the (cells (routes st) b))) as"
    using assms by (auto simp: router_has_def router_at_def values_of_def)
  show ?thesis
  proof (cases "find (\<lambda>b. p (route_entry (the (cells (routes st) b)))) as")
    case None
    then show ?thesis
      using as(1) find_from_linked [OF as(2), of "\<lambda>n. p (route_entry n)"]
      by (simp add: router_search_def heap_simps ret_def as(3) find_map)
  next
    case (Some b)
    then obtain n where "cells (routes st) b = Some n" using linked_live [OF as(2)] find_mem by fastforce
    with Some show ?thesis
      using as(1) find_from_linked [OF as(2), of "\<lambda>n. p (route_entry n)"]
      by (simp add: router_search_def heap_simps ret_def as(3) find_map)
  qed
qed

interpretation rt: registry "router_has a" "\<lambda>es e. no_nul (fst (snd e))" "router_add a" "router_search a" for a
  using router_add_has router_search_has by unfold_locales blast+

subsection \<open>Looking a path up\<close>

text \<open>
  The reference: the first entry whose pattern matches, unless it leads to the path itself.
\<close>

definition route_for :: "('p \<Rightarrow> string \<Rightarrow> bool) \<Rightarrow> 'p entry list \<Rightarrow> string \<Rightarrow> 'p entry option" where
  "route_for regexec es q = (case find (\<lambda>e. regexec (fst e) q) es of
     None \<Rightarrow> None
   | Some e \<Rightarrow> if fst (snd e) = q then None else Some e)"

definition entry_event :: "'p entry \<Rightarrow> string \<Rightarrow> log_event" where
  "entry_event e q = (LOG, (case snd (snd e) of
       HTTPSERV_ROUTE_KIND_ALIAS \<Rightarrow> ''alias: ''
     | HTTPSERV_ROUTE_KIND_REDIRECT \<Rightarrow> ''redirecting (301): ''
     | HTTPSERV_ROUTE_KIND_ROUTE \<Rightarrow> ''routing (302): '') @ q @ '' => '' @ fst (snd e))"

lemma lookup_outcome:
  assumes "router_has a st es" and "no_nul q"
  shows "\<exists>r. httpserv_router_lookup regexec (Some a) (Some q) st =
      ret (r, case route_for regexec es q of None \<Rightarrow> [] | Some e \<Rightarrow> [entry_event e q])
    \<and> (case route_for regexec es q of None \<Rightarrow> r = None
       | Some e \<Rightarrow> \<exists>b n. r = Some b \<and> cells (routes st) b = Some n \<and> route_entry n = e)"
proof -
  obtain as r where as: "cells (routers st) a = Some r" "\<not> route_mutex r"
    "linked route_next (cells (routes st)) (route_head r) as"
    "es = map (\<lambda>b. route_entry (the (cells (routes st) b))) as"
    and nn: "\<forall>e \<in> set es. no_nul (fst (snd e))"
    using assms by (auto simp: router_has_def router_at_def values_of_def)
  let ?f = "\<lambda>b. regexec (pattern (the (cells (routes st) b))) q"
  note loop = find_from_linked [OF as(3), of "\<lambda>n. regexec (pattern n) q"]
  have found: "find (\<lambda>e. regexec (fst e) q) es = map_option (\<lambda>b. route_entry (the (cells (routes st) b))) (find ?f as)"
    by (simp add: as(4) find_map route_entry_def)
  show ?thesis
  proof (cases "find ?f as")
    case None
    then show ?thesis
      using as(1,2) loop found by (simp add: httpserv_router_lookup_def heap_simps ret_def route_for_def)
  next
    case (Some b)
    then have b: "b \<in> set as" by (rule find_mem)
    then obtain n where n: "cells (routes st) b = Some n" using linked_live [OF as(3)] by blast
    with b have "no_nul (routepattern n)" using nn as(4) by (force simp: route_entry_def)
    with assms(2) have eq: "httpserv_streq (routepattern n) q = 0 \<longleftrightarrow> routepattern n = q" by simp
    have "entry_event (route_entry n) q = lookup_event n q"
      by (simp add: entry_event_def lookup_event_def route_entry_def split: httpserv_route_kind_t.splits)
    then show ?thesis
      using as(1,2) loop found Some n eq
      by (simp add: httpserv_router_lookup_def heap_simps ret_def route_for_def) (simp add: route_entry_def)
  qed
qed

subsection \<open>One line\<close>

text \<open>The reference: the text before the first arrow, and the text after it.\<close>

fun split_arrow :: "string \<Rightarrow> string \<times> string option" where
  "split_arrow [] = ([], None)"
| "split_arrow (c # cs) = (if c = CHR ''='' \<and> cs \<noteq> [] \<and> hd cs = CHR ''>'' then ([], Some (tl cs))
     else (c # fst (split_arrow cs), snd (split_arrow cs)))"

definition line_pattern :: "string \<Rightarrow> string" where
  "line_pattern w = fst (split_arrow w)"

definition line_target :: "string \<Rightarrow> string" where
  "line_target w = takeWhile (\<lambda>c. c \<noteq> CHR ''|'') (case snd (split_arrow w) of None \<Rightarrow> [] | Some t \<Rightarrow> t)"

definition line_kind :: "string \<Rightarrow> httpserv_route_kind_t" where
  "line_kind w = (case snd (split_arrow w) of
     Some t \<Rightarrow> if CHR ''|'' \<in> set t then HTTPSERV_ROUTE_KIND_ROUTE else HTTPSERV_ROUTE_KIND_ALIAS
   | None \<Rightarrow> HTTPSERV_ROUTE_KIND_ALIAS)"

lemma strncmp_Cons_iff: "strncmp (c # cs) (d # ds) (Suc n) = 0 \<longleftrightarrow> c = d \<and> strncmp cs ds n = 0"
proof (cases "c = d")
  case False
  then have "int (of_char c) \<noteq> int (of_char d)" by (metis of_char_eq_iff of_nat_eq_iff)
  with False show ?thesis by simp
qed simp

lemma arrow_test: "strncmp (c # cs) ''=>'' 2 = 0 \<longleftrightarrow> c = CHR ''='' \<and> cs \<noteq> [] \<and> hd cs = CHR ''>''"
  by (cases cs) (auto simp: numeral_2_eq_2 strncmp_Cons_iff simp del: strncmp.simps(5))

lemma scan_target:
  "no_nul s \<Longrightarrow> exact_string tb t \<Longrightarrow>
    \<exists>tb'. scan_route True pb tb k s = Inr (pb, tb', if CHR ''|'' \<in> set s then HTTPSERV_ROUTE_KIND_ROUTE else k, [])
      \<and> exact_string tb' (t @ takeWhile (\<lambda>c. c \<noteq> CHR ''|'') s)"
proof (induction s arbitrary: tb t)
  case (Cons c s)
  show ?case
  proof (cases "c = CHR ''|''")
    case True
    with Cons.prems(2) show ?thesis by (simp add: kind_after_bar_def)
  next
    case False
    have "c \<noteq> NUL" using Cons.prems(1) by auto
    then obtain tb1 where tb1: "realloc_append tb c = Inr tb1" "exact_string tb1 (t @ [c])"
      by (rule ra.pushE [OF Cons.prems(2)])
    with Cons.IH [OF _ tb1(2)] Cons.prems(1) False show ?thesis by simp
  qed
qed simp

lemma scan_line:
  "no_nul s \<Longrightarrow> exact_string pb p \<Longrightarrow> exact_string tb [] \<Longrightarrow>
    \<exists>pb' tb'. scan_route False pb tb HTTPSERV_ROUTE_KIND_ALIAS s = Inr (pb', tb', line_kind s, [])
      \<and> exact_string pb' (p @ line_pattern s) \<and> exact_string tb' (line_target s)"
proof (induction s arbitrary: pb p)
  case Nil
  then show ?case by (simp add: line_kind_def line_pattern_def line_target_def)
next
  case (Cons c s)
  show ?case
  proof (cases "c = CHR ''='' \<and> s \<noteq> [] \<and> hd s = CHR ''>''")
    case True
    then have "no_nul (tl s)" using Cons.prems(1) by (cases s) auto
    from scan_target [OF this Cons.prems(3), of pb HTTPSERV_ROUTE_KIND_ALIAS] True Cons.prems(2) show ?thesis
      by (auto simp: arrow_test line_kind_def line_pattern_def line_target_def simp del: strncmp.simps)
  next
    case False
    have "c \<noteq> NUL" using Cons.prems(1) by auto
    then obtain pb1 where pb1: "realloc_append pb c = Inr pb1" "exact_string pb1 (p @ [c])"
      by (rule ra.pushE [OF Cons.prems(2)])
    have "split_arrow (c # s) = (c # fst (split_arrow s), snd (split_arrow s))"
      using False by (simp only: split_arrow.simps if_False)
    then have "line_kind (c # s) = line_kind s" "line_target (c # s) = line_target s"
      "line_pattern (c # s) = c # line_pattern s"
      by (simp_all del: split_arrow.simps add: line_kind_def line_target_def line_pattern_def)
    with Cons.IH [OF _ pb1(2) Cons.prems(3)] Cons.prems(1) False pb1(1) show ?thesis
      by (auto simp: arrow_test simp del: strncmp.simps)
  qed
qed

lemma parse_line_outcome:
  assumes "no_nul w"
  shows "httpserv_parse_line regcomp w st = Inr
    (let (route, events, st') = httpserv_route_new regcomp (line_pattern w) (line_target w) (line_kind w) st
     in (route, events, [], st'))"
proof -
  have e: "strcpy (malloc (Suc 0)) [] = Inr [Some NUL]"
    by (simp add: strcpy_def wr_run_def malloc_def)
  have ex: "exact_string [Some NUL] []" by (simp add: exact_string_def)
  from scan_line [OF assms ex ex] show ?thesis
    by (auto simp: httpserv_parse_line_def e exact_string_def Let_def split: prod.splits)
qed

subsection \<open>Destroying a router\<close>

lemma destroy_outcome:
  assumes "router_at a st as"
  shows "httpserv_router_destroy (Some a) st = ret (st\<lparr>
    routes := (routes st)\<lparr>cells := (\<lambda>b. if b \<in> set as then None else cells (routes st) b)\<rparr>,
    routers := (routers st)\<lparr>cells := (cells (routers st))(a := None)\<rparr>\<rparr>)"
proof -
  obtain r where "cells (routers st) a = Some r"
    "linked route_next (cells (routes st)) (route_head r) as"
    using assms by (auto simp: router_at_def)
  then show ?thesis
    by (simp add: httpserv_router_destroy_def heap_simps release_from_linked ret_def)
qed

lemma router_has_at: "router_has a st es \<Longrightarrow> \<exists>as. router_at a st as"
  by (auto simp: router_has_def)

text \<open>A pointer to a router that was destroyed.\<close>

lemma dangling_router:
  assumes "cells (routers st) a = None"
  shows "httpserv_router_lookup regexec (Some a) (Some q) st = Some (Inl UseAfterFree)"
    and "httpserv_router_add_route (Some a) route st = Some (Inl UseAfterFree)"
    and "httpserv_router_destroy (Some a) st = Some (Inl UseAfterFree)"
  using assms by (simp_all add: httpserv_router_lookup_def httpserv_router_add_route_def
      httpserv_router_destroy_def heap_simps)

subsection \<open>The route file\<close>

text \<open>The words of the file, and the route each of them makes.\<close>

function tokens :: "string \<Rightarrow> string list" where
  "tokens s = (case next_token s of None \<Rightarrow> [] | Some (w, rest) \<Rightarrow> w # tokens rest)"
  by pat_completeness auto
termination by (relation "measure length") (auto dest: next_token_shorter)

declare tokens.simps [simp del]

definition word_entry :: "(string \<Rightarrow> 'p option) \<Rightarrow> string \<Rightarrow> 'p entry" where
  "word_entry regcomp w = (the (regcomp (line_pattern w)), line_target w, line_kind w)"

definition good_word :: "(string \<Rightarrow> 'p option) \<Rightarrow> string \<Rightarrow> bool" where
  "good_word regcomp w \<longleftrightarrow> no_nul w \<and> regcomp (line_pattern w) \<noteq> None"

lemma split_arrow_set: "set (fst (split_arrow w)) \<subseteq> set w \<and> (\<forall>t. snd (split_arrow w) = Some t \<longrightarrow> set t \<subseteq> set w)"
  by (induction w) (auto dest: list.set_sel(2))

lemma no_nul_target: "no_nul w \<Longrightarrow> no_nul (line_target w)"
  using split_arrow_set [of w]
  by (cases "snd (split_arrow w)") (auto simp: line_target_def dest!: set_takeWhileD)

lemma good_word_added:
  assumes "good_word regcomp w"
  shows "bindX (lift_res (httpserv_parse_line regcomp (takeWhile (\<lambda>c. c \<noteq> NUL) w) st)) (\<lambda>(route, ev, msg, st1).
      if route \<noteq> None then bindX (httpserv_router_add_route (Some a) route st1) (\<lambda>st2. F ev msg st2) else G route ev msg st1)
    = bindX (router_add a (word_entry regcomp w) st) (F [] [])"
proof -
  obtain p where p: "regcomp (line_pattern w) = Some p" "no_nul w" using assms by (auto simp: good_word_def)
  from p(2) have "takeWhile (\<lambda>c. c \<noteq> NUL) w = w" by (simp add: takeWhile_no_nul)
  with p show ?thesis
    by (simp add: parse_line_outcome httpserv_route_new_def router_add_def word_entry_def alloc_def)
qed

lemma read_routes_words:
  assumes "router_has a st es"
    and "tokens s = ws @ zs" and "list_all (good_word regcomp) ws"
  shows "\<exists>st' rest. router_has a st' (rev (map (word_entry regcomp) ws) @ es) \<and> tokens rest = zs
    \<and> read_routes regcomp clears (Some a) s line ev err st
      = read_routes regcomp clears (Some a) rest (if ws = [] then line else LineText (last ws)) ev err st'"
  using assms
proof (induction ws arbitrary: s st es line)
  case (Cons w ws)
  then obtain rest where rest: "next_token s = Some (w, rest)" "tokens rest = ws @ zs"
    by (subst (asm) tokens.simps) (auto split: option.splits)
  have w: "good_word regcomp w" and ws: "list_all (good_word regcomp) ws" using Cons.prems(3) by auto
  have "no_nul (fst (snd (word_entry regcomp w)))"
    using w by (simp add: word_entry_def good_word_def no_nul_target)
  from rt.add_has [OF Cons.prems(1) this] obtain st1 where st1:
    "router_add a (word_entry regcomp w) st = ret st1" "router_has a st1 (word_entry regcomp w # es)" by blast
  have "read_routes regcomp clears (Some a) s line ev err st
      = read_routes regcomp clears (Some a) rest (LineText w) ev err st1"
    using good_word_added [OF w, where a = a and st = st
      and F = "\<lambda>ev' msg. read_routes regcomp clears (Some a) rest (LineText w) (ev @ ev') (err @ msg)"
      and G = "\<lambda>route ev' msg st1. bindX (httpserv_router_destroy (Some a) st1)
        (\<lambda>st2. ret (LineText w, ev @ ev', err @ msg, st2))"] st1(1)
    by (simp add: read_routes.simps [of regcomp clears "Some a" s] rest(1) ret_def)
  moreover obtain st' rest' where "router_has a st' (rev (map (word_entry regcomp) ws) @ word_entry regcomp w # es)"
    "tokens rest' = zs" "read_routes regcomp clears (Some a) rest (LineText w) ev err st1
      = read_routes regcomp clears (Some a) rest' (if ws = [] then LineText w else LineText (last ws)) ev err st'"
    using Cons.IH [OF st1(2) rest(2) ws] by blast
  ultimately show ?case by (intro exI [of _ st'] exI [of _ rest']) simp
qed auto

text \<open>Reading a whole file, from the state of a program that has no router yet.\<close>

definition empty_router_state :: "'p router_state" where
  "empty_router_state = \<lparr>routes = empty_store, routers = empty_store\<rparr>"

lemma empty_router_new: "httpserv_router_new True empty_router_state = (r, st) \<Longrightarrow>
    r = Some 0 \<and> router_has 0 st []"
  using router_new_has [of empty_router_state r st] by (auto simp: empty_router_state_def empty_store_def wf_store_def)

lemma route_file_good:
  assumes "fs path = Inr bytes" and "list_all (good_word regcomp) (tokens bytes)"
    and "tokens bytes \<noteq> [] \<or> clears"
  shows "\<exists>st'. httpserv_router_parse_from_file regcomp clears True fs path empty_router_state
      = ret (Some 0, [], [], st') \<and> router_has 0 st' (rev (map (word_entry regcomp) (tokens bytes)))"
proof -
  obtain r st0 where new: "httpserv_router_new True empty_router_state = (r, st0 :: 'a router_state)"
    by (cases "httpserv_router_new True (empty_router_state :: 'a router_state)")
  then have st0: "r = Some 0" "router_has 0 st0 []" using empty_router_new by blast+
  from read_routes_words [OF st0(2) _ assms(2), of bytes "[]" clears LineUnset "[]" "[]"] obtain st' rest where
    st': "router_has 0 st' (rev (map (word_entry regcomp) (tokens bytes)))" "tokens rest = []"
    "read_routes regcomp clears (Some 0) bytes LineUnset [] [] st0 = read_routes regcomp clears (Some 0) rest
      (if tokens bytes = [] then LineUnset else LineText (last (tokens bytes))) [] [] st'" by auto
  have "next_token rest = None" using st'(2) by (subst (asm) tokens.simps) (auto split: option.splits)
  with st' st0(1) new assms(1,3) show ?thesis
    by (intro exI [of _ st']) (auto simp: httpserv_router_parse_from_file_def ret_def read_routes.simps [of _ _ _ rest])
qed

subsection \<open>Properties\<close>

text \<open>
  C18: looking up a path in a router with the given entries returns the newest entry whose
  pattern matches the path, with the line it logs; it returns \<open>NULL\<close> when none matches or when
  that entry leads to the path itself (an older matching entry is then not considered).
\<close>

theorem router_lookup_correct:
  assumes "router_has a st es" and "no_nul q"
  shows "\<exists>r. httpserv_router_lookup regexec (Some a) (Some q) st =
      ret (r, case route_for regexec es q of None \<Rightarrow> [] | Some e \<Rightarrow> [entry_event e q])
    \<and> (case route_for regexec es q of None \<Rightarrow> r = None
       | Some e \<Rightarrow> \<exists>b n. r = Some b \<and> cells (routes st) b = Some n \<and> route_entry n = e)"
  using lookup_outcome [OF assms] .

text \<open>A matcher for the examples: the pattern is a prefix.\<close>

definition prefix_match :: "string \<Rightarrow> string \<Rightarrow> bool" where
  "prefix_match p s \<longleftrightarrow> take (length p) s = p"

theorem router_lookup_correct_witness:
  "\<exists>st r. bindX (router_add 0 (''/'', ''/index.html'', HTTPSERV_ROUTE_KIND_ALIAS)
        (snd (httpserv_router_new True empty_router_state)))
      (router_add 0 (''/a'', ''/b'', HTTPSERV_ROUTE_KIND_ROUTE)) = ret st
    \<and> httpserv_router_lookup prefix_match (Some 0) (Some ''/abc'') st = ret (r, [(LOG, ''routing (302): /abc => /b'')])"
proof -
  let ?e1 = "(''/'', ''/index.html'', HTTPSERV_ROUTE_KIND_ALIAS)"
  let ?e2 = "(''/a'', ''/b'', HTTPSERV_ROUTE_KIND_ROUTE)"
  obtain r0 and st0 :: "string router_state" where new: "httpserv_router_new True empty_router_state = (r0, st0)"
    by (cases "httpserv_router_new True (empty_router_state :: string router_state)")
  then have "router_has 0 st0 []" using empty_router_new by blast
  from rt.add_all_has [OF this, of "[?e1, ?e2]"] obtain st where
    st: "rt.add_all 0 [?e1, ?e2] st0 = ret st" "router_has 0 st [?e2, ?e1]" by auto
  have "route_for prefix_match [?e2, ?e1] ''/abc'' = Some ?e2" by code_simp
  with router_lookup_correct [OF st(2), of "''/abc''" prefix_match] obtain r where
    "httpserv_router_lookup prefix_match (Some 0) (Some ''/abc'') st = ret (r, [entry_event ?e2 ''/abc''])" by auto
  moreover have "entry_event ?e2 ''/abc'' = (LOG, ''routing (302): /abc => /b'')" by code_simp
  moreover have "bindX (router_add 0 ?e1 st0) (router_add 0 ?e2) = ret st"
    using st(1) by (simp add: ret_def bindX_ret_iff)
  ultimately show ?thesis using new by auto
qed

text \<open>
  when every word of the route file has a pattern that compiles, parsing the file
  returns a router whose entries are the routes of the words, the last word first; a word is
  its text before the first arrow, the text up to a bar, and the kind. (The file must hold a
  word, unless the C library clears the variable at the end of the file.)
\<close>

theorem route_file_parsed:
  assumes "fs path = Inr bytes" and "list_all (good_word regcomp) (tokens bytes)"
    and "tokens bytes \<noteq> [] \<or> clears"
  shows "\<exists>st'. httpserv_router_parse_from_file regcomp clears True fs path empty_router_state
      = ret (Some 0, [], [], st') \<and> router_has 0 st' (rev (map (word_entry regcomp) (tokens bytes)))"
  using assms by (rule route_file_good)

theorem route_file_parsed_witness:
  "\<exists>st'. httpserv_router_parse_from_file Some True True (\<lambda>_. Inr (''/a=>/b'' @ [LF] @ ''/c=>/d|redirect'' @ [LF]))
      ''r'' empty_router_state = ret (Some 0, [], [], st')
    \<and> router_has 0 st' [(''/c'', ''/d'', HTTPSERV_ROUTE_KIND_ROUTE), (''/a'', ''/b'', HTTPSERV_ROUTE_KIND_ALIAS)]"
proof -
  let ?f = "''/a=>/b'' @ [LF] @ ''/c=>/d|redirect'' @ [LF]"
  have "list_all (\<lambda>w. list_all (\<lambda>c. c \<noteq> NUL) w) (tokens ?f)"
    "rev (map (word_entry Some) (tokens ?f)) =
      [(''/c'', ''/d'', HTTPSERV_ROUTE_KIND_ROUTE), (''/a'', ''/b'', HTTPSERV_ROUTE_KIND_ALIAS)]"
    by code_simp+
  then show ?thesis
    using route_file_parsed [of "\<lambda>_. Inr ?f" "''r''" ?f Some True] by (auto simp: good_word_def list_all_iff)
qed

text \<open>
  the word behind the bar is not looked at: every word with a bar makes a route of the
  kind that answers with status 302, also when it says alias or redirect.
\<close>

theorem route_kind_not_read:
  assumes "no_nul w" and "split_arrow w = (p, Some t)" and "CHR ''|'' \<in> set t" and "regcomp p = Some q"
  shows "\<exists>a st'. httpserv_parse_line regcomp w st = Inr (Some a, [], [], st')
    \<and> cells (routes st') a = Some \<lparr>pattern = q, routepattern = takeWhile (\<lambda>c. c \<noteq> CHR ''|'') t,
        kind = HTTPSERV_ROUTE_KIND_ROUTE, route_next = None\<rparr>"
  using assms(2-4) parse_line_outcome [OF assms(1), of regcomp st]
  by (simp add: line_pattern_def line_target_def line_kind_def httpserv_route_new_def alloc_def)

theorem route_kind_not_read_witness:
  "\<exists>a st'. httpserv_parse_line Some ''/a=>/b|alias'' empty_router_state = Inr (Some a, [], [], st')
    \<and> map_option kind (cells (routes st') a) = Some HTTPSERV_ROUTE_KIND_ROUTE"
proof -
  have "split_arrow ''/a=>/b|alias'' = (''/a'', Some ''/b|alias'')" by code_simp
  then show ?thesis
    using route_kind_not_read [of "''/a=>/b|alias''" "''/a''" "''/b|alias''" Some "''/a''" empty_router_state] by auto
qed

text \<open>
  C33: a word whose pattern does not compile makes the parser destroy the router and return
  the pointer to it all the same; every use of the result is then a use after free.
\<close>

theorem route_file_error_dangles:
  assumes "fs path = Inr bytes" and "tokens bytes = ws @ w # zs" and "list_all (good_word regcomp) ws"
    and "no_nul w" and "regcomp (line_pattern w) = None"
  shows "\<exists>st'. httpserv_router_parse_from_file regcomp clears True fs path empty_router_state
      = ret (Some 0, [(ERR, ''failed to compile regex'')], [], st')
    \<and> httpserv_router_lookup regexec (Some 0) (Some q) st' = Some (Inl UseAfterFree)
    \<and> httpserv_router_add_route (Some 0) route st' = Some (Inl UseAfterFree)"
proof -
  obtain r st0 where new: "httpserv_router_new True empty_router_state = (r, st0 :: 'a router_state)"
    by (cases "httpserv_router_new True (empty_router_state :: 'a router_state)")
  then have st0: "r = Some 0" "router_has 0 st0 []" using empty_router_new by blast+
  from read_routes_words [OF st0(2) assms(2,3), of clears LineUnset "[]" "[]"] obtain st1 s where
    st1: "router_has 0 st1 (rev (map (word_entry regcomp) ws))" "tokens s = w # zs"
    "read_routes regcomp clears (Some 0) bytes LineUnset [] [] st0
      = read_routes regcomp clears (Some 0) s (if ws = [] then LineUnset else LineText (last ws)) [] [] st1" by auto
  from st1(2) obtain rest where "next_token s = Some (w, rest)"
    by (subst (asm) tokens.simps) (auto split: option.splits)
  moreover obtain as where "router_at 0 st1 as" using router_has_at [OF st1(1)] by blast
  from destroy_outcome [OF this] obtain st2 where
    "httpserv_router_destroy (Some 0) st1 = ret st2" "cells (routers st2) 0 = None" by simp
  moreover have "takeWhile (\<lambda>c. c \<noteq> NUL) w = w" using assms(4) by (simp add: takeWhile_no_nul)
  ultimately show ?thesis
    using st0(1) new assms(1,4,5) st1(3)
    by (intro exI [of _ st2]) (simp add: httpserv_router_parse_from_file_def ret_def read_routes.simps [of _ _ _ s]
        parse_line_outcome httpserv_route_new_def dangling_router)
qed

theorem route_file_error_dangles_witness:
  "\<exists>st'. httpserv_router_parse_from_file (\<lambda>p. if p = ''('' then None else Some p) False True
      (\<lambda>_. Inr (''/a=>/b'' @ [LF] @ ''(=>/d'' @ [LF])) ''r'' empty_router_state
      = ret (Some 0, [(ERR, ''failed to compile regex'')], [], st')
    \<and> httpserv_router_lookup prefix_match (Some 0) (Some ''/a'') st' = Some (Inl UseAfterFree)"
proof -
  let ?f = "''/a=>/b'' @ [LF] @ ''(=>/d'' @ [LF]"
  have "tokens ?f = [''/a=>/b''] @ ''(=>/d'' # []" "line_pattern ''/a=>/b'' = ''/a''" "line_pattern ''(=>/d'' = ''(''"
    by code_simp+
  then show ?thesis
    using route_file_error_dangles [of "\<lambda>_. Inr ?f" "''r''" ?f "[''/a=>/b'']" "''(=>/d''" "[]"
        "\<lambda>p. if p = ''('' then None else Some p" False prefix_match "''/a''"]
    by (auto simp: good_word_def)
qed

text \<open>
  C19: a request path is routed by the last word of the file whose pattern matches it.
\<close>

theorem last_matching_line_routes:
  assumes "fs path = Inr bytes" and "list_all (good_word regcomp) (tokens bytes)"
    and "tokens bytes = ws @ w # zs" and "no_nul q"
    and "regexec (the (regcomp (line_pattern w))) q"
    and "\<forall>z \<in> set zs. \<not> regexec (the (regcomp (line_pattern z))) q"
    and "line_target w \<noteq> q"
  shows "bindX (httpserv_router_parse_from_file regcomp clears True fs path empty_router_state)
      (\<lambda>(r, _, _, st'). bindX (httpserv_router_lookup regexec r (Some q) st') (\<lambda>(x, ev).
        bindX (lift_res (load (routes st') x)) (\<lambda>n. ret (route_entry n, ev))))
    = ret (word_entry regcomp w, [entry_event (word_entry regcomp w) q])"
proof -
  let ?es = "rev (map (word_entry regcomp) (tokens bytes))"
  have "\<exists>st'. httpserv_router_parse_from_file regcomp clears True fs path empty_router_state
      = ret (Some 0, [], [], st') \<and> router_has 0 st' ?es"
    using assms(1-3) by (intro route_file_good) auto
  then obtain st' where st': "httpserv_router_parse_from_file regcomp clears True fs path empty_router_state
      = ret (Some 0, [], [], st')" "router_has 0 st' ?es" by blast
  have none: "find (\<lambda>e. regexec (fst e) q) (map (word_entry regcomp) (rev zs)) = None"
    using assms(6) by (auto simp: find_None_iff word_entry_def)
  have "find p (xs @ ys) = (case find p xs of None \<Rightarrow> find p ys | Some x \<Rightarrow> Some x)" for p :: "'a entry \<Rightarrow> bool" and xs ys
    by (induction xs) simp_all
  then have "route_for regexec ?es q = Some (word_entry regcomp w)"
    using none assms(5,7) by (simp add: assms(3) route_for_def rev_map word_entry_def)
  with lookup_outcome [OF st'(2) assms(4), of regexec] show ?thesis
    by (auto simp: st'(1) ret_def heap_simps)
qed

theorem last_matching_line_routes_witness:
  "bindX (httpserv_router_parse_from_file Some True True
        (\<lambda>_. Inr (''/=>/x'' @ [LF] @ ''/a=>/b'' @ [LF] @ ''/c=>/d'' @ [LF])) ''r'' empty_router_state)
      (\<lambda>(r, _, _, st'). bindX (httpserv_router_lookup prefix_match r (Some ''/abc'') st') (\<lambda>(x, ev).
        bindX (lift_res (load (routes st') x)) (\<lambda>n. ret (route_entry n, ev))))
    = ret ((''/a'', ''/b'', HTTPSERV_ROUTE_KIND_ALIAS), [(LOG, ''alias: /abc => /b'')])"
proof -
  let ?f = "''/=>/x'' @ [LF] @ ''/a=>/b'' @ [LF] @ ''/c=>/d'' @ [LF]"
  have e: "tokens ?f = [''/=>/x''] @ ''/a=>/b'' # [''/c=>/d'']"
    "list_all (\<lambda>w. list_all (\<lambda>c. c \<noteq> NUL) w) (tokens ?f)"
    "word_entry Some ''/a=>/b'' = (''/a'', ''/b'', HTTPSERV_ROUTE_KIND_ALIAS)"
    "entry_event (''/a'', ''/b'', HTTPSERV_ROUTE_KIND_ALIAS) ''/abc'' = (LOG, ''alias: /abc => /b'')"
    "prefix_match (the (Some (line_pattern ''/a=>/b''))) ''/abc''"
    "\<not> prefix_match (the (Some (line_pattern ''/c=>/d''))) ''/abc''"
    "line_target ''/a=>/b'' = ''/b''"
    by code_simp+
  then have "list_all (good_word Some) (tokens ?f)" by (auto simp: good_word_def list_all_iff)
  from last_matching_line_routes [of "\<lambda>_. Inr ?f" "''r''" ?f Some "[''/=>/x'']" "''/a=>/b''" "[''/c=>/d'']"
      "''/abc''" prefix_match True, OF refl this e(1)] e
  show ?thesis by simp
qed

text \<open>
  destroying a router frees the router and exactly its own routes; every other route
  keeps its place, and destroying the router again uses it after it was freed.
\<close>

theorem router_destroy_frees:
  assumes "router_at a st as"
  shows "\<exists>st'. httpserv_router_destroy (Some a) st = ret st'
    \<and> (\<forall>b. cells (routes st') b = (if b \<in> set as then None else cells (routes st) b))
    \<and> (\<forall>b. cells (routers st') b = (if b = a then None else cells (routers st) b))
    \<and> httpserv_router_destroy (Some a) st' = Some (Inl UseAfterFree)"
  unfolding destroy_outcome [OF assms] by (intro exI conjI, rule refl) (simp_all add: dangling_router)

theorem router_destroy_frees_witness:
  "\<exists>st'. httpserv_router_destroy (Some 0) (snd (httpserv_router_new True (empty_router_state :: string router_state))) = ret st'
    \<and> cells (routers st') 0 = None"
proof -
  obtain r and st :: "string router_state" where new: "httpserv_router_new True empty_router_state = (r, st)"
    by (cases "httpserv_router_new True (empty_router_state :: string router_state)")
  obtain as where "router_at 0 st as" using router_has_at empty_router_new [OF new] by blast
  from router_destroy_frees [OF this] have "\<exists>st'. httpserv_router_destroy (Some 0) st = ret st' \<and> cells (routers st') 0 = None"
    by auto
  then show ?thesis by (simp add: new)
qed

end
