(* ===== verification/Connector.thy ===== *)
theory Connector
  imports CHeap Logging
begin

section \<open>Connections (src/net/connector.c, src/net/ssl.c)\<close>

text \<open>
  A connector is a union of a socket and a pointer to an SSL connection; which member is
  valid is known from the kind that every call is given. Reading the other member is an
  error of the model. OpenSSL is not part of the repository: whether it accepts a
  certificate and a key are parameters (\<open>openssl\<close>), its objects are numbers, and every
  call that changes something outside the program is an event of the trace \<open>io\<close>.
\<close>

datatype httpserv_net_connector_kind_t =
    HTTPSERV_NET_CONNECTOR_SSL
  | HTTPSERV_NET_CONNECTOR_SCK

text \<open>\<open>None\<close> is a field that was never written.\<close>

record httpserv_ssl_t =
  ssl_ctx :: nat
  ssl :: "nat option"
  certchains :: "string option"
  privkey :: "string option"

datatype httpserv_net_connector_t =
    ConnUnset
  | SslConn "httpserv_ssl_t option"
  | SckConn int

subsection \<open>The world outside\<close>

datatype io_event =
    Written int string
  | SslWritten nat string
  | Closed int
  | SslShutdown nat
  | SslFreed nat
  | CtxFreed nat
  | Bound int "16 word"
  | Listening int

text \<open>
  \<open>arrivals\<close> are the pieces in which the input of the connection arrives; a read takes
  what it wants of the first piece, and nothing at the end of the input.
\<close>

record net =
  io :: "io_event list"
  arrivals :: "string list"
  next_obj :: nat
  ssl_fd :: "nat \<Rightarrow> int"

record openssl =
  cert_ok :: "string \<Rightarrow> bool"
  key_ok :: "string \<Rightarrow> bool"
  key_fits :: "string \<Rightarrow> string \<Rightarrow> bool"

definition emit :: "io_event list \<Rightarrow> net \<Rightarrow> net" where
  "emit es w = w\<lparr>io := io w @ es\<rparr>"

fun take_arrived :: "nat \<Rightarrow> string list \<Rightarrow> string \<times> string list" where
  "take_arrived n [] = ([], [])"
| "take_arrived n ([] # ss) = take_arrived n ss"
| "take_arrived n ((c # s) # ss) = (take n (c # s), drop n (c # s) # ss)"

text \<open>Reading into a buffer: the bytes that arrive are stored at its beginning.\<close>

definition sys_read :: "block \<Rightarrow> nat \<Rightarrow> net \<Rightarrow> (block \<times> net) res" where
  "sys_read buf n w = (let (s, ss) = take_arrived n (arrivals w) in
     bindR (wr_run buf 0 s) (\<lambda>buf'. Inr (buf', w\<lparr>arrivals := ss\<rparr>)))"

subsection \<open>SSL (src/net/ssl.c)\<close>

definition SSL_new :: "net \<Rightarrow> nat \<times> net" where
  "SSL_new w = (next_obj w, w\<lparr>next_obj := next_obj w + 1, ssl_fd := (ssl_fd w)(next_obj w := -1)\<rparr>)"

definition SSL_CTX_new :: "net \<Rightarrow> nat \<times> net" where
  "SSL_CTX_new w = (next_obj w, w\<lparr>next_obj := next_obj w + 1\<rparr>)"

definition SSL_set_fd :: "nat \<Rightarrow> int \<Rightarrow> net \<Rightarrow> net" where
  "SSL_set_fd s fd w = w\<lparr>ssl_fd := (ssl_fd w)(s := fd)\<rparr>"

text \<open>Using a field that may be unset.\<close>

definition the_set :: "'a option \<Rightarrow> 'a res" where
  "the_set x = (case x of None \<Rightarrow> Inl Uninit | Some y \<Rightarrow> Inr y)"

definition httpserv_ssl_destroy :: "httpserv_ssl_t \<Rightarrow> net \<Rightarrow> net res" where
  "httpserv_ssl_destroy s w =
     bindR (the_set (ssl s)) (\<lambda>h.
     let w1 = emit [SslShutdown h, Closed (ssl_fd w h)] w in
     bindR (the_set (certchains s)) (\<lambda>_.
     bindR (the_set (privkey s)) (\<lambda>_.
       Inr (emit [SslFreed h, CtxFreed (ssl_ctx s)] w1))))"

definition httpserv_ssl_init :: "openssl \<Rightarrow> string option \<Rightarrow> string option \<Rightarrow> net
    \<Rightarrow> (httpserv_ssl_t option \<times> log_event list \<times> net) res" where
  "httpserv_ssl_init lib privkeyfile certfile w =
     (case (privkeyfile, certfile) of
       (Some k, Some c) \<Rightarrow>
         (let (ctx, w1) = SSL_CTX_new w;
              s = \<lparr>ssl_ctx = ctx, ssl = None, certchains = Some c, privkey = Some k\<rparr>
          in if \<not> cert_ok lib c then bindR (httpserv_ssl_destroy s w1) (\<lambda>w2. Inr (None, [], w2))
             else if \<not> key_ok lib k then bindR (httpserv_ssl_destroy s w1) (\<lambda>w2. Inr (None, [], w2))
             else if \<not> key_fits lib c k then
               bindR (httpserv_ssl_destroy s w1) (\<lambda>w2.
                 Inr (None, [(ERR, ''private key and public certificate don'' @ [CHR 0x27] @ ''t match'')], w2))
             else (let (h, w2) = SSL_new w1 in Inr (Some (s\<lparr>ssl := Some h\<rparr>), [], w2)))
     | _ \<Rightarrow> Inr (None, [], w))"

definition httpserv_ssl_init_conn :: "nat \<Rightarrow> int \<Rightarrow> net \<Rightarrow> httpserv_ssl_t \<times> net" where
  "httpserv_ssl_init_conn ctx fd w =
     (let (h, w1) = SSL_new w in
      (\<lparr>ssl_ctx = ctx, ssl = Some h, certchains = None, privkey = None\<rparr>, SSL_set_fd h fd w1))"

subsection \<open>Connectors (src/net/connector.c)\<close>

definition httpserv_net_connector_init :: httpserv_net_connector_t where
  "httpserv_net_connector_init = ConnUnset"

text \<open>The two members of the union.\<close>

fun sck_conn :: "httpserv_net_connector_t \<Rightarrow> int res" where
  "sck_conn ConnUnset = Inl Uninit"
| "sck_conn (SslConn s) = Inl WrongMember"
| "sck_conn (SckConn fd) = Inr fd"

fun ssl_conn :: "httpserv_net_connector_t \<Rightarrow> httpserv_ssl_t option res" where
  "ssl_conn ConnUnset = Inl Uninit"
| "ssl_conn (SslConn s) = Inr s"
| "ssl_conn (SckConn fd) = Inl WrongMember"

text \<open>\<open>conn->ssl_conn->ssl\<close>.\<close>

definition conn_ssl :: "httpserv_net_connector_t \<Rightarrow> nat res" where
  "conn_ssl conn = bindR (ssl_conn conn) (\<lambda>p. bindR (deref p) (\<lambda>s. the_set (ssl s)))"

definition httpserv_net_connector_read :: "httpserv_net_connector_t \<Rightarrow> httpserv_net_connector_kind_t
    \<Rightarrow> block \<Rightarrow> nat \<Rightarrow> net \<Rightarrow> (block \<times> net) res" where
  "httpserv_net_connector_read conn conn_kind buffer n w = (case conn_kind of
     HTTPSERV_NET_CONNECTOR_SCK \<Rightarrow> bindR (sck_conn conn) (\<lambda>_. sys_read buffer n w)
   | HTTPSERV_NET_CONNECTOR_SSL \<Rightarrow> bindR (conn_ssl conn) (\<lambda>_. sys_read buffer n w))"

definition httpserv_net_connector_write :: "httpserv_net_connector_t \<Rightarrow> httpserv_net_connector_kind_t
    \<Rightarrow> string \<Rightarrow> net \<Rightarrow> net res" where
  "httpserv_net_connector_write conn knd s w = (case knd of
     HTTPSERV_NET_CONNECTOR_SCK \<Rightarrow> bindR (sck_conn conn) (\<lambda>fd. Inr (emit [Written fd s] w))
   | HTTPSERV_NET_CONNECTOR_SSL \<Rightarrow> bindR (conn_ssl conn) (\<lambda>h. Inr (emit [SslWritten h s] w)))"

definition httpserv_net_connector_get_fd :: "httpserv_net_connector_t \<Rightarrow> httpserv_net_connector_kind_t
    \<Rightarrow> net \<Rightarrow> int res" where
  "httpserv_net_connector_get_fd conn ckind w = (case ckind of
     HTTPSERV_NET_CONNECTOR_SCK \<Rightarrow> sck_conn conn
   | HTTPSERV_NET_CONNECTOR_SSL \<Rightarrow> bindR (conn_ssl conn) (\<lambda>h. Inr (ssl_fd w h)))"

definition httpserv_net_connector_destroy :: "httpserv_net_connector_t \<Rightarrow> httpserv_net_connector_kind_t
    \<Rightarrow> net \<Rightarrow> net res" where
  "httpserv_net_connector_destroy conn knd w = (case knd of
     HTTPSERV_NET_CONNECTOR_SCK \<Rightarrow> bindR (sck_conn conn) (\<lambda>fd. Inr (emit [Closed fd] w))
   | HTTPSERV_NET_CONNECTOR_SSL \<Rightarrow>
       bindR (ssl_conn conn) (\<lambda>p. bindR (deref p) (\<lambda>s. httpserv_ssl_destroy s w)))"

definition httpserv_net_connector_destroy_connection :: "httpserv_net_connector_t
    \<Rightarrow> httpserv_net_connector_kind_t \<Rightarrow> net \<Rightarrow> net res" where
  "httpserv_net_connector_destroy_connection conn ckind w = (case ckind of
     HTTPSERV_NET_CONNECTOR_SCK \<Rightarrow> bindR (sck_conn conn) (\<lambda>fd. Inr (emit [Closed fd] w))
   | HTTPSERV_NET_CONNECTOR_SSL \<Rightarrow>
       bindR (conn_ssl conn) (\<lambda>h. Inr (emit [Closed (ssl_fd w h), SslFreed h] w)))"

end
