(* ===== verification/Resource.thy ===== *)
theory Resource
  imports Connector Stringh
begin

section \<open>Resources and their loader (include/resource.h, src/resource.c)\<close>

text \<open>
  A resource is a file mapped into memory; the loader keeps the preloaded ones in a linked
  list under a mutex. The operating system is the record \<open>files\<close>: whether a path may be
  read, its size, the descriptor \<open>open\<close> returns given the descriptors in use (negative when
  it fails), the bytes \<open>mmap\<close> maps, and the text of \<open>strerror (errno)\<close>. Descriptors the
  module opens and never closes, and mappings it makes, are counted in the state.
\<close>

record httpserv_resource_t =
  res_path :: string
  contents :: string
  res_size :: nat
  fd :: int
  res_next :: ref

record httpserv_resource_loader_t =
  load_head :: ref
  load_mutex :: bool
  root :: string

record files =
  os_access :: "string \<Rightarrow> bool"
  os_stat :: "string \<Rightarrow> nat option"
  os_open :: "int list \<Rightarrow> string \<Rightarrow> int"
  os_mmap :: "string \<Rightarrow> nat \<Rightarrow> string option"
  os_strerror :: string

record resource_state =
  resources :: "httpserv_resource_t store"
  loaders :: "httpserv_resource_loader_t store"
  open_fds :: "int list"
  mapped :: nat

subsection \<open>Resources\<close>

text \<open>\<open>mmap\<close> of length zero fails, whatever the file.\<close>

definition sys_mmap :: "files \<Rightarrow> string \<Rightarrow> nat \<Rightarrow> string option" where
  "sys_mmap os path n = (if n = 0 then None else os_mmap os path n)"

definition httpserv_resource_new :: "files \<Rightarrow> string \<Rightarrow> resource_state
    \<Rightarrow> ref \<times> log_event list \<times> resource_state" where
  "httpserv_resource_new os path st =
     (if \<not> os_access os path then (None, [], st)
      else case os_stat os path of
        None \<Rightarrow> (None, [], st)
      | Some fsize \<Rightarrow>
          (let f = os_open os (open_fds st) path in
           if f < 0 then (None, [(ERR, ''failed to open file: '' @ os_strerror os)], st)
           else
             (let st1 = st\<lparr>open_fds := f # open_fds st\<rparr> in
              case sys_mmap os path fsize of
                None \<Rightarrow> (None, [(ERR, ''failed to map file: '' @ os_strerror os)], st1)
              | Some bytes \<Rightarrow>
                  (let (a, rs) = alloc (resources st1)
                     \<lparr>res_path = path, contents = bytes, res_size = fsize, fd = f, res_next = None\<rparr>
                   in (Some a, [], st1\<lparr>resources := rs, mapped := mapped st1 + 1\<rparr>)))))"

definition httpserv_resource_write_to_fd :: "ref \<Rightarrow> int \<Rightarrow> resource_state \<Rightarrow> net \<Rightarrow> net res" where
  "httpserv_resource_write_to_fd res fd' st w =
     (if res = None then Inr w
      else bindR (load (resources st) res) (\<lambda>r.
        bindR (rd_all (map Some (contents r)) (res_size r)) (\<lambda>s. Inr (emit [Written fd' s] w))))"

definition httpserv_resource_write_to_conn :: "ref \<Rightarrow> httpserv_net_connector_t option
    \<Rightarrow> httpserv_net_connector_kind_t \<Rightarrow> resource_state \<Rightarrow> net \<Rightarrow> net res" where
  "httpserv_resource_write_to_conn res conn ckind st w =
     (case conn of
       None \<Rightarrow> Inr w
     | Some c \<Rightarrow>
         if res = None then Inr w
         else bindR (load (resources st) res) (\<lambda>r.
           bindR (rd_all (map Some (contents r)) (res_size r)) (\<lambda>s.
           case ckind of
             HTTPSERV_NET_CONNECTOR_SCK \<Rightarrow> bindR (sck_conn c) (\<lambda>f. Inr (emit [Written f s] w))
           | HTTPSERV_NET_CONNECTOR_SSL \<Rightarrow> bindR (conn_ssl c) (\<lambda>h. Inr (emit [SslWritten h s] w)))))"

definition httpserv_resource_destroy :: "ref \<Rightarrow> resource_state \<Rightarrow> resource_state res" where
  "httpserv_resource_destroy res st =
     (if res = None then Inr st
      else bindR (load (resources st) res) (\<lambda>_.
        bindR (release (resources st) res) (\<lambda>rs.
          Inr (st\<lparr>resources := rs, mapped := mapped st - 1\<rparr>))))"

subsection \<open>The loader\<close>

definition httpserv_resource_loader_new :: "bool \<Rightarrow> string option \<Rightarrow> resource_state \<Rightarrow> ref \<times> resource_state" where
  "httpserv_resource_loader_new mutex_ok rt st =
     (case rt of
       None \<Rightarrow> (None, st)
     | Some r \<Rightarrow>
         if mutex_ok then
           (let (a, ls) = alloc (loaders st) \<lparr>load_head = None, load_mutex = False, root = r\<rparr>
            in (Some a, st\<lparr>loaders := ls\<rparr>))
         else (None, st))"

text \<open>
  The names are built in a fresh block. \<open>junk\<close> are the bytes \<open>malloc\<close> happens to return:
  \<open>preload\<close> copies the root without its NUL and appends to what it finds.
\<close>

definition malloc_junk :: "block \<Rightarrow> nat \<Rightarrow> block" where
  "malloc_junk junk n = take n junk @ replicate (n - length junk) None"

definition preload_name :: "block \<Rightarrow> string \<Rightarrow> string \<Rightarrow> string res" where
  "preload_name junk rt path =
     bindR (strncpy (malloc_junk junk (length rt + length path + 1)) rt (length rt)) (\<lambda>b.
     bindR (strcat b path) cstr_of)"

definition real_path :: "string \<Rightarrow> string \<Rightarrow> string res" where
  "real_path rt path =
     bindR (strncpy (malloc (length rt + length path + 1)) rt (length rt + 1)) (\<lambda>b.
     bindR (strcat b path) cstr_of)"

definition httpserv_resource_loader_preload :: "files \<Rightarrow> block \<Rightarrow> ref \<Rightarrow> string option \<Rightarrow> resource_state
    \<Rightarrow> (log_event list \<times> resource_state) run" where
  "httpserv_resource_loader_preload os junk resload path st =
     (case path of
       None \<Rightarrow> ret ([], st)
     | Some p \<Rightarrow>
         if resload = None then ret ([], st)
         else
           bindX (lift_res (load (loaders st) resload)) (\<lambda>l.
           bindX (lock (load_mutex l)) (\<lambda>held.
           bindX (lift_res (preload_name junk (root l) p)) (\<lambda>name.
           bindX (find_from res_next (\<lambda>r. httpserv_streq (res_path r) name = 0) (resources st) (load_head l))
             (\<lambda>cur.
             if cur \<noteq> None then
               bindX (lift_res (assign (loaders st) resload (l\<lparr>load_mutex := held\<rparr>))) (\<lambda>ls.
                 ret ([], st\<lparr>loaders := ls\<rparr>))
             else
               (let (res, ev, st1) = httpserv_resource_new os name st in
                bindX (lift_res (load (resources st1) res)) (\<lambda>r.
                bindX (lift_res (assign (resources st1) res (r\<lparr>res_next := load_head l\<rparr>))) (\<lambda>rs.
                bindX (lift_res (assign (loaders st1) resload
                    (l\<lparr>load_head := res, load_mutex := unlock held\<rparr>))) (\<lambda>ls.
                  ret (ev, st1\<lparr>resources := rs, loaders := ls\<rparr>))))))))))"

definition httpserv_resource_loader_load :: "files \<Rightarrow> ref \<Rightarrow> string option \<Rightarrow> resource_state
    \<Rightarrow> (ref \<times> log_event list \<times> resource_state) run" where
  "httpserv_resource_loader_load os resload path st =
     (case path of
       None \<Rightarrow> ret (None, [], st)
     | Some p \<Rightarrow>
         if resload = None then ret (None, [], st)
         else
           bindX (lift_res (load (loaders st) resload)) (\<lambda>l.
           bindX (lock (load_mutex l)) (\<lambda>held.
           bindX (lift_res (real_path (root l) p)) (\<lambda>name.
           bindX (find_from res_next (\<lambda>r. httpserv_streq (res_path r) name = 0) (resources st) (load_head l))
             (\<lambda>cur. if cur \<noteq> None then ret (cur, [], st) else ret (httpserv_resource_new os name st))))))"

text \<open>The entries are freed without their paths, mappings and descriptors.\<close>

definition httpserv_resource_loader_destroy :: "ref \<Rightarrow> resource_state \<Rightarrow> resource_state run" where
  "httpserv_resource_loader_destroy resload st =
     (if resload = None then ret st
      else
        bindX (lift_res (load (loaders st) resload)) (\<lambda>l.
        bindX (release_from res_next (resources st) (load_head l)) (\<lambda>rs.
        bindX (lift_res (release (loaders st) resload)) (\<lambda>ls.
          ret (st\<lparr>resources := rs, loaders := ls\<rparr>)))))"

end
