(* ===== verification/ResourceProps.thy ===== *)
theory ResourceProps
  imports Resource Registry
begin

section \<open>Properties of the resource loader\<close>

text \<open>
  What \<open>load\<close> returns and leaves behind, and the three ways in which \<open>preload\<close> goes wrong.
  The registry contract is discharged for preloading in memory that happens to be zero.
\<close>

subsection \<open>The names\<close>

lemma drop_fresh: "drop n (x # replicate (n + m) x) = x # replicate m x"
  using drop_replicate [of n "n + Suc m" x] by (simp del: drop_replicate)

lemma real_path_holds:
  assumes "no_nul rt" and "no_nul p"
  shows "real_path rt p = Inr (rt @ p)"
proof -
  define b where "b = map Some rt @ Some NUL # replicate (length p) None"
  have "strncpy (malloc (length rt + length p + 1)) rt (length rt + 1) = Inr b"
    by (simp add: strncpy_def wr_run_def malloc_def b_def)
  moreover have "cstr_of b = Inr rt" unfolding b_def by (rule cstr_of_mem [OF assms(1)])
  moreover have "length b = length rt + length p + 1" by (simp add: b_def)
  ultimately show ?thesis
    using strcat_holds [of b rt p] assms(2) by (auto simp: real_path_def)
qed

lemma cstr_of_unset: "no_nul s \<Longrightarrow> cstr_of (map Some s @ None # r) = Inl Uninit"
  by (induction s) auto

lemma preload_name_uninit:
  assumes "no_nul rt"
  shows "preload_name [] rt p = Inl Uninit"
proof -
  have "strncpy (malloc_junk [] (length rt + length p + 1)) rt (length rt)
      = Inr (map Some rt @ None # replicate (length p) None)"
    by (simp add: strncpy_def wr_run_def malloc_junk_def drop_fresh)
  then show ?thesis
    using cstr_of_unset [OF assms] by (simp add: preload_name_def strcat_def strlen_def)
qed

lemma preload_name_zero:
  assumes "no_nul rt" and "no_nul p" and "length rt + length p < k"
  shows "preload_name (replicate k (Some NUL)) rt p = Inr (rt @ p)"
proof -
  define b where "b = map Some rt @ Some NUL # replicate (length p) (Some NUL)"
  have "strncpy (malloc_junk (replicate k (Some NUL)) (length rt + length p + 1)) rt (length rt) = Inr b"
    using assms(3) by (simp add: strncpy_def wr_run_def malloc_junk_def b_def min_def drop_fresh)
  moreover have "cstr_of b = Inr rt" unfolding b_def by (rule cstr_of_mem [OF assms(1)])
  moreover have "length b = length rt + length p + 1" by (simp add: b_def)
  ultimately show ?thesis
    using strcat_holds [of b rt p] assms(2) by (auto simp: preload_name_def)
qed

subsection \<open>A loader and its entries\<close>

definition loader_at :: "nat \<Rightarrow> string \<Rightarrow> resource_state \<Rightarrow> nat list \<Rightarrow> bool" where
  "loader_at a rt st as \<longleftrightarrow> wf_store (resources st) \<and> no_nul rt
     \<and> (\<exists>l. cells (loaders st) a = Some l \<and> \<not> load_mutex l \<and> root l = rt
          \<and> linked res_next (cells (resources st)) (load_head l) as)
     \<and> (\<forall>r \<in> set (values_of (cells (resources st)) as). no_nul (res_path r))"

text \<open>The address of the cached resource with a full path.\<close>

definition cached :: "resource_state \<Rightarrow> nat list \<Rightarrow> string \<Rightarrow> ref" where
  "cached st as name = find (\<lambda>b. res_path (the (cells (resources st) b)) = name) as"

lemma loader_search:
  assumes "loader_at a rt st as" and "cells (loaders st) a = Some l" and "no_nul name"
  shows "find_from res_next (\<lambda>r. httpserv_streq (res_path r) name = 0) (resources st) (load_head l)
    = ret (cached st as name)"
proof -
  have "linked res_next (cells (resources st)) (load_head l) as"
    and nn: "\<forall>b \<in> set as. no_nul (res_path (the (cells (resources st) b)))"
    using assms(1,2) by (auto simp: loader_at_def values_of_def)
  from find_from_linked [OF this(1), of "\<lambda>r. httpserv_streq (res_path r) name = 0"] show ?thesis
    using nn assms(3) by (auto simp: cached_def ret_def intro!: find_eqI)
qed

text \<open>Loading, without its NUL-terminated paper work.\<close>

lemma load_outcome:
  assumes "loader_at a rt st as" and "no_nul p"
  shows "httpserv_resource_loader_load os (Some a) (Some p) st =
    (case cached st as (rt @ p) of
       Some b \<Rightarrow> ret (Some b, [], st)
     | None \<Rightarrow> ret (httpserv_resource_new os (rt @ p) st))"
proof -
  obtain l where l: "cells (loaders st) a = Some l" "\<not> load_mutex l" "root l = rt" "no_nul rt"
    using assms(1) by (auto simp: loader_at_def)
  from loader_search [OF assms(1) l(1), of "rt @ p"] show ?thesis
    using l assms(2) real_path_holds [of rt p]
    by (cases "cached st as (rt @ p)")
      (simp_all add: httpserv_resource_loader_load_def heap_simps ret_def)
qed

lemma fresh_not_listed: "loader_at a rt st as \<Longrightarrow> fresh (resources st) \<notin> set as"
  using linked_live by (fastforce simp: loader_at_def wf_store_def)

text \<open>When the operating system can provide a file.\<close>

definition provides :: "files \<Rightarrow> int list \<Rightarrow> string \<Rightarrow> string \<Rightarrow> bool" where
  "provides os fds name bytes \<longleftrightarrow> os_access os name \<and> os_stat os name = Some (length bytes)
     \<and> 0 \<le> os_open os fds name \<and> sys_mmap os name (length bytes) = Some bytes"

lemma resource_new_provided:
  assumes "provides os (open_fds st) name bytes"
  shows "httpserv_resource_new os name st = (Some (fresh (resources st)), [],
    st\<lparr>open_fds := os_open os (open_fds st) name # open_fds st, mapped := mapped st + 1,
      resources := snd (alloc (resources st) \<lparr>res_path = name, contents = bytes, res_size = length bytes,
        fd = os_open os (open_fds st) name, res_next = None\<rparr>)\<rparr>)"
  using assms by (simp add: httpserv_resource_new_def provides_def alloc_def Let_def)

text \<open>A file without bytes cannot be mapped: it counts as missing, and its descriptor stays open.\<close>

lemma resource_new_empty:
  assumes "os_access os name" and "os_stat os name = Some 0" and "0 \<le> os_open os (open_fds st) name"
  shows "httpserv_resource_new os name st = (None, [(ERR, ''failed to map file: '' @ os_strerror os)],
    st\<lparr>open_fds := os_open os (open_fds st) name # open_fds st\<rparr>)"
  using assms by (simp add: httpserv_resource_new_def sys_mmap_def Let_def)

lemma loader_at_alloc:
  assumes "loader_at a rt st as"
  shows "loader_at a rt (st\<lparr>open_fds := f, mapped := m, resources := snd (alloc (resources st) r)\<rparr>) as"
    and "cached (st\<lparr>open_fds := f, mapped := m, resources := snd (alloc (resources st) r)\<rparr>) as = cached st as"
proof -
  have wf: "wf_store (resources st)" using assms by (simp add: loader_at_def)
  obtain l where l: "cells (loaders st) a = Some l" "linked res_next (cells (resources st)) (load_head l) as"
    using assms by (auto simp: loader_at_def)
  have new: "fresh (resources st) \<notin> set as"
    using linked_live [OF l(2)] wf by (auto simp: wf_store_def)
  then show "loader_at a rt (st\<lparr>open_fds := f, mapped := m, resources := snd (alloc (resources st) r)\<rparr>) as"
    using assms by (auto simp: loader_at_def alloc_def linked_frame values_of_frame wf_store_def less_Suc_eq)
  show "cached (st\<lparr>open_fds := f, mapped := m, resources := snd (alloc (resources st) r)\<rparr>) as = cached st as"
    using new by (auto simp: cached_def alloc_def fun_eq_iff intro!: find_eqI)
qed

lemma resource_new_keeps:
  assumes "loader_at a rt st as" and "httpserv_resource_new os name st = (r, ev, st')"
  shows "loader_at a rt st' as \<and> cached st' as = cached st as"
proof -
  have "\<exists>f m x. st' = st\<lparr>open_fds := f, mapped := m, resources := snd (alloc (resources st) x)\<rparr> \<or> st' = st\<lparr>open_fds := f\<rparr>"
    using assms(2) by (cases st) (auto simp: httpserv_resource_new_def Let_def alloc_def split: if_splits option.splits)
  moreover have "loader_at a rt (st\<lparr>open_fds := f\<rparr>) as \<and> cached (st\<lparr>open_fds := f\<rparr>) as = cached st as" for f
    using assms(1) by (auto simp: loader_at_def cached_def)
  ultimately show ?thesis using loader_at_alloc [OF assms(1)] by auto
qed

subsection \<open>Preloading\<close>

text \<open>Memory that happens to be zero, and enough of it.\<close>

definition zero_junk :: "block \<Rightarrow> string \<Rightarrow> string \<Rightarrow> bool" where
  "zero_junk junk rt p \<longleftrightarrow> (\<exists>k > length rt + length p. junk = replicate k (Some NUL))"

lemma zero_junk_name: "zero_junk junk rt p \<Longrightarrow> no_nul rt \<Longrightarrow> no_nul p \<Longrightarrow> preload_name junk rt p = Inr (rt @ p)"
  using preload_name_zero by (auto simp: zero_junk_def)

lemma preload_cached:
  assumes "loader_at a rt st as" and "no_nul p" and "zero_junk junk rt p"
    and "cached st as (rt @ p) = Some b" and "cells (loaders st) a = Some l"
  shows "httpserv_resource_loader_preload os junk (Some a) (Some p) st =
    ret ([], st\<lparr>loaders := (loaders st)\<lparr>cells := (cells (loaders st))(a \<mapsto> l\<lparr>load_mutex := True\<rparr>)\<rparr>\<rparr>)"
proof -
  have l: "\<not> load_mutex l" "root l = rt" "no_nul rt" using assms(1,5) by (auto simp: loader_at_def)
  with loader_search [OF assms(1,5), of "rt @ p"] zero_junk_name [OF assms(3)] assms(2,4,5) show ?thesis
    by (simp add: httpserv_resource_loader_preload_def heap_simps ret_def)
qed

lemma preload_missing:
  assumes "loader_at a rt st as" and "no_nul p" and "zero_junk junk rt p"
    and "cached st as (rt @ p) = None" and "fst (httpserv_resource_new os (rt @ p) st) = None"
  shows "httpserv_resource_loader_preload os junk (Some a) (Some p) st = Some (Inl NullDeref)"
proof -
  obtain l where l: "cells (loaders st) a = Some l" "\<not> load_mutex l" "root l = rt" "no_nul rt"
    using assms(1) by (auto simp: loader_at_def)
  obtain ev st1 where "httpserv_resource_new os (rt @ p) st = (None, ev, st1)"
    using assms(5) by (cases "httpserv_resource_new os (rt @ p) st") auto
  with l loader_search [OF assms(1) l(1), of "rt @ p"] zero_junk_name [OF assms(3)] assms(2,4) show ?thesis
    by (simp add: httpserv_resource_loader_preload_def heap_simps ret_def)
qed

lemma preload_new:
  assumes "loader_at a rt st as" and "no_nul p" and "zero_junk junk rt p"
    and "cached st as (rt @ p) = None" and "provides os (open_fds st) (rt @ p) bytes"
  shows "\<exists>st' b r. httpserv_resource_loader_preload os junk (Some a) (Some p) st = ret ([], st')
    \<and> loader_at a rt st' (b # as) \<and> b \<notin> set as \<and> cells (resources st') b = Some r
    \<and> res_path r = rt @ p \<and> contents r = bytes
    \<and> values_of (cells (resources st')) as = values_of (cells (resources st)) as"
proof -
  obtain l where l: "cells (loaders st) a = Some l" "\<not> load_mutex l" "root l = rt" "no_nul rt"
    "linked res_next (cells (resources st)) (load_head l) as"
    and wf: "wf_store (resources st)" using assms(1) by (auto simp: loader_at_def)
  let ?b = "fresh (resources st)"
  define r where "r = \<lparr>res_path = rt @ p, contents = bytes, res_size = length bytes,
    fd = os_open os (open_fds st) (rt @ p), res_next = load_head l\<rparr>"
  define st' where "st' = st\<lparr>open_fds := os_open os (open_fds st) (rt @ p) # open_fds st, mapped := mapped st + 1,
    resources := \<lparr>cells = (cells (resources st))(?b \<mapsto> r), fresh = ?b + 1\<rparr>,
    loaders := (loaders st)\<lparr>cells := (cells (loaders st))(a \<mapsto> l\<lparr>load_head := Some ?b, load_mutex := False\<rparr>)\<rparr>\<rparr>"
  have new: "?b \<notin> set as" using linked_live [OF l(5)] wf by (auto simp: wf_store_def)
  have "httpserv_resource_loader_preload os junk (Some a) (Some p) st = ret ([], st')"
    using l loader_search [OF assms(1) l(1), of "rt @ p"] zero_junk_name [OF assms(3)] assms(2,4)
    by (simp add: httpserv_resource_loader_preload_def heap_simps ret_def resource_new_provided [OF assms(5)]
        alloc_def st'_def r_def)
  moreover have "loader_at a rt st' (?b # as)"
    using assms(1,2) l new wf
    by (auto simp: loader_at_def st'_def r_def linked_frame values_of_frame wf_store_def less_Suc_eq)
  ultimately show ?thesis
    using new by (intro exI [of _ st'] exI [of _ ?b] exI [of _ r]) (simp add: st'_def r_def values_of_frame)
qed

subsection \<open>The loader as a registry\<close>

definition resource_entry :: "string \<Rightarrow> httpserv_resource_t \<Rightarrow> string \<times> string" where
  "resource_entry rt r = (drop (length rt) (res_path r), contents r)"

definition loader_has :: "nat \<Rightarrow> string \<Rightarrow> resource_state \<Rightarrow> (string \<times> string) list \<Rightarrow> bool" where
  "loader_has a rt st es \<longleftrightarrow> (\<exists>as. loader_at a rt st as
     \<and> map (resource_entry rt) (values_of (cells (resources st)) as) = es
     \<and> (\<forall>r \<in> set (values_of (cells (resources st)) as). take (length rt) (res_path r) = rt))"

definition preloadable :: "files \<Rightarrow> block \<Rightarrow> string \<Rightarrow> (string \<times> string) list \<Rightarrow> string \<times> string \<Rightarrow> bool" where
  "preloadable os junk rt es e \<longleftrightarrow> no_nul (fst e) \<and> zero_junk junk rt (fst e) \<and> fst e \<notin> fst ` set es
     \<and> (\<forall>fds. provides os fds (rt @ fst e) (snd e))"

definition loader_add :: "files \<Rightarrow> block \<Rightarrow> nat \<Rightarrow> string \<times> string \<Rightarrow> resource_state \<Rightarrow> resource_state run" where
  "loader_add os junk a e st =
     bindX (httpserv_resource_loader_preload os junk (Some a) (Some (fst e)) st) (\<lambda>(ev, st'). ret st')"

definition loader_search_entry :: "nat \<Rightarrow> string \<Rightarrow> (string \<times> string \<Rightarrow> bool) \<Rightarrow> resource_state
    \<Rightarrow> (string \<times> string) option run" where
  "loader_search_entry a rt q st =
     bindX (lift_res (load (loaders st) (Some a))) (\<lambda>l.
     bindX (find_from res_next (\<lambda>r. q (resource_entry rt r)) (resources st) (load_head l)) (\<lambda>cur.
     case cur of None \<Rightarrow> ret None
     | Some b \<Rightarrow> bindX (lift_res (load (resources st) (Some b))) (\<lambda>r. ret (Some (resource_entry rt r)))))"

lemma cached_None_iff:
  "cached st as name = None \<longleftrightarrow> (\<forall>r \<in> set (values_of (cells (resources st)) as). res_path r \<noteq> name)"
  by (auto simp: cached_def find_None_iff values_of_def)

lemma loader_add_has:
  assumes "loader_has a rt st es" and "preloadable os junk rt es e"
  shows "\<exists>st'. loader_add os junk a e st = ret st' \<and> loader_has a rt st' (e # es)"
proof -
  obtain as where as: "loader_at a rt st as" "map (resource_entry rt) (values_of (cells (resources st)) as) = es"
    "\<forall>r \<in> set (values_of (cells (resources st)) as). take (length rt) (res_path r) = rt"
    using assms(1) by (auto simp: loader_has_def)
  obtain p bytes where e: "e = (p, bytes)" by (cases e)
  have "cached st as (rt @ p) = None"
    using assms(2) as(2) by (force simp: cached_None_iff preloadable_def e resource_entry_def)
  with preload_new [OF as(1), of p junk os bytes] assms(2) obtain st' b r where st':
    "httpserv_resource_loader_preload os junk (Some a) (Some p) st = ret ([], st')"
    "loader_at a rt st' (b # as)" "cells (resources st') b = Some r" "res_path r = rt @ p" "contents r = bytes"
    "values_of (cells (resources st')) as = values_of (cells (resources st)) as"
    by (auto simp: preloadable_def e)
  then have "loader_has a rt st' (e # es)"
    using as e unfolding loader_has_def by (intro exI [of _ "b # as"]) (simp add: resource_entry_def)
  with st'(1) show ?thesis by (simp add: loader_add_def e ret_def)
qed

lemma loader_search_has:
  assumes "loader_has a rt st es"
  shows "loader_search_entry a rt q st = ret (find q es)"
proof -
  obtain as l where as: "cells (loaders st) a = Some l" "linked res_next (cells (resources st)) (load_head l) as"
    "es = map (\<lambda>b. resource_entry rt (the (cells (resources st) b))) as"
    using assms by (auto simp: loader_has_def loader_at_def values_of_def)
  note loop = find_from_linked [OF as(2), of "\<lambda>r. q (resource_entry rt r)"]
  let ?f = "\<lambda>b. q (resource_entry rt (the (cells (resources st) b)))"
  have es: "find q es = map_option (\<lambda>b. resource_entry rt (the (cells (resources st) b))) (find ?f as)"
    by (simp add: as(3) find_map)
  show ?thesis
  proof (cases "find ?f as")
    case (Some b)
    then obtain r where "cells (resources st) b = Some r" using linked_live [OF as(2)] find_mem by fastforce
    with Some loop as(1) es show ?thesis by (simp add: loader_search_entry_def heap_simps ret_def)
  qed (use loop as(1) es in \<open>simp add: loader_search_entry_def heap_simps ret_def\<close>)
qed

interpretation rl: registry "loader_has a rt" "preloadable os junk rt" "loader_add os junk a"
    "loader_search_entry a rt" for a rt os junk
  using loader_add_has loader_search_has by unfold_locales blast+

text \<open>Looking up what was preloaded.\<close>

lemma later_paths_differ:
  "rl.ok_all os junk rt es ys \<Longrightarrow> p \<in> fst ` set es \<Longrightarrow> e \<in> set ys \<Longrightarrow> fst e \<noteq> p"
proof (induction ys arbitrary: es)
  case (Cons y ys)
  have "preloadable os junk rt es y" using Cons.prems(1) by simp
  with Cons.prems(2) have "fst y \<noteq> p" "p \<in> fst ` set (y # es)" by (auto simp: preloadable_def)
  with Cons.IH [of "y # es"] Cons.prems show ?case by auto
qed simp

lemma preloaded_first:
  "rl.ok_all os junk rt es xs \<Longrightarrow> (p, bytes) \<in> set xs \<Longrightarrow> find (\<lambda>e. fst e = p) (rev xs @ es) = Some (p, bytes)"
proof (induction xs arbitrary: es)
  case (Cons x xs)
  show ?case
  proof (cases "(p, bytes) \<in> set xs")
    case True
    with Cons show ?thesis by simp
  next
    case False
    then have x: "x = (p, bytes)" using Cons.prems(2) by simp
    have "\<forall>e \<in> set (rev xs). fst e \<noteq> p"
      using later_paths_differ [of os junk rt "x # es" xs p] Cons.prems(1) x by auto
    then show ?thesis using x by (simp add: find_skip)
  qed
qed simp

lemma loader_has_load:
  assumes "loader_has a rt st es" and "find (\<lambda>e. fst e = p) es = Some (p, bytes)" and "no_nul p"
  shows "\<exists>b x. httpserv_resource_loader_load os (Some a) (Some p) st = ret (Some b, [], st)
    \<and> cells (resources st) b = Some x \<and> res_path x = rt @ p \<and> contents x = bytes"
proof -
  obtain as where as: "loader_at a rt st as" "es = map (\<lambda>b. resource_entry rt (the (cells (resources st) b))) as"
    "\<forall>b \<in> set as. take (length rt) (res_path (the (cells (resources st) b))) = rt"
    using assms(1) by (auto simp: loader_has_def values_of_def)
  have strip: "drop (length rt) s = p \<longleftrightarrow> s = rt @ p" if "take (length rt) s = rt" for s
    using that by (metis append_eq_conv_conj append_take_drop_id)
  have "cached st as (rt @ p) = find (\<lambda>b. fst (resource_entry rt (the (cells (resources st) b))) = p) as"
    using as(3) strip by (auto simp: cached_def resource_entry_def intro!: find_eqI)
  moreover from assms(2) obtain b where b:
    "find (\<lambda>b. fst (resource_entry rt (the (cells (resources st) b))) = p) as = Some b"
    "resource_entry rt (the (cells (resources st) b)) = (p, bytes)"
    by (auto simp: as(2) find_map)
  moreover have mem: "b \<in> set as" using b(1) by (rule find_mem)
  moreover obtain x where x: "cells (resources st) b = Some x"
    using as(1) mem linked_live by (fastforce simp: loader_at_def)
  moreover have "res_path x = rt @ p"
    using as(3) mem x strip [of "res_path x"] b(2) by (auto simp: resource_entry_def)
  ultimately show ?thesis
    using load_outcome [OF as(1) assms(3), of os]
    by (intro exI [of _ b] exI [of _ x]) (simp add: resource_entry_def)
qed

subsection \<open>Loading again and again\<close>

fun load_times :: "files \<Rightarrow> ref \<Rightarrow> string \<Rightarrow> nat \<Rightarrow> resource_state \<Rightarrow> resource_state run" where
  "load_times os resload p 0 st = ret st"
| "load_times os resload p (Suc n) st =
     bindX (httpserv_resource_loader_load os resload (Some p) st) (\<lambda>(r, ev, st').
       if r = None then ret st' else load_times os resload p n st')"

text \<open>A file that can be opened as long as fewer than \<open>limit\<close> descriptors are in use.\<close>

definition limited_file :: "files \<Rightarrow> nat \<Rightarrow> string \<Rightarrow> string \<Rightarrow> bool" where
  "limited_file os limit name bytes \<longleftrightarrow> os_access os name \<and> os_stat os name = Some (length bytes)
     \<and> sys_mmap os name (length bytes) = Some bytes
     \<and> (\<forall>fds. 0 \<le> os_open os fds name \<longleftrightarrow> length fds < limit)"

lemma limited_provides: "limited_file os limit name bytes \<Longrightarrow> provides os fds name bytes \<longleftrightarrow> length fds < limit"
  by (simp add: limited_file_def provides_def)

lemma load_times_leak:
  assumes "loader_at a rt st as" and "no_nul p" and "cached st as (rt @ p) = None"
    and "limited_file os limit (rt @ p) bytes" and "length (open_fds st) + n \<le> limit"
  shows "\<exists>st'. load_times os (Some a) p n st = ret st' \<and> loader_at a rt st' as \<and> cached st' as (rt @ p) = None
    \<and> length (open_fds st') = length (open_fds st) + n \<and> mapped st' = mapped st + n"
  using assms
proof (induction n arbitrary: st)
  case (Suc n)
  have "provides os (open_fds st) (rt @ p) bytes"
    using Suc.prems(4,5) by (simp add: limited_provides)
  note new = resource_new_provided [OF this]
  define st1 where "st1 = snd (snd (httpserv_resource_new os (rt @ p) st))"
  have st1: "loader_at a rt st1 as" "cached st1 as (rt @ p) = None"
    "length (open_fds st1) = length (open_fds st) + 1" "mapped st1 = mapped st + 1"
    using loader_at_alloc [OF Suc.prems(1)] Suc.prems(3) by (simp_all add: st1_def new)
  have "httpserv_resource_loader_load os (Some a) (Some p) st = ret (Some (fresh (resources st)), [], st1)"
    using load_outcome [OF Suc.prems(1,2)] Suc.prems(3) by (simp add: new st1_def)
  with Suc.IH [OF st1(1) Suc.prems(2) st1(2) Suc.prems(4)] Suc.prems(5) st1(3,4) show ?case
    by (simp add: ret_def)
qed (simp add: ret_def)

subsection \<open>Properties\<close>

text \<open>
  C20: loading a path returns the preloaded resource of that path if there is one, and
  otherwise a new mapping of the file at the root with the path put behind it, unchanged:
  nothing keeps the path below the root. The loader's own list stays as it was, so what was
  loaded is not found by the next call.
\<close>

theorem load_correct:
  assumes "loader_at a rt st as" and "no_nul p"
  shows "\<exists>r ev st'. httpserv_resource_loader_load os (Some a) (Some p) st = ret (r, ev, st')
    \<and> loader_at a rt st' as \<and> cached st' as = cached st as
    \<and> (case cached st as (rt @ p) of
        Some b \<Rightarrow> r = Some b \<and> ev = [] \<and> st' = st
      | None \<Rightarrow> (\<forall>bytes. provides os (open_fds st) (rt @ p) bytes \<longrightarrow>
          (\<exists>b x. r = Some b \<and> b \<notin> set as \<and> cells (resources st') b = Some x
             \<and> res_path x = rt @ p \<and> contents x = bytes \<and> res_size x = length bytes))
          \<and> (\<not> os_access os (rt @ p) \<longrightarrow> r = None \<and> st' = st))"
proof -
  obtain r ev st' where new: "httpserv_resource_new os (rt @ p) st = (r, ev, st')"
    by (cases "httpserv_resource_new os (rt @ p) st")
  have same: "loader_at a rt st' as \<and> cached st' as = cached st as"
    using resource_new_keeps [OF assms(1) new] by blast
  show ?thesis
  proof (cases "cached st as (rt @ p)")
    case (Some b)
    with load_outcome [OF assms] assms(1) show ?thesis by simp
  next
    case None
    have "\<exists>b x. r = Some b \<and> b \<notin> set as \<and> cells (resources st') b = Some x
        \<and> res_path x = rt @ p \<and> contents x = bytes \<and> res_size x = length bytes"
      if "provides os (open_fds st) (rt @ p) bytes" for bytes
      using resource_new_provided [OF that] new fresh_not_listed [OF assms(1)] by (auto simp: alloc_def)
    moreover have "r = None \<and> st' = st" if "\<not> os_access os (rt @ p)"
      using that new by (simp add: httpserv_resource_new_def)
    ultimately show ?thesis
      using load_outcome [OF assms] None same by (auto simp: new)
  qed
qed

text \<open>One file, and a limit on the descriptors.\<close>

definition one_file :: "nat \<Rightarrow> string \<Rightarrow> string \<Rightarrow> files" where
  "one_file limit name bytes = \<lparr>os_access = (\<lambda>p. p = name),
     os_stat = (\<lambda>p. if p = name then Some (length bytes) else None),
     os_open = (\<lambda>fds p. if length fds < limit then int (length fds) else -1),
     os_mmap = (\<lambda>p n. if p = name \<and> n = length bytes then Some bytes else None), os_strerror = ''Too many open files''\<rparr>"

lemma one_file_limited: "bytes \<noteq> [] \<Longrightarrow> limited_file (one_file limit name bytes) limit name bytes"
  by (auto simp: limited_file_def one_file_def sys_mmap_def)

definition new_loader :: "string \<Rightarrow> resource_state" where
  "new_loader rt = snd (httpserv_resource_loader_new True (Some rt)
     \<lparr>resources = empty_store, loaders = empty_store, open_fds = [], mapped = 0\<rparr>)"

lemma new_loader_at: "no_nul rt \<Longrightarrow> loader_at 0 rt (new_loader rt) []"
  by (simp add: new_loader_def httpserv_resource_loader_new_def loader_at_def alloc_def empty_store_def wf_store_def)

lemma new_loader_facts [simp]: "cached (new_loader rt) [] name = None" "open_fds (new_loader rt) = []"
  by (simp_all add: cached_def new_loader_def httpserv_resource_loader_new_def alloc_def)

theorem load_correct_witness:
  "\<exists>r ev st' b x. httpserv_resource_loader_load (one_file 8 ''www/../key'' ''secret'') (Some 0) (Some ''/../key'')
      (new_loader ''www'') = ret (r, ev, st')
    \<and> r = Some b \<and> cells (resources st') b = Some x \<and> contents x = ''secret''"
proof -
  have "provides (one_file 8 ''www/../key'' ''secret'') (open_fds (new_loader ''www'')) (''www'' @ ''/../key'') ''secret''"
    by (simp add: provides_def one_file_def sys_mmap_def)
  then show ?thesis
    using load_correct [OF new_loader_at, of "''www''" "''/../key''" "one_file 8 ''www/../key'' ''secret''"] by fastforce
qed

text \<open>
  every load of a path that was not preloaded opens the file anew and keeps the
  descriptor and the mapping; after as many loads as there are descriptors left, the same
  path is no longer found.
\<close>

theorem loads_exhaust_descriptors:
  assumes "loader_at a rt st as" and "no_nul p" and "cached st as (rt @ p) = None"
    and "limited_file os limit (rt @ p) bytes" and "length (open_fds st) + n = limit"
  shows "\<exists>st'. load_times os (Some a) p n st = ret st' \<and> length (open_fds st') = limit
    \<and> mapped st' = mapped st + n
    \<and> httpserv_resource_loader_load os (Some a) (Some p) st'
        = ret (None, [(ERR, ''failed to open file: '' @ os_strerror os)], st')"
proof -
  from load_times_leak [OF assms(1-4), of n] assms(5) obtain st' where st':
    "load_times os (Some a) p n st = ret st'" "loader_at a rt st' as" "cached st' as (rt @ p) = None"
    "length (open_fds st') = limit" "mapped st' = mapped st + n" by auto
  have "0 \<le> os_open os (open_fds st') (rt @ p) \<longleftrightarrow> length (open_fds st') < limit"
    using assms(4) by (simp add: limited_file_def)
  then have "os_open os (open_fds st') (rt @ p) < 0" using st'(4) by linarith
  then have "httpserv_resource_new os (rt @ p) st' = (None, [(ERR, ''failed to open file: '' @ os_strerror os)], st')"
    using assms(4) by (simp add: httpserv_resource_new_def limited_file_def)
  then have "httpserv_resource_loader_load os (Some a) (Some p) st'
      = ret (None, [(ERR, ''failed to open file: '' @ os_strerror os)], st')"
    by (simp only: load_outcome [OF st'(2) assms(2)] st'(3) option.case)
  with st' show ?thesis by blast
qed

theorem loads_exhaust_descriptors_witness:
  "\<exists>st'. load_times (one_file 3 ''./a'' ''x'') (Some 0) ''/a'' 3 (new_loader ''.'') = ret st'
    \<and> httpserv_resource_loader_load (one_file 3 ''./a'' ''x'') (Some 0) (Some ''/a'') st'
      = ret (None, [(ERR, ''failed to open file: Too many open files'')], st')"
proof -
  let ?os = "one_file 3 ''./a'' ''x''"
  have "limited_file ?os 3 (''.'' @ ''/a'') ''x''" using one_file_limited [of "''x''" 3 "''./a''"] by simp
  moreover have "os_strerror ?os = ''Too many open files''" by (simp add: one_file_def)
  ultimately show ?thesis
    using loads_exhaust_descriptors [of 0 "''.''" "new_loader ''.''" "[]" "''/a''" ?os 3 "''x''" 3]
      new_loader_at [of "''.''"] by auto
qed

text \<open>
  preloading builds the name behind a root without its NUL, in a block that was not
  cleared: with memory that was never written the call reads an uninitialised byte, whatever
  the loader and the path.
\<close>

theorem preload_reads_uninitialised:
  assumes "loader_at a rt st as"
  shows "httpserv_resource_loader_preload os [] (Some a) (Some p) st = Some (Inl Uninit)"
proof -
  obtain l where "cells (loaders st) a = Some l" "\<not> load_mutex l" "root l = rt" "no_nul rt"
    using assms by (auto simp: loader_at_def)
  then show ?thesis
    by (simp add: httpserv_resource_loader_preload_def heap_simps preload_name_uninit)
qed

theorem preload_reads_uninitialised_witness:
  "httpserv_resource_loader_preload (one_file 3 ''./a'' ''x'') [] (Some 0) (Some ''/a'') (new_loader ''.'')
    = Some (Inl Uninit)"
  by (rule preload_reads_uninitialised [OF new_loader_at]) simp

text \<open>
  C34: in memory that happens to be zero, preloading a path for the second time returns with
  the mutex taken: no later load or preload on that loader returns.
\<close>

theorem preload_twice_blocks:
  assumes "loader_at a rt st as" and "no_nul p" and "zero_junk junk rt p"
    and "cached st as (rt @ p) = Some b"
  shows "\<exists>st'. httpserv_resource_loader_preload os junk (Some a) (Some p) st = ret ([], st')
    \<and> httpserv_resource_loader_load os' (Some a) (Some q) st' = None
    \<and> httpserv_resource_loader_preload os' junk' (Some a) (Some q) st' = None"
proof -
  obtain l where l: "cells (loaders st) a = Some l" using assms(1) by (auto simp: loader_at_def)
  from preload_cached [OF assms l, of os] show ?thesis
    by (auto simp: ret_def httpserv_resource_loader_load_def httpserv_resource_loader_preload_def heap_simps)
qed

theorem preload_twice_blocks_witness:
  "\<exists>st' st''. httpserv_resource_loader_preload (one_file 3 ''./a'' ''x'') (replicate 9 (Some NUL)) (Some 0) (Some ''/a'')
      (new_loader ''.'') = ret ([], st')
    \<and> httpserv_resource_loader_preload (one_file 3 ''./a'' ''x'') (replicate 9 (Some NUL)) (Some 0) (Some ''/a'') st'
      = ret ([], st'')
    \<and> httpserv_resource_loader_load (one_file 3 ''./a'' ''x'') (Some 0) (Some ''/b'') st'' = None"
proof -
  let ?os = "one_file 3 ''./a'' ''x''"
  have junk: "zero_junk (replicate 9 (Some NUL)) ''.'' ''/a''"
    unfolding zero_junk_def by (intro exI [of _ 9]) simp
  have "provides ?os (open_fds (new_loader ''.'')) (''.'' @ ''/a'') ''x''"
    by (simp add: provides_def one_file_def sys_mmap_def)
  from preload_new [OF new_loader_at _ junk _ this] obtain st' b r where st':
    "httpserv_resource_loader_preload ?os (replicate 9 (Some NUL)) (Some 0) (Some ''/a'') (new_loader ''.'') = ret ([], st')"
    "loader_at 0 ''.'' st' [b]" "cells (resources st') b = Some r" "res_path r = ''./a''" by auto
  then have "cached st' [b] (''.'' @ ''/a'') = Some b" by (simp add: cached_def)
  from preload_twice_blocks [OF st'(2) _ junk this, of ?os ?os "''/b''"] st'(1) show ?thesis by fastforce
qed

text \<open>
  preloading a file that does not exist, cannot be read, opened or mapped writes through
  \<open>NULL\<close>.
\<close>

theorem preload_missing_file:
  assumes "loader_at a rt st as" and "no_nul p" and "zero_junk junk rt p"
    and "cached st as (rt @ p) = None" and "fst (httpserv_resource_new os (rt @ p) st) = None"
  shows "httpserv_resource_loader_preload os junk (Some a) (Some p) st = Some (Inl NullDeref)"
  using assms by (rule preload_missing)

theorem preload_missing_file_witness:
  "httpserv_resource_loader_preload (one_file 3 ''./a'' ''x'') (replicate 9 (Some NUL)) (Some 0) (Some ''/b'')
     (new_loader ''.'') = Some (Inl NullDeref)"
proof (rule preload_missing_file [OF new_loader_at])
  show "zero_junk (replicate 9 (Some NUL)) ''.'' ''/b''" unfolding zero_junk_def by (intro exI [of _ 9]) simp
  show "fst (httpserv_resource_new (one_file 3 ''./a'' ''x'') (''.'' @ ''/b'') (new_loader ''.'')) = None"
    by (simp add: httpserv_resource_new_def one_file_def)
qed simp_all

text \<open>
  in memory that happens to be zero, preloading paths that are all different and all
  available makes the loader find each of them, with the bytes of its file.
\<close>

theorem preloaded_paths_found:
  assumes "loader_has a rt st es" and "rl.ok_all os junk rt es xs" and "(p, bytes) \<in> set xs" and "no_nul p"
  shows "\<exists>st' b x. rl.add_all os junk a xs st = ret st'
    \<and> httpserv_resource_loader_load os' (Some a) (Some p) st' = ret (Some b, [], st')
    \<and> cells (resources st') b = Some x \<and> res_path x = rt @ p \<and> contents x = bytes"
proof -
  obtain st' where st': "rl.add_all os junk a xs st = ret st'" "loader_has a rt st' (rev xs @ es)"
    using rl.add_all_has [OF assms(1,2)] by blast
  from loader_has_load [OF st'(2) preloaded_first [OF assms(2,3)] assms(4)] st'(1) show ?thesis by blast
qed

theorem preloaded_paths_found_witness:
  "\<exists>os st' b x. rl.add_all os (replicate 9 (Some NUL)) 0 [(''/a'', ''x''), (''/b'', ''y'')] (new_loader ''.'') = ret st'
    \<and> httpserv_resource_loader_load os' (Some 0) (Some ''/a'') st' = ret (Some b, [], st')
    \<and> cells (resources st') b = Some x \<and> contents x = ''x''"
proof -
  define os where "os = \<lparr>os_access = (\<lambda>_. True), os_stat = (\<lambda>_. Some 1), os_open = (\<lambda>fds _. int (length fds)),
    os_mmap = (\<lambda>p n. Some (if p = ''./a'' then ''x'' else ''y'')), os_strerror = []\<rparr>"
  have "zero_junk (replicate 9 (Some NUL)) ''.'' p" if "length p = 2" for p
    using that unfolding zero_junk_def by (intro exI [of _ 9]) simp
  then have "rl.ok_all os (replicate 9 (Some NUL)) ''.'' [] [(''/a'', ''x''), (''/b'', ''y'')]"
    by (simp add: preloadable_def provides_def os_def sys_mmap_def)
  moreover have "loader_has 0 ''.'' (new_loader ''.'') []"
    using new_loader_at [of "''.''"] unfolding loader_has_def by (intro exI [of _ "[]"]) simp
  ultimately show ?thesis
    using preloaded_paths_found [of 0 "''.''" "new_loader ''.''" "[]" os "replicate 9 (Some NUL)"
        "[(''/a'', ''x''), (''/b'', ''y'')]" "''/a''" "''x''" os'] by fastforce
qed

text \<open>
  destroying a loader frees its entries and the loader itself, each once, and nothing else:
  the files stay mapped and their descriptors open.
\<close>

theorem loader_destroy_frees:
  assumes "loader_at a rt st as"
  shows "\<exists>st'. httpserv_resource_loader_destroy (Some a) st = ret st'
    \<and> (\<forall>b. cells (resources st') b = (if b \<in> set as then None else cells (resources st) b))
    \<and> (\<forall>b. cells (loaders st') b = (if b = a then None else cells (loaders st) b))
    \<and> open_fds st' = open_fds st \<and> mapped st' = mapped st
    \<and> httpserv_resource_loader_destroy (Some a) st' = Some (Inl UseAfterFree)"
proof -
  obtain l where l: "cells (loaders st) a = Some l" "linked res_next (cells (resources st)) (load_head l) as"
    using assms by (auto simp: loader_at_def)
  from release_from_linked [OF l(2)] l(1) show ?thesis
    by (auto simp: httpserv_resource_loader_destroy_def heap_simps ret_def)
qed

theorem loader_destroy_frees_witness:
  "\<exists>st'. httpserv_resource_loader_destroy (Some 0) (new_loader ''www'') = ret st' \<and> cells (loaders st') 0 = None"
proof -
  have "loader_at 0 ''www'' (new_loader ''www'') []" by (rule new_loader_at) simp
  from loader_destroy_frees [OF this] show ?thesis by auto
qed

end
