(* ===== verification/Worker.thy ===== *)
theory Worker
  imports Request Response Router Resource
begin

section \<open>The worker of the server (src/net/server.c, httpserv_httpserver_worker)\<close>

text \<open>
  One call per connection: it reads a request up to its blank line, parses it, reads the
  body, routes the path, loads the resource and writes the response. Each stage of the
  function is one definition; \<open>httpserv_httpserver_worker\<close> runs them in order. The state is
  that of the router, of the resource loader and of the connection.
\<close>

record worker_data =
  w_conn :: "httpserv_net_connector_t option"
  w_ckind :: httpserv_net_connector_kind_t
  w_router :: ref
  w_resload :: ref

text \<open>
  What the worker relies on: the regular expressions, the files, the result of the SSL
  handshake with its error text, the size of the blocks the allocator gives for the
  response, the sizes it refuses, and the bytes a block of the 404 branch happens to hold.
\<close>

record 'p worker_env =
  env_regexec :: "'p \<Rightarrow> string \<Rightarrow> bool"
  env_files :: files
  env_ssl_accept :: "nat \<Rightarrow> int"
  env_ssl_error :: string
  env_usable :: "nat \<Rightarrow> nat"
  env_can_malloc :: "nat \<Rightarrow> bool"
  env_junk :: block

record 'p world =
  w_routes :: "'p router_state"
  w_resources :: resource_state
  w_net :: net

subsection \<open>Reading the request\<close>

text \<open>
  The reading loop. \<open>c\<close> is the variable the byte is read into: at the end of the input it
  keeps its value. The four comparisons are made in the order of the code.
\<close>

definition at_terminator :: "block \<Rightarrow> nat \<Rightarrow> bool res" where
  "at_terminator buf n =
     (if 4 \<le> n then
        bindR (rd buf n) (\<lambda>c0. if c0 \<noteq> LF then Inr False else
        bindR (rd buf (n - 1)) (\<lambda>c1. if c1 \<noteq> CR then Inr False else
        bindR (rd buf (n - 2)) (\<lambda>c2. if c2 \<noteq> LF then Inr False else
        bindR (rd buf (n - 3)) (\<lambda>c3. Inr (c3 = CR)))))
      else Inr False)"

partial_function (option) read_request :: "httpserv_net_connector_t \<Rightarrow> httpserv_net_connector_kind_t
    \<Rightarrow> block \<Rightarrow> nat \<Rightarrow> block \<Rightarrow> net \<Rightarrow> (block \<times> nat \<times> net) run" where
  "read_request conn ckind buf n c w =
     bindX (lift_res (httpserv_net_connector_read conn ckind c 1 w)) (\<lambda>x.
     bindX (lift_res (cstr_of (fst x @ [Some NUL]))) (\<lambda>byte.
     bindX (lift_res (strncat (realloc buf (n + 2)) byte 1)) (\<lambda>buf'.
     bindX (lift_res (at_terminator buf' n)) (\<lambda>stop.
       if stop then ret (buf', n + 1, snd x)
       else read_request conn ckind buf' (n + 1) (fst x) (snd x)))))"

subsection \<open>Reading the body\<close>

text \<open>\<open>None\<close> is the early return after a length that does not convert.\<close>

definition read_body :: "'p worker_env \<Rightarrow> worker_data \<Rightarrow> httpserv_net_connector_t
    \<Rightarrow> httpserv_http_request_t \<Rightarrow> net \<Rightarrow> (httpserv_http_request_t option \<times> net) res" where
  "read_body env data conn req w =
     bindR (httpserv_http_request_get_header (Some req) ''Content-Length'') (\<lambda>header.
     case header of
       None \<Rightarrow> Inr (Some req, w)
     | Some h \<Rightarrow>
         (let clen = to_size_t (strtol h) in
          if clen = 0 then
            bindR (httpserv_net_connector_destroy_connection conn (w_ckind data) w) (\<lambda>w'. Inr (None, w'))
          else if \<not> env_can_malloc env clen then Inl NullDeref
          else
            bindR (httpserv_net_connector_read conn (w_ckind data) (malloc clen) clen w) (\<lambda>(b, w').
            bindR (httpserv_http_request_set_body req b clen) (\<lambda>req'. Inr (Some req', w')))))"

subsection \<open>Choosing the target\<close>

text \<open>The response with its status, the path to load if there is one, and the route.\<close>

definition choose_target :: "'p worker_env \<Rightarrow> worker_data \<Rightarrow> httpserv_http_request_t option
    \<Rightarrow> httpserv_http_response_t \<Rightarrow> 'p world
    \<Rightarrow> (httpserv_http_response_t \<times> string option \<times> 'p httpserv_route_t option \<times> log_event list) run" where
  "choose_target env data req resp w =
     bindX (lift_res (deref req)) (\<lambda>rq.
     bindX (httpserv_router_lookup (env_regexec env) (w_router data) (Some (path rq)) (w_routes w)) (\<lambda>(route, ev).
     if route = None then ret (resp, Some (path rq), None, ev)
     else
       bindX (lift_res (load (routes (w_routes w)) route)) (\<lambda>n.
       case kind n of
         HTTPSERV_ROUTE_KIND_ALIAS \<Rightarrow> ret (resp, Some (routepattern n), Some n, ev)
       | HTTPSERV_ROUTE_KIND_REDIRECT \<Rightarrow>
           ret (resp\<lparr>status := status_code HTTPSERV_HTTP_STATUS_MOVED_PERMANENTLY\<rparr>, None, Some n, ev)
       | HTTPSERV_ROUTE_KIND_ROUTE \<Rightarrow>
           ret (resp\<lparr>status := status_code HTTPSERV_HTTP_STATUS_FOUND\<rparr>, None, Some n, ev))))"

subsection \<open>Filling the response\<close>

definition header_added :: "'p worker_env \<Rightarrow> httpserv_http_response_t \<Rightarrow> string \<Rightarrow> string
    \<Rightarrow> httpserv_http_response_t res" where
  "header_added env resp key value =
     bindR (httpserv_http_response_add_header (env_usable env) (Some resp) (Some key) (Some value)) deref"

text \<open>\<open>(int) log10 (n)\<close>; \<open>log10 (0)\<close> has no value as an \<open>int\<close>.\<close>

fun ilog10 :: "nat \<Rightarrow> nat" where
  "ilog10 n = (if n < 10 then 0 else ilog10 (n div 10) + 1)"

declare ilog10.simps [simp del]

definition log10_int :: "nat \<Rightarrow> nat res" where
  "log10_int n = (if n = 0 then Inl OutOfBounds else Inr (ilog10 n))"

text \<open>The branch of a resource that is not there: the length is printed nowhere.\<close>

definition not_found :: "'p worker_env \<Rightarrow> httpserv_http_response_t \<Rightarrow> httpserv_http_response_t res" where
  "not_found env resp =
     (let body = httpserv_http_response_default in
      bindR (log10_int (length body)) (\<lambda>l.
      bindR (httpserv_http_response_set_body glibc_realloc
          (Some (resp\<lparr>status := status_code HTTPSERV_HTTP_STATUS_NOT_FOUND\<rparr>)) (cstr body) (length body)) (\<lambda>(rc, resp1).
      bindR (deref resp1) (\<lambda>resp2.
      bindR (cstr_of (malloc_junk (env_junk env) (l + 2))) (\<lambda>body_len.
        header_added env resp2 ''Content-Length'' body_len)))))"

definition found :: "'p worker_env \<Rightarrow> httpserv_resource_t \<Rightarrow> httpserv_http_response_t \<Rightarrow> httpserv_http_response_t res" where
  "found env r resp =
     bindR (log10_int (res_size r)) (\<lambda>l.
     bindR (snprintf (malloc (l + 2)) (l + 2) (dec (res_size r))) (\<lambda>b.
     bindR (cstr_of b) (\<lambda>body_len. header_added env resp ''Content-Lenght'' body_len)))"

text \<open>The result is the response, the resource, the events and the state.\<close>

definition fill_response :: "'p worker_env \<Rightarrow> worker_data \<Rightarrow> string option \<Rightarrow> 'p httpserv_route_t option
    \<Rightarrow> httpserv_http_response_t \<Rightarrow> 'p world
    \<Rightarrow> (httpserv_http_response_t \<times> ref \<times> log_event list \<times> 'p world) run" where
  "fill_response env data p route resp w =
     (if (case route of None \<Rightarrow> False | Some n \<Rightarrow> kind n = HTTPSERV_ROUTE_KIND_ALIAS) \<or> p \<noteq> None then
        bindX (httpserv_resource_loader_load (env_files env) (w_resload data) p (w_resources w)) (\<lambda>(res, ev, rs).
        let w' = w\<lparr>w_resources := rs\<rparr> in
        if res = None then
          bindX (lift_res (not_found env resp)) (\<lambda>resp'. ret (resp', None, ev, w'))
        else
          bindX (lift_res (load (resources rs) res)) (\<lambda>r.
          bindX (lift_res (found env r resp)) (\<lambda>resp'. ret (resp', res, ev, w'))))
      else
        bindX (lift_res (deref route)) (\<lambda>n.
        bindX (lift_res (header_added env resp ''Location'' (routepattern n))) (\<lambda>resp'.
          ret (resp', None, [], w))))"

subsection \<open>Sending it\<close>

definition send_response :: "'p worker_env \<Rightarrow> worker_data \<Rightarrow> httpserv_net_connector_t
    \<Rightarrow> httpserv_http_response_t \<Rightarrow> ref \<Rightarrow> 'p world \<Rightarrow> (log_event list \<times> 'p world) res" where
  "send_response env data conn resp res w =
     bindR httpserv_http_server_version (\<lambda>vb.
     bindR (cstr_of vb) (\<lambda>version.
     bindR (header_added env resp ''Server'' version) (\<lambda>resp'.
     bindR (httpserv_http_response_build (env_usable env) resp') (\<lambda>raw.
     case raw of
       None \<Rightarrow> Inr ([(ERR, ''failed to parse response object'')], w)
     | Some r \<Rightarrow>
         bindR (raw_bytes r) (\<lambda>s.
         bindR (httpserv_net_connector_write conn (w_ckind data) s (w_net w)) (\<lambda>n1.
         bindR (httpserv_resource_write_to_conn res (Some conn) (w_ckind data) (w_resources w) n1) (\<lambda>n2.
           Inr ([], w\<lparr>w_net := n2\<rparr>))))))))"

subsection \<open>The worker\<close>

definition request_event :: "httpserv_http_request_t option \<Rightarrow> log_event res" where
  "request_event req = (case req of
     None \<Rightarrow> Inr (LOG, ''bad request'')
   | Some r \<Rightarrow> bindR (deref (httpserv_http_strmethod (req_method r))) (\<lambda>m.
       Inr (LOG, ''request: '' @ m @ '' '' @ path r)))"

text \<open>From the parsed request on.\<close>

definition respond :: "'p worker_env \<Rightarrow> worker_data \<Rightarrow> httpserv_net_connector_t
    \<Rightarrow> httpserv_http_request_t option \<Rightarrow> 'p world \<Rightarrow> (log_event list \<times> 'p world) run" where
  "respond env data conn req w =
     bindX (lift_res (request_event req)) (\<lambda>e.
     bindX (lift_res (httpserv_http_response_new (status_code
         (if req = None then HTTPSERV_HTTP_STATUS_BAD_REQUEST else HTTPSERV_HTTP_STATUS_OK)))) (\<lambda>resp.
     bindX (choose_target env data req resp w) (\<lambda>(resp1, p, route, ev1).
     bindX (fill_response env data p route resp1 w) (\<lambda>(resp2, res, ev2, w2).
     bindX (lift_res (send_response env data conn resp2 res w2)) (\<lambda>(ev3, w3).
     bindX (lift_res (httpserv_net_connector_destroy_connection conn (w_ckind data) (w_net w3))) (\<lambda>n.
       ret (e # ev1 @ ev2 @ ev3, w3\<lparr>w_net := n\<rparr>)))))))"

definition httpserv_httpserver_worker :: "'p worker_env \<Rightarrow> worker_data \<Rightarrow> string \<Rightarrow> 'p world
    \<Rightarrow> (log_event list \<times> 'p world) run" where
  "httpserv_httpserver_worker env data strerror w =
     (case w_conn data of
       None \<Rightarrow> ret ([], w)
     | Some conn \<Rightarrow>
         bindX (lift_res (if w_ckind data = HTTPSERV_NET_CONNECTOR_SSL
            then bindR (conn_ssl conn) (\<lambda>h. Inr (env_ssl_accept env h = -1)) else Inr False)) (\<lambda>failed.
         if failed then ret ([(ERR, ''SSL handshake failed: '' @ env_ssl_error env)], w)
         else
           bindX (lift_res (wr (malloc 1) 0 NUL)) (\<lambda>content.
           bindX (read_request conn (w_ckind data) content (len httpserv_raw_data_init) [Some NUL] (w_net w))
             (\<lambda>(content', n, net1).
           bindX (lift_res (httpserv_http_request_from_raw \<lparr>content = Some content', len = n\<rparr>)) (\<lambda>req.
           bindX (lift_res (case req of
               None \<Rightarrow> Inr (Some None, net1)
             | Some r \<Rightarrow> bindR (read_body env data conn r net1) (\<lambda>(r', net2).
                 Inr (map_option Some r', net2)))) (\<lambda>(req', net2).
           case req' of
             None \<Rightarrow> ret ([(ERR, ''failed to convert number: '' @ strerror)], w\<lparr>w_net := net2\<rparr>)
           | Some rq \<Rightarrow> respond env data conn rq (w\<lparr>w_net := net2\<rparr>)))))))"

end
