(* ===== verification/Channel.thy ===== *)
theory Channel
  imports Resource
begin

section \<open>Plain and SSL connections as one\<close>

text \<open>
  The abstract connection behind a connector and its kind: a socket or an SSL connection. On an
  open channel the operations of \<open>Connector\<close> never fail, and differ only in the events they
  leave behind.
\<close>

datatype channel = Plain int | Secure nat

definition channel_of :: "httpserv_net_connector_t \<Rightarrow> httpserv_net_connector_kind_t \<Rightarrow> channel option" where
  "channel_of conn ckind = (case ckind of
     HTTPSERV_NET_CONNECTOR_SCK \<Rightarrow> (case sck_conn conn of Inr f \<Rightarrow> Some (Plain f) | Inl u \<Rightarrow> None)
   | HTTPSERV_NET_CONNECTOR_SSL \<Rightarrow> (case conn_ssl conn of Inr h \<Rightarrow> Some (Secure h) | Inl u \<Rightarrow> None))"

fun sent :: "channel \<Rightarrow> string \<Rightarrow> io_event" where
  "sent (Plain f) s = Written f s"
| "sent (Secure h) s = SslWritten h s"

fun closing :: "(nat \<Rightarrow> int) \<Rightarrow> channel \<Rightarrow> io_event list" where
  "closing fds (Plain f) = [Closed f]"
| "closing fds (Secure h) = [Closed (fds h), SslFreed h]"

text \<open>What \<open>SSL_accept\<close> must answer for the connection to be used.\<close>

fun handshake :: "(nat \<Rightarrow> int) \<Rightarrow> channel \<Rightarrow> bool" where
  "handshake accept (Plain f) = True"
| "handshake accept (Secure h) = (accept h \<noteq> -1)"

lemma channel_plain [simp]: "channel_of conn HTTPSERV_NET_CONNECTOR_SCK = Some ch \<longleftrightarrow> (\<exists>f. conn = SckConn f \<and> ch = Plain f)"
  by (cases conn) (auto simp: channel_of_def)

lemma channel_secure [simp]:
  "channel_of conn HTTPSERV_NET_CONNECTOR_SSL = Some ch \<longleftrightarrow> (\<exists>h. conn_ssl conn = Inr h \<and> ch = Secure h)"
  by (auto simp: channel_of_def split: sum.splits)

lemmas connector_defs = httpserv_net_connector_read_def httpserv_net_connector_write_def
  httpserv_net_connector_destroy_connection_def httpserv_resource_write_to_conn_def

lemma channel_read: "channel_of conn k = Some ch \<Longrightarrow> httpserv_net_connector_read conn k b n w = sys_read b n w"
  by (cases k) (auto simp: connector_defs)

lemma channel_write: "channel_of conn k = Some ch \<Longrightarrow> httpserv_net_connector_write conn k s w = Inr (emit [sent ch s] w)"
  by (cases k) (auto simp: connector_defs)

lemma channel_close: "channel_of conn k = Some ch \<Longrightarrow>
    httpserv_net_connector_destroy_connection conn k w = Inr (emit (closing (ssl_fd w) ch) w)"
  by (cases k) (auto simp: connector_defs)

lemma channel_resource:
  "channel_of conn k = Some ch \<Longrightarrow> cells (resources st) a = Some r \<Longrightarrow> res_size r = length (contents r) \<Longrightarrow>
    httpserv_resource_write_to_conn (Some a) (Some conn) k st w = Inr (emit [sent ch (contents r)] w)"
  by (cases k) (auto simp: connector_defs heap_simps rd_all_def list_all_iff o_def)

lemma channel_no_resource: "httpserv_resource_write_to_conn None conn k st w = Inr w"
  by (simp add: connector_defs split: option.split)

lemma emit_simps [simp]: "io (emit es w) = io w @ es" "ssl_fd (emit es w) = ssl_fd w" "arrivals (emit es w) = arrivals w"
  "emit es (emit ds w) = emit (ds @ es) w"
  by (simp_all add: emit_def)

lemma handshake_accepted:
  "channel_of conn k = Some ch \<Longrightarrow> handshake accept ch \<Longrightarrow>
    (if k = HTTPSERV_NET_CONNECTOR_SSL then bindR (conn_ssl conn) (\<lambda>h. Inr (accept h = -1)) else Inr False) = Inr False"
  by (cases k) auto

end
