(* ===== verification/WorkerRead.thy ===== *)
theory WorkerRead
  imports Worker RequestParse Channel
begin

section \<open>What the reading loop of the worker reads\<close>

text \<open>
  The buffer always holds exactly the bytes read so far and a NUL behind them. The loop
  ends at the first CR LF CR LF that is not at the very beginning, it never returns when
  the input ends before that, and it reads an uninitialised byte when there is no input.
\<close>

abbreviation blank_line :: string where
  "blank_line \<equiv> [CR, LF, CR, LF]"

definition stops :: "string \<Rightarrow> bool" where
  "stops s \<longleftrightarrow> (\<exists>u. u \<noteq> [] \<and> s = u @ blank_line)"

text \<open>A request text as a client sends it: the first blank line ends it.\<close>

definition complete_request :: "string \<Rightarrow> bool" where
  "complete_request t \<longleftrightarrow> stops t \<and> no_nul t \<and> (\<forall>i < length t. \<not> stops (take i t))"

subsection \<open>One step\<close>

text \<open>A connection that can be read: what was checked before the loop.\<close>

definition readable_conn :: "httpserv_net_connector_t \<Rightarrow> httpserv_net_connector_kind_t \<Rightarrow> bool" where
  "readable_conn conn ckind \<longleftrightarrow> (\<exists>ch. channel_of conn ckind = Some ch)"

lemma connector_read_ok:
  "readable_conn conn ckind \<Longrightarrow> httpserv_net_connector_read conn ckind b n w = sys_read b n w"
  by (auto simp: readable_conn_def channel_read)

lemma take_arrived_concat:
  "take_arrived n ss = (s, ss') \<Longrightarrow> concat ss = s @ concat ss'"
  by (induction n ss rule: take_arrived.induct) auto

lemma take_arrived_length: "take_arrived n ss = (s, ss') \<Longrightarrow> length s \<le> n"
  by (induction n ss rule: take_arrived.induct) auto

lemma take_arrived_one:
  "concat ss = c # t \<Longrightarrow> \<exists>ss'. take_arrived 1 ss = ([c], ss') \<and> concat ss' = t"
  by (induction "1::nat" ss rule: take_arrived.induct) auto

lemma take_arrived_none: "concat ss = [] \<Longrightarrow> take_arrived n ss = ([], [])"
  by (induction n ss rule: take_arrived.induct) auto

lemma sys_read_byte:
  assumes "concat (arrivals w) = c # t"
  shows "\<exists>ss. sys_read [x] 1 w = Inr ([Some c], w\<lparr>arrivals := ss\<rparr>) \<and> concat ss = t"
  using take_arrived_one [OF assms] by (auto simp: sys_read_def wr_run_def)

lemma sys_read_end:
  assumes "concat (arrivals w) = []"
  shows "sys_read b n w = Inr (b, w\<lparr>arrivals := []\<rparr>)"
  using take_arrived_none [OF assms, of n] by (simp add: sys_read_def wr_run_def)

lemma buffer_grows:
  assumes "c \<noteq> NUL" and "no_nul s"
  shows "strncat (realloc (cstr s) (length s + 2)) [c] 1 = Inr (cstr (s @ [c]))"
proof -
  have "realloc (cstr s) (length s + 2) = map Some s @ Some NUL # [None]"
    by (simp add: realloc_def cstr_def)
  moreover have "cstr_of (map Some s @ Some NUL # [None]) = Inr s" by (rule cstr_of_mem [OF assms(2)])
  ultimately show ?thesis
    using assms(1) by (simp add: strncat_def strlen_def wr_run_def cstr_def)
qed

lemma rd_cstr: "i < length s \<Longrightarrow> rd (cstr s) i = Inr (s ! i)"
  by (simp add: rd_def cstr_def nth_append)

lemma at_terminator_stops:
  "at_terminator (cstr (s @ [c])) (length s) = Inr (stops (s @ [c]))"
proof (cases "4 \<le> length s")
  case False
  then have "\<not> stops (s @ [c])" by (auto simp: stops_def Suc_le_eq dest: arg_cong [of _ _ length])
  with False show ?thesis by (simp add: at_terminator_def)
next
  case True
  let ?n = "length s"
  have lt: "?n - 1 < ?n" "?n - 2 < ?n" "?n - 3 < ?n" using True by linarith+
  have r: "rd (cstr (s @ [c])) ?n = Inr c" "rd (cstr (s @ [c])) (?n - 1) = Inr (s ! (?n - 1))"
    "rd (cstr (s @ [c])) (?n - 2) = Inr (s ! (?n - 2))" "rd (cstr (s @ [c])) (?n - 3) = Inr (s ! (?n - 3))"
    using lt by (simp_all add: rd_cstr nth_append)
  have tail: "s @ [c] = take (?n - 3) s @ [s ! (?n - 3), s ! (?n - 2), s ! (?n - 1), c]"
  proof -
    have "drop (?n - 3) s = [s ! (?n - 3), s ! (?n - 2), s ! (?n - 1)]"
      using True by (intro nth_equalityI) (auto simp: less_Suc_eq numeral_eq_Suc nth_Cons split: nat.splits)
    then show ?thesis by (metis append.assoc append_Cons append_Nil append_take_drop_id)
  qed
  have "stops (s @ [c]) \<longleftrightarrow> [s ! (?n - 3), s ! (?n - 2), s ! (?n - 1), c] = blank_line"
  proof
    assume "stops (s @ [c])"
    then obtain u where "s @ [c] = u @ blank_line" by (auto simp: stops_def)
    with tail show "[s ! (?n - 3), s ! (?n - 2), s ! (?n - 1), c] = blank_line"
      by (metis append_eq_append_conv length_Cons list.size(3))
  next
    assume "[s ! (?n - 3), s ! (?n - 2), s ! (?n - 1), c] = blank_line"
    with tail have "s @ [c] = take (?n - 3) s @ blank_line" by simp
    moreover have "take (?n - 3) s \<noteq> []" using True by (auto simp: take_eq_Nil)
    ultimately show "stops (s @ [c])" unfolding stops_def by blast
  qed
  moreover have "at_terminator (cstr (s @ [c])) ?n = Inr ([s ! (?n - 3), s ! (?n - 2), s ! (?n - 1), c] = blank_line)"
    using True r by (cases "c = LF"; cases "s ! (?n - 1) = CR"; cases "s ! (?n - 2) = LF")
      (simp_all add: at_terminator_def)
  ultimately show ?thesis by simp
qed

text \<open>One round of the loop.\<close>

lemma read_request_byte:
  assumes "readable_conn conn ckind" and "concat (arrivals w) = c # t" and "c \<noteq> NUL" and "no_nul s"
  shows "\<exists>ss. concat ss = t \<and> read_request conn ckind (cstr s) (length s) [x] w =
    (if stops (s @ [c]) then ret (cstr (s @ [c]), length s + 1, w\<lparr>arrivals := ss\<rparr>)
     else read_request conn ckind (cstr (s @ [c])) (length (s @ [c])) [Some c] (w\<lparr>arrivals := ss\<rparr>))"
proof -
  obtain ss where ss: "sys_read [x] (Suc 0) w = Inr ([Some c], w\<lparr>arrivals := ss\<rparr>)" "concat ss = t"
    using sys_read_byte [OF assms(2), of x] by auto
  then show ?thesis
    using buffer_grows [OF assms(3,4)] at_terminator_stops [of s c] assms(3)
    by (intro exI [of _ ss]) (simp add: read_request.simps [of conn ckind "cstr s" "length s"]
        connector_read_ok [OF assms(1)] ret_def)
qed

subsection \<open>Whole inputs\<close>

text \<open>Input without a place to stop is all read.\<close>

lemma read_request_all:
  "readable_conn conn ckind \<Longrightarrow> concat (arrivals w) = t @ rest \<Longrightarrow> no_nul (s @ t) \<Longrightarrow>
    \<forall>i \<le> length t. 0 < i \<longrightarrow> \<not> stops (s @ take i t) \<Longrightarrow> t \<noteq> [] \<Longrightarrow>
    \<exists>ss. concat ss = rest \<and> read_request conn ckind (cstr s) (length s) [x] w
      = read_request conn ckind (cstr (s @ t)) (length (s @ t)) [Some (last t)] (w\<lparr>arrivals := ss\<rparr>)"
proof (induction t arbitrary: s x w)
  case (Cons c t)
  have c: "c \<noteq> NUL" "no_nul s" using Cons.prems(3) by auto
  have go: "\<not> stops (s @ [c])" using Cons.prems(4) by (auto dest: spec [of _ 1])
  obtain ss where ss: "concat ss = t @ rest" "read_request conn ckind (cstr s) (length s) [x] w
      = read_request conn ckind (cstr (s @ [c])) (length (s @ [c])) [Some c] (w\<lparr>arrivals := ss\<rparr>)"
    using read_request_byte [OF Cons.prems(1) _ c, of w "t @ rest" x] Cons.prems(2) go by auto
  show ?case
  proof (cases "t = []")
    case True
    with ss show ?thesis by (intro exI [of _ ss]) simp
  next
    case False
    have "\<forall>i \<le> length t. 0 < i \<longrightarrow> \<not> stops ((s @ [c]) @ take i t)"
    proof (intro allI impI)
      fix i assume "i \<le> length t" "0 < i"
      then show "\<not> stops ((s @ [c]) @ take i t)" using Cons.prems(4) by (auto dest: spec [of _ "Suc i"])
    qed
    with Cons.IH [OF Cons.prems(1), of "w\<lparr>arrivals := ss\<rparr>" "s @ [c]" "Some c"] Cons.prems(3) ss False
    show ?thesis by simp
  qed
qed simp

text \<open>A complete request is read to its end and no further.\<close>

lemma read_request_complete:
  assumes "readable_conn conn ckind" and "concat (arrivals w) = t @ rest" and "complete_request t"
  shows "\<exists>ss. concat ss = rest \<and>
    read_request conn ckind [Some NUL] 0 [x] w = ret (cstr t, length t, w\<lparr>arrivals := ss\<rparr>)"
proof -
  obtain u c where t: "t = u @ [c]" "u \<noteq> []" "no_nul u" "c \<noteq> NUL"
    using assms(3) by (cases t rule: rev_cases) (auto simp: complete_request_def stops_def)
  have "\<not> stops (take i u)" if "i \<le> length u" for i
    using assms(3) that t(1) by (auto simp: complete_request_def dest: spec [of _ i])
  with read_request_all [OF assms(1), of w u "c # rest" "[]" x] assms(2) t obtain ss where
    ss: "concat ss = c # rest" "read_request conn ckind (cstr []) 0 [x] w
      = read_request conn ckind (cstr u) (length u) [Some (last u)] (w\<lparr>arrivals := ss\<rparr>)" by auto
  moreover have "stops (u @ [c])" using assms(3) t(1) by (simp add: complete_request_def)
  ultimately show ?thesis
    using read_request_byte [OF assms(1), of "w\<lparr>arrivals := ss\<rparr>" c rest u "Some (last u)"] t
    by (auto simp: cstr_def)
qed

text \<open>After the end of the input the last byte is appended for ever.\<close>

lemma read_request_stuck:
  assumes "readable_conn conn ckind" and "c \<noteq> NUL" and "concat (arrivals w) = []"
    and "no_nul s" and "s \<noteq> []" and "last s = c"
  shows "read_request conn ckind (cstr s) (length s) [Some c] w = None"
proof -
  have no_stop: "\<not> stops (u @ [c])" if "u \<noteq> []" "last u = c" for u
    using that by (auto simp: stops_def append_eq_append_conv2 Cons_eq_append_conv append_eq_Cons_conv)
  have "readable_conn k ck \<Longrightarrow> x = [Some c] \<Longrightarrow> concat (arrivals v) = [] \<Longrightarrow>
      b = cstr u \<Longrightarrow> n = length u \<Longrightarrow> no_nul u \<Longrightarrow> u \<noteq> [] \<Longrightarrow> last u = c \<Longrightarrow> False"
    if "read_request k ck b n x v = Some y" for k ck b n x v y u
    using that
  proof (induction arbitrary: u rule: read_request.raw_induct [rotated, consumes 1, case_names step])
    case (step f k ck b n x v y)
    have "httpserv_net_connector_read k ck x 1 v = Inr ([Some c], v\<lparr>arrivals := []\<rparr>)"
      using step(3-5) sys_read_end [of v x 1] by (simp add: connector_read_ok)
    with step(2) have "f k ck (cstr (u @ [c])) (n + 1) [Some c] (v\<lparr>arrivals := []\<rparr>) = Some y"
      using step(6-10) buffer_grows [OF assms(2) step(8)] at_terminator_stops [of u c] no_stop [of u] assms(2)
      by simp
    then show False
      using step(7,8) assms(2) by (intro step(1) [OF _ step(3) refl, where u = "u @ [c]"]) auto
  qed
  from this [OF _ assms(1) refl assms(3) refl refl assms(4-6)] show ?thesis
    by (cases "read_request conn ckind (cstr s) (length s) [Some c] w") auto
qed

text \<open>The three outcomes of an input that ends before a complete request.\<close>

lemma read_request_unfinished:
  assumes "readable_conn conn ckind" and "concat (arrivals w) = t" and "t \<noteq> []" and "no_nul t"
    and "\<forall>i \<le> length t. \<not> stops (take i t)"
  shows "read_request conn ckind [Some NUL] 0 [x] w = None"
proof -
  obtain ss where ss: "concat ss = []" "read_request conn ckind (cstr []) 0 [x] w
      = read_request conn ckind (cstr t) (length t) [Some (last t)] (w\<lparr>arrivals := ss\<rparr>)"
    using read_request_all [OF assms(1), of w t "[]" "[]" x] assms(2-5) by auto
  have "last t \<noteq> NUL" using assms(3,4) by (metis last_in_set)
  with read_request_stuck [OF assms(1), of "last t" "w\<lparr>arrivals := ss\<rparr>" t] ss assms(3,4) show ?thesis
    by (simp add: cstr_def)
qed

subsection \<open>Bytes that are NUL\<close>

text \<open>
  A NUL byte is counted and not stored: after \<open>j\<close> of them the text ends \<open>j\<close> bytes before the
  place where the loop looks for the blank line. After one it looks at the NUL that ends the
  text, after two at bytes that were never written.
\<close>

definition nul_buffer :: "string \<Rightarrow> nat \<Rightarrow> block" where
  "nul_buffer s j = cstr s @ replicate j None"

lemma nul_buffer_grows:
  assumes "no_nul s"
  shows "strncat (realloc (nul_buffer s j) (length s + j + 2)) (if c = NUL then [] else [c]) 1
    = Inr (if c = NUL then nul_buffer s (Suc j) else nul_buffer (s @ [c]) j)"
proof -
  have "realloc (nul_buffer s j) (length s + j + 2) = map Some s @ Some NUL # None # replicate j None"
    by (simp add: realloc_def nul_buffer_def cstr_def replicate_append_same)
  moreover have "cstr_of (map Some s @ Some NUL # None # replicate j None) = Inr s" by (rule cstr_of_mem [OF assms])
  ultimately show ?thesis by (simp add: strncat_def strlen_def wr_run_def nul_buffer_def cstr_def)
qed

lemma read_round:
  assumes "httpserv_net_connector_read conn ckind x 1 w = Inr ([Some c], w')" and "no_nul s"
    and "buf = (if c = NUL then nul_buffer s (Suc j) else nul_buffer (s @ [c]) j)" and "n = length s + j"
  shows "read_request conn ckind (nul_buffer s j) n x w =
    bindX (lift_res (at_terminator buf n)) (\<lambda>stop.
      if stop then ret (buf, n + 1, w') else read_request conn ckind buf (n + 1) [Some c] w')"
proof -
  have "cstr_of ([Some c] @ [Some NUL]) = Inr (if c = NUL then [] else [c])" by simp
  with nul_buffer_grows [OF assms(2), of j c] assms(1) show ?thesis unfolding assms(3,4)
    by (subst read_request.simps) (simp only: bindX_simps fst_conv snd_conv)
qed

lemma reads_some_byte:
  assumes "readable_conn conn ckind"
  shows "\<exists>c w'. httpserv_net_connector_read conn ckind [Some b] 1 w = Inr ([Some c], w') \<and>
    (case concat (arrivals w) of [] \<Rightarrow> c = b \<and> concat (arrivals w') = []
     | d # t \<Rightarrow> c = d \<and> concat (arrivals w') = t)"
proof (cases "concat (arrivals w)")
  case Nil
  with sys_read_end [OF Nil] show ?thesis by (simp add: connector_read_ok [OF assms] del: concat_eq_Nil_conv)
next
  case (Cons d t)
  with sys_read_byte [OF Cons] show ?thesis by (force simp: connector_read_ok [OF assms])
qed

lemma rd_nul_buffer: "rd (nul_buffer s j) (length s) = Inr NUL"
  "length s < i \<Longrightarrow> i \<le> length s + j \<Longrightarrow> rd (nul_buffer s j) i = Inl Uninit"
  by (simp_all add: rd_def nul_buffer_def cstr_def nth_append)

lemma at_terminator_nul: "rd buf n = Inr NUL \<Longrightarrow> at_terminator buf n = Inr False"
  "rd buf n = Inl Uninit \<Longrightarrow> 4 \<le> n \<Longrightarrow> at_terminator buf n = Inl Uninit"
  "n < 4 \<Longrightarrow> at_terminator buf n = Inr False"
  by (simp_all add: at_terminator_def)

text \<open>After two NUL bytes the loop soon reads what was never written.\<close>

lemma read_request_lost:
  assumes "readable_conn conn ckind"
  shows "no_nul s \<Longrightarrow> 2 \<le> j \<Longrightarrow> read_request conn ckind (nul_buffer s j) (length s + j) [Some b] w = Some (Inl Uninit)"
proof (induction "4 - (length s + j)" arbitrary: s j b w rule: less_induct)
  case less
  obtain c w' where c: "httpserv_net_connector_read conn ckind [Some b] 1 w = Inr ([Some c], w')"
    using reads_some_byte [OF assms] by blast
  define s' j' where "s' = (if c = NUL then s else s @ [c])" and "j' = (if c = NUL then Suc j else j)"
  then have new: "no_nul s'" "2 \<le> j'" "length s' + j' = Suc (length s + j)"
    "(if c = NUL then nul_buffer s (Suc j) else nul_buffer (s @ [c]) j) = nul_buffer s' j'"
    using less.prems by auto
  have "rd (nul_buffer s' j') (length s + j) = Inl Uninit" using new(2,3) by (intro rd_nul_buffer) linarith+
  note round = read_round [OF c less.prems(1) refl refl, of j, unfolded new(4)]
  show ?case
  proof (cases "4 \<le> length s + j")
    case True
    with round at_terminator_nul(2) [OF \<open>rd (nul_buffer s' j') (length s + j) = Inl Uninit\<close>] show ?thesis by simp
  next
    case False
    then have "4 - (length s' + j') < 4 - (length s + j)" using new(3) by linarith
    from less.hyps [OF this new(1,2)] False round at_terminator_nul(3) [of "length s + j"] show ?thesis
      by (simp add: new(3))
  qed
qed

text \<open>After one, the next NUL byte leads there; a closed connection repeats the last byte.\<close>

lemma read_request_second_nul:
  assumes "readable_conn conn ckind"
  shows "no_nul s \<Longrightarrow> NUL \<in> set (concat (arrivals w)) \<or> concat (arrivals w) = [] \<and> b = NUL \<Longrightarrow>
    read_request conn ckind (nul_buffer s 1) (length s + 1) [Some b] w = Some (Inl Uninit)"
proof (induction "length (concat (arrivals w))" arbitrary: s b w rule: less_induct)
  case less
  obtain c w' where c: "httpserv_net_connector_read conn ckind [Some b] 1 w = Inr ([Some c], w')"
    "case concat (arrivals w) of [] \<Rightarrow> c = b \<and> concat (arrivals w') = [] | d # t \<Rightarrow> c = d \<and> concat (arrivals w') = t"
    using reads_some_byte [OF assms] by blast
  show ?case
  proof (cases "c = NUL")
    case True
    have "rd (nul_buffer s 2) (length s + 1) = Inl Uninit" by (rule rd_nul_buffer) simp_all
    with read_round [OF c(1) less.prems(1) refl refl, of 1] read_request_lost [OF assms less.prems(1), of 2 c w'] True
      at_terminator_nul(2) [of "nul_buffer s 2" "length s + 1"] at_terminator_nul(3) [of "length s + 1" "nul_buffer s 2"]
    show ?thesis by (cases "4 \<le> length s + 1") (simp_all add: numeral_2_eq_2)
  next
    case False
    then obtain t where t: "concat (arrivals w) = c # t" "concat (arrivals w') = t" "NUL \<in> set t"
      using c(2) less.prems(2) by (auto split: list.splits simp del: set_concat concat_eq_Nil_conv)
    have "read_request conn ckind (nul_buffer (s @ [c]) 1) (length (s @ [c]) + 1) [Some c] w' = Some (Inl Uninit)"
      using less.hyps [of w' "s @ [c]" c] t less.prems(1) False by simp
    moreover have "at_terminator (nul_buffer (s @ [c]) 1) (length s + 1) = Inr False"
      using rd_nul_buffer(1) [of "s @ [c]" 1] by (intro at_terminator_nul(1)) simp
    ultimately show ?thesis using read_round [OF c(1) less.prems(1) refl refl, of 1] False by simp
  qed
qed

text \<open>And without a second one the loop never finds a blank line.\<close>

lemma read_request_one_nul:
  assumes "readable_conn conn ckind" and "no_nul s"
    and "NUL \<notin> set (concat (arrivals w))" and "concat (arrivals w) = [] \<longrightarrow> b \<noteq> NUL"
  shows "read_request conn ckind (nul_buffer s 1) (length s + 1) [Some b] w = None"
proof -
  have "readable_conn k ck \<Longrightarrow> x = [Some b] \<Longrightarrow> NUL \<notin> set (concat (arrivals v)) \<Longrightarrow> (concat (arrivals v) = [] \<longrightarrow> b \<noteq> NUL) \<Longrightarrow>
      buf = nul_buffer u 1 \<Longrightarrow> n = length u + 1 \<Longrightarrow> no_nul u \<Longrightarrow> False"
    if "read_request k ck buf n x v = Some y" for k ck buf n x v y u b
    using that
  proof (induction arbitrary: u b rule: read_request.raw_induct [rotated, consumes 1, case_names step])
    case (step f k ck buf n x v y)
    obtain c v' where c: "httpserv_net_connector_read k ck [Some b] 1 v = Inr ([Some c], v')"
      "case concat (arrivals v) of [] \<Rightarrow> c = b \<and> concat (arrivals v') = [] | d # t \<Rightarrow> c = d \<and> concat (arrivals v') = t"
      using reads_some_byte [OF step(3)] by blast
    with step(5,6) have c': "c \<noteq> NUL" "NUL \<notin> set (concat (arrivals v'))"
      by (auto split: list.splits simp del: set_concat concat_eq_Nil_conv)
    have "at_terminator (nul_buffer (u @ [c]) 1) (length u + 1) = Inr False"
      using rd_nul_buffer(1) [of "u @ [c]" 1] by (intro at_terminator_nul(1)) simp
    with step(2) have "f k ck (nul_buffer (u @ [c]) 1) (n + 1) [Some c] v' = Some y"
      using step(4,7-9) c(1) c'(1) nul_buffer_grows [OF step(9), of 1 c] by simp
    then show False
      using step(8,9) c' by (intro step(1) [OF _ step(3) refl, where u = "u @ [c]"]) auto
  qed
  from this [OF _ assms(1) refl assms(3,4) refl refl assms(2)] show ?thesis
    by (cases "read_request conn ckind (nul_buffer s 1) (length s + 1) [Some b] w") auto
qed

text \<open>The whole input: a text without a place to stop, and a NUL byte behind it.\<close>

definition waits_for_ever :: "string \<Rightarrow> bool" where
  "waits_for_ever v \<longleftrightarrow> v \<noteq> [] \<and> no_nul v"

lemma nul_read:
  assumes "readable_conn conn ckind" and "no_nul s" and "concat (arrivals w) = NUL # v \<or> concat (arrivals w) = [] \<and> b = NUL \<and> v = []"
  shows "read_request conn ckind (cstr s) (length s) [Some b] w = (if waits_for_ever v then None else Some (Inl Uninit))"
proof -
  obtain w' where w': "httpserv_net_connector_read conn ckind [Some b] 1 w = Inr ([Some NUL], w')" "concat (arrivals w') = v"
    using reads_some_byte [OF assms(1), of b w] assms(3) by (auto simp del: concat_eq_Nil_conv)
  have "at_terminator (nul_buffer s 1) (length s) = Inr False" by (intro at_terminator_nul(1) rd_nul_buffer)
  with read_round [OF w'(1) assms(2) refl refl, of 0]
  have "read_request conn ckind (cstr s) (length s) [Some b] w = read_request conn ckind (nul_buffer s 1) (length s + 1) [Some NUL] w'"
    by (simp add: nul_buffer_def)
  with read_request_second_nul [OF assms(1,2), of w' NUL] read_request_one_nul [OF assms(1,2), of w' NUL] w'(2)
  show ?thesis by (simp add: waits_for_ever_def del: concat_eq_Nil_conv set_concat)
qed

lemma read_request_nothing:
  assumes "readable_conn conn ckind" and "concat (arrivals w) = []"
  shows "read_request conn ckind [Some NUL] 0 [Some NUL] w = Some (Inl Uninit)"
  using nul_read [OF assms(1), of "[]" w "[]" NUL] assms(2) by (simp add: waits_for_ever_def cstr_def)

lemma read_request_nul:
  assumes "readable_conn conn ckind" and "concat (arrivals w) = u @ NUL # v" and "no_nul u"
    and "\<forall>i \<le> length u. \<not> stops (take i u)"
  shows "read_request conn ckind [Some NUL] 0 [Some NUL] w = (if waits_for_ever v then None else Some (Inl Uninit))"
proof (cases "u = []")
  case True
  with nul_read [OF assms(1), of "[]" w v NUL] assms(2) show ?thesis by (simp add: cstr_def)
next
  case False
  obtain ss where ss: "concat ss = NUL # v" "read_request conn ckind (cstr []) 0 [Some NUL] w
      = read_request conn ckind (cstr u) (length u) [Some (last u)] (w\<lparr>arrivals := ss\<rparr>)"
    using read_request_all [OF assms(1,2), of "[]" "Some NUL"] assms(3,4) False by auto
  with nul_read [OF assms(1,3), of "w\<lparr>arrivals := ss\<rparr>" v "last u"] show ?thesis by (simp add: cstr_def)
qed

subsection \<open>Request texts are complete requests\<close>

lemma blank_line_after_line:
  "CR \<notin> set l \<Longrightarrow> l @ CR # LF # q = u @ blank_line @ v \<Longrightarrow>
    (u = l \<and> q = CR # LF # v) \<or> (\<exists>u'. u = l @ CR # LF # u' \<and> q = u' @ blank_line @ v)"
proof (induction l arbitrary: u)
  case Nil
  then show ?case
    by (cases u rule: list.exhaust [case_product list.exhaust])
      (auto simp: Cons_eq_append_conv append_eq_Cons_conv)
next
  case (Cons c l)
  show ?case
  proof (cases u)
    case Nil
    with Cons.prems show ?thesis by auto
  next
    case (Cons d u1)
    with Cons.IH [of u1] Cons.prems show ?thesis by auto
  qed
qed

lemma header_text_complete:
  "list_all valid_header kvs \<Longrightarrow> l \<noteq> [] \<Longrightarrow> CR \<notin> set l \<Longrightarrow>
    l @ CR # LF # header_text kvs @ [CR, LF] = u @ blank_line @ v \<Longrightarrow> v = []"
proof (induction kvs arbitrary: l u)
  case Nil
  with blank_line_after_line [OF Nil(3,4)] show ?case
    by (auto simp: header_text_def Cons_eq_append_conv append_eq_Cons_conv)
next
  case (Cons kv kvs)
  let ?h = "fst kv @ CHR '':'' # SP # snd kv"
  have kv: "?h \<noteq> []" "CR \<notin> set ?h" using Cons.prems(1) by (auto simp: valid_header_def)
  have q: "header_text (kv # kvs) @ [CR, LF] = ?h @ CR # LF # header_text kvs @ [CR, LF]"
    by (simp add: header_text_Cons)
  have "h @ r \<noteq> CR # r'" if "h \<noteq> []" "CR \<notin> set h" for h r r'
    using that by (cases h) auto
  with kv have "\<not> (\<exists>r. header_text (kv # kvs) @ [CR, LF] = CR # r)"
    unfolding q by blast
  with blank_line_after_line [OF Cons.prems(3,4)] obtain u' where
    "?h @ CR # LF # header_text kvs @ [CR, LF] = u' @ blank_line @ v" unfolding q by auto
  with Cons.IH [OF _ kv(1,2)] Cons.prems(1) show ?case by simp
qed

lemma request_text_complete:
  assumes "httpserv_http_strmethod mth = Some m" and "CR \<notin> set p" and "no_nul p"
    and "CR \<notin> set ver" and "no_nul ver" and "list_all valid_header kvs"
  shows "complete_request (request_text m p ver kvs)"
proof -
  let ?l = "m @ SP # p @ SP # ver" and ?t = "request_text m p ver kvs"
  have l: "?l \<noteq> []" "CR \<notin> set ?l" "no_nul ?l" using assms(1-5) by (cases mth; auto)+
  have t: "?t = ?l @ CR # LF # header_text kvs @ [CR, LF]" by (simp add: request_text_def)
  have "\<exists>u. CR # LF # header_text kvs @ [CR, LF] = u @ blank_line"
  proof (cases kvs rule: rev_cases)
    case (snoc xs x)
    then have "CR # LF # header_text kvs @ [CR, LF] = (CR # LF # header_text xs @ header_line x) @ blank_line"
      by (simp add: header_text_def)
    then show ?thesis by blast
  qed (simp add: header_text_def)
  then have "stops ?t" using l(1) unfolding t stops_def by (metis append.assoc append_is_Nil_conv)
  moreover have "no_nul ?t"
  proof -
    have "no_nul (header_text kvs)" using assms(6)
      by (induction kvs) (auto simp: header_text_def header_line_def valid_header_def)
    with l(3) show ?thesis unfolding t by auto
  qed
  moreover have "\<not> stops (take i ?t)" if "i < length ?t" for i
  proof
    assume "stops (take i ?t)"
    then obtain u where "take i ?t = u @ blank_line" by (auto simp: stops_def)
    then have "?t = u @ blank_line @ drop i ?t" by (metis append.assoc append_take_drop_id)
    then have "drop i ?t = []" using header_text_complete [OF assms(6) l(1,2)] unfolding t by metis
    with that show False by simp
  qed
  ultimately show ?thesis by (simp add: complete_request_def)
qed

end
