(* ===== verification/WorkerProps.thy ===== *)
theory WorkerProps
  imports WorkerRead RequestProps ResponseBuild RouterProps ResourceProps
begin

section \<open>What the worker answers\<close>

text \<open>
  The worker run from the first byte of a request to the closed connection: the bytes it
  writes for a resource that exists and for a redirect, and the requests on which it fails,
  never returns, or does not answer.
\<close>

subsection \<open>Responses without a body\<close>

definition headers_length :: "string list \<Rightarrow> nat" where
  "headers_length hs = (\<Sum>h\<leftarrow>hs. length h + 2)"

text \<open>A response created for the reason phrase \<open>reason0\<close> whose status is now \<open>st\<close>.\<close>

definition plain_response :: "int \<Rightarrow> string \<Rightarrow> string list \<Rightarrow> httpserv_http_response_t" where
  "plain_response st reason0 hs = \<lparr>status = st, resp_headers = hs, resp_body = None, numheads = length hs,
     bodylength = 0, lenght = 17 + length reason0 + headers_length hs\<rparr>"

definition wire_text :: "int \<Rightarrow> string \<Rightarrow> string list \<Rightarrow> string" where
  "wire_text st reason hs = ''HTTP/1.1 '' @ dec (nat st) @ '' '' @ reason @ [CR, LF]
     @ concat (map (\<lambda>h. h @ [CR, LF]) hs) @ [CR, LF]"

lemma new_response_plain:
  "httpserv_http_strstatus st = Some reason \<Longrightarrow> httpserv_http_response_new st = Inr (plain_response st reason [])"
  by (simp add: httpserv_http_response_new_def plain_response_def headers_length_def)

lemma plain_response_status: "plain_response st reason0 hs\<lparr>status := st'\<rparr> = plain_response st' reason0 hs"
  by (simp add: plain_response_def)

lemma header_added_plain:
  assumes "no_nul k" and "no_nul v" and "8 * (length hs + 1) \<le> env_usable env (length hs + 1)"
  shows "header_added env (plain_response st reason0 hs) k v = Inr (plain_response st reason0 (hs @ [k @ '': '' @ v]))"
  using assms add_header_result [OF assms(1,2), of "env_usable env" "plain_response st reason0 hs"]
  by (simp add: header_added_def plain_response_def headers_length_def)

lemma response_text_plain: "response_text (plain_response st reason0 hs) reason [] = wire_text st reason hs"
  by (simp add: response_text_def head_pieces_def wire_text_def plain_response_def)

lemma plain_wf: "list_all no_nul hs \<Longrightarrow> wf_response reason0 (plain_response st reason0 hs)"
  by (simp add: wf_response_def plain_response_def headers_length_def)

lemma wire_text_length:
  assumes "httpserv_http_strstatus st = Some reason"
  shows "length (wire_text st reason hs) = 17 + length reason + headers_length hs"
proof -
  have "httpserv_http_status_valid st" using assms by (simp add: httpserv_http_status_valid_def)
  then have "length (dec (nat st)) = 3" by (intro status_digits) (auto dest: status_valid_bounds)
  moreover have "length (concat (map (\<lambda>h. h @ [CR, LF]) hs)) = headers_length hs"
    by (induction hs) (simp_all add: headers_length_def)
  ultimately show ?thesis by (simp add: wire_text_def)
qed

definition server_header :: string where
  "server_header = ''Server: cweb/0.1.0''"

lemma server_version_text: "\<exists>vb. httpserv_http_server_version = Inr vb \<and> cstr_of vb = Inr ''cweb/0.1.0''"
proof -
  have "bindR httpserv_http_server_version cstr_of = Inr ''cweb/0.1.0''" by code_simp
  then show ?thesis by (auto simp: bindR_Inr_iff)
qed

text \<open>Sending: the length field cuts the text to what it was for the first reason phrase.\<close>

lemma send_plain:
  assumes "list_all no_nul hs" and "httpserv_http_strstatus st = Some reason" and "length reason0 \<le> length reason"
    and "8 * (length hs + 1) \<le> env_usable env (length hs + 1)"
    and "length (wire_text st reason (hs @ [server_header])) < env_usable env (17 + length reason0 + headers_length (hs @ [server_header]))"
    and "channel_of conn (w_ckind data) = Some ch"
  shows "send_response env data conn (plain_response st reason0 hs) res w =
    bindR (httpserv_resource_write_to_conn res (Some conn) (w_ckind data) (w_resources w)
        (emit [sent ch (take (17 + length reason0 + headers_length (hs @ [server_header]))
          (wire_text st reason (hs @ [server_header])))] (w_net w)))
      (\<lambda>n. Inr ([], w\<lparr>w_net := n\<rparr>))"
proof -
  let ?hs = "hs @ [server_header]" and ?r = "plain_response st reason0 (hs @ [server_header])"
  let ?n = "17 + length reason0 + headers_length ?hs"
  obtain vb where vb: "httpserv_http_server_version = Inr vb" "cstr_of vb = Inr ''cweb/0.1.0''"
    using server_version_text by blast
  have hdr: "header_added env (plain_response st reason0 hs) ''Server'' ''cweb/0.1.0'' = Inr ?r"
    using header_added_plain [of "''Server''" "''cweb/0.1.0''" hs env st reason0] assms(4) by (simp add: server_header_def)
  have len: "lenght ?r = ?n" "status ?r = st" "body_bytes ?r = Inr []"
    by (simp_all add: plain_response_def body_bytes_def)
  have wf: "wf_response reason0 ?r" using assms(1) by (intro plain_wf) (simp add: server_header_def)
  have wire: "response_text ?r reason [] = wire_text st reason ?hs" by (rule response_text_plain)
  have fits: "length (response_text ?r reason []) < env_usable env (lenght ?r)" unfolding wire len by (rule assms(5))
  have "?n \<le> length (response_text ?r reason [])" unfolding wire wire_text_length [OF assms(2)] using assms(3) by simp
  then have le: "lenght ?r \<le> env_usable env (lenght ?r)" using fits unfolding len by simp
  obtain raw where raw: "httpserv_http_response_build (env_usable env) ?r = Inr (Some raw)"
    "raw_bytes raw = Inr (take ?n (wire_text st reason ?hs @ replicate ?n NUL))"
    using build_fits [where us = "env_usable env", OF _ wf len(3) le fits] assms(2) len(1,2) wire by auto
  have "take ?n (wire_text st reason ?hs @ replicate ?n NUL) = take ?n (wire_text st reason ?hs)"
    using wire_text_length [OF assms(2), of ?hs] assms(3) by simp
  with raw show ?thesis
    by (simp add: send_response_def vb hdr channel_write [OF assms(6)])
qed

subsection \<open>The length of a file in decimal\<close>

lemma length_dec_ilog10: "length (dec n) = ilog10 n + 1"
proof (induction n rule: dec.induct)
  case (1 n)
  then show ?case by (cases "n < 10") (simp_all add: dec.simps [of n] ilog10.simps [of n])
qed

lemma found_plain:
  assumes "0 < res_size r" and "8 * (length hs + 1) \<le> env_usable env (length hs + 1)"
  shows "found env r (plain_response st reason0 hs)
    = Inr (plain_response st reason0 (hs @ [''Content-Lenght: '' @ dec (res_size r)]))"
proof -
  let ?n = "ilog10 (res_size r) + 2"
  have "snprintf (malloc ?n) ?n (dec (res_size r)) = Inr (cstr (dec (res_size r)))"
    by (simp add: snprintf_def wr_run_def cstr_def malloc_def length_dec_ilog10)
  then show ?thesis
    using assms header_added_plain [of "''Content-Lenght''" "dec (res_size r)" hs env st reason0]
    by (simp add: found_def log10_int_def cstr_of_cstr)
qed

subsection \<open>A worker that is ready\<close>

text \<open>An open connection, a router with the given entries and a loader below a root.\<close>

definition ready :: "worker_data \<Rightarrow> 'p world \<Rightarrow> channel \<Rightarrow> 'p entry list \<Rightarrow> string \<Rightarrow> nat list \<Rightarrow> bool" where
  "ready data w ch es rt as \<longleftrightarrow> (\<exists>conn. w_conn data = Some conn \<and> channel_of conn (w_ckind data) = Some ch)
     \<and> (\<exists>a. w_router data = Some a \<and> router_has a (w_routes w) es)
     \<and> (\<exists>b. w_resload data = Some b \<and> loader_at b rt (w_resources w) as)"

lemma ready_net: "ready data w ch es rt as \<Longrightarrow> ready data (w\<lparr>w_net := n\<rparr>) ch es rt as"
  by (simp add: ready_def)

text \<open>The path that is loaded for a request path, and what routing it logs.\<close>

definition loads_path :: "'p worker_env \<Rightarrow> 'p entry list \<Rightarrow> string \<Rightarrow> string \<Rightarrow> log_event list \<Rightarrow> bool" where
  "loads_path env es q t evs \<longleftrightarrow> (case route_for (env_regexec env) es q of
     None \<Rightarrow> t = q \<and> evs = []
   | Some e \<Rightarrow> snd (snd e) = HTTPSERV_ROUTE_KIND_ALIAS \<and> t = fst (snd e) \<and> evs = [entry_event e q])"

lemma choose_outcome:
  assumes "ready data w ch es rt as" and "no_nul (path rq)"
  shows "case route_for (env_regexec env) es (path rq) of
      None \<Rightarrow> choose_target env data (Some rq) resp w = ret (resp, Some (path rq), None, [])
    | Some e \<Rightarrow> \<exists>n. route_entry n = e \<and> choose_target env data (Some rq) resp w = (case snd (snd e) of
          HTTPSERV_ROUTE_KIND_ALIAS \<Rightarrow> ret (resp, Some (fst (snd e)), Some n, [entry_event e (path rq)])
        | HTTPSERV_ROUTE_KIND_REDIRECT \<Rightarrow> ret (resp\<lparr>status := 301\<rparr>, None, Some n, [entry_event e (path rq)])
        | HTTPSERV_ROUTE_KIND_ROUTE \<Rightarrow> ret (resp\<lparr>status := 302\<rparr>, None, Some n, [entry_event e (path rq)]))"
proof -
  obtain a where a: "w_router data = Some a" "router_has a (w_routes w) es"
    using assms(1) by (auto simp: ready_def)
  note l = lookup_outcome [OF a(2) assms(2), of "env_regexec env"]
  show ?thesis
  proof (cases "route_for (env_regexec env) es (path rq)")
    case None
    with l a(1) show ?thesis by (auto simp: choose_target_def ret_def)
  next
    case (Some e)
    with l obtain b n where b: "httpserv_router_lookup (env_regexec env) (Some a) (Some (path rq)) (w_routes w)
        = ret (Some b, [entry_event e (path rq)])" "cells (routes (w_routes w)) b = Some n" "route_entry n = e" by auto
    then have "kind n = snd (snd e)" "routepattern n = fst (snd e)" by (auto simp: route_entry_def)
    with b a(1) Some show ?thesis
      by (simp, intro exI [of _ n]) (simp add: choose_target_def ret_def heap_simps split: httpserv_route_kind_t.split)
  qed
qed

lemma choose_loads:
  assumes "ready data w ch es rt as" and "no_nul (path rq)" and "loads_path env es (path rq) t evs"
  shows "\<exists>route. choose_target env data (Some rq) resp w = ret (resp, Some t, route, evs)"
  using choose_outcome [OF assms(1,2), of env resp] assms(3)
  by (cases "route_for (env_regexec env) es (path rq)") (auto simp: loads_path_def)

text \<open>Storage for two headers, and for the text of a response of the given length.\<close>

definition room_for :: "'p worker_env \<Rightarrow> nat \<Rightarrow> nat \<Rightarrow> bool" where
  "room_for env n need \<longleftrightarrow> 8 \<le> env_usable env 1 \<and> 16 \<le> env_usable env 2 \<and> need < env_usable env n"

definition length_header :: "nat \<Rightarrow> string" where
  "length_header n = ''Content-Lenght: '' @ dec n"

definition ok_text :: "nat \<Rightarrow> string" where
  "ok_text n = wire_text 200 ''OK'' [length_header n, server_header]"

lemma strstatus_facts:
  "httpserv_http_strstatus 200 = Some ''OK''" "httpserv_http_strstatus 301 = Some ''Moved Permanently''"
  "httpserv_http_strstatus 302 = Some ''Found''" "httpserv_http_strstatus 404 = Some ''Not Found''"
  "httpserv_http_strstatus 400 = Some ''Bad Request''"
  by code_simp+

lemma ok_text_length: "length (ok_text n) = 17 + length ''OK'' + headers_length [length_header n, server_header]"
  unfolding ok_text_def by (rule wire_text_length) (simp add: strstatus_facts)

text \<open>What the loader returns decides: a resource with bytes, an empty one, or none.\<close>

lemma respond_loaded:
  assumes "ready data w ch es rt as" and "no_nul (path rq)" and "loads_path env es (path rq) t evs"
    and "httpserv_http_strmethod (req_method rq) = Some m"
    and "httpserv_resource_loader_load (env_files env) (w_resload data) (Some t) (w_resources w) = ret (Some c, [], rs)"
    and "cells (resources rs) c = Some x" and "res_size x = length (contents x)" and "contents x \<noteq> []"
    and "room_for env (length (ok_text (length (contents x)))) (length (ok_text (length (contents x))))"
    and "w_conn data = Some conn"
  shows "\<exists>w'. respond env data conn (Some rq) w = ret ((LOG, ''request: '' @ m @ '' '' @ path rq) # evs, w')
    \<and> io (w_net w') = io (w_net w) @ [sent ch (ok_text (length (contents x))), sent ch (contents x)]
        @ closing (ssl_fd (w_net w)) ch
    \<and> w_routes w' = w_routes w"
proof -
  let ?n = "length (contents x)" and ?r0 = "plain_response 200 ''OK'' []"
  have b: "channel_of conn (w_ckind data) = Some ch" using assms(1,10) by (simp add: ready_def)
  obtain route where ch: "choose_target env data (Some rq) ?r0 w = ret (?r0, Some t, route, evs)"
    using choose_loads [OF assms(1-3)] by blast
  let ?w = "w\<lparr>w_resources := rs\<rparr>" and ?h = "[length_header ?n]"
  have fnd: "found env x ?r0 = Inr (plain_response 200 ''OK'' ?h)"
    using found_plain [of x "[]" env 200 "''OK''"] assms(7-9) by (simp add: room_for_def length_header_def)
  have fill: "fill_response env data (Some t) route ?r0 w = ret (plain_response 200 ''OK'' ?h, Some c, [], ?w)"
    using assms(5,6) fnd by (simp add: fill_response_def heap_simps ret_def)
  have nn: "list_all no_nul ?h" by (simp add: length_header_def)
  have room: "8 * (length ?h + 1) \<le> env_usable env (length ?h + 1)"
    "length (ok_text ?n) < env_usable env (17 + length ''OK'' + headers_length (?h @ [server_header]))"
    using assms(9) ok_text_length [of ?n] by (simp_all add: room_for_def numeral_2_eq_2)
  have cut: "take (17 + length ''OK'' + headers_length (?h @ [server_header])) (ok_text ?n) = ok_text ?n"
    using ok_text_length [of ?n] by simp
  have ws: "wire_text 200 ''OK'' (?h @ [server_header]) = ok_text ?n" by (simp add: ok_text_def)
  have send: "send_response env data conn (plain_response 200 ''OK'' ?h) (Some c) ?w
      = Inr ([], ?w\<lparr>w_net := emit [sent ch (ok_text ?n), sent ch (contents x)] (w_net w)\<rparr>)"
    using send_plain [OF nn strstatus_facts(1) order_refl room(1), unfolded ws, OF room(2) b, of "Some c" ?w] assms(6,7)
    unfolding cut by (simp add: channel_resource [OF b])
  show ?thesis
    using ch fill send assms(4) new_response_plain [OF strstatus_facts(1)]
    by (simp add: respond_def request_event_def ret_def channel_close [OF b])
qed

lemma respond_empty_file:
  assumes "ready data w ch es rt as" and "no_nul (path rq)" and "loads_path env es (path rq) t evs"
    and "httpserv_http_strmethod (req_method rq) = Some m"
    and "httpserv_resource_loader_load (env_files env) (w_resload data) (Some t) (w_resources w) = ret (Some c, [], rs)"
    and "cells (resources rs) c = Some x" and "res_size x = 0"
  shows "respond env data conn (Some rq) w = Some (Inl OutOfBounds)"
proof -
  let ?r0 = "plain_response 200 ''OK'' []"
  obtain route where ch: "choose_target env data (Some rq) ?r0 w = ret (?r0, Some t, route, evs)"
    using choose_loads [OF assms(1-3)] by blast
  have "fill_response env data (Some t) route ?r0 w = Some (Inl OutOfBounds)"
    using assms(5-7) by (simp add: fill_response_def heap_simps ret_def found_def log10_int_def)
  with ch assms(4) new_response_plain [OF strstatus_facts(1)] show ?thesis
    by (simp add: respond_def request_event_def ret_def)
qed

lemma respond_unloaded:
  assumes "ready data w ch es rt as" and "no_nul (path rq)" and "loads_path env es (path rq) t evs"
    and "httpserv_http_strmethod (req_method rq) = Some m"
    and "httpserv_resource_loader_load (env_files env) (w_resload data) (Some t) (w_resources w) = ret (None, ev, rs)"
    and "env_junk env = []"
  shows "respond env data conn (Some rq) w = Some (Inl Uninit)"
proof -
  let ?r0 = "plain_response 200 ''OK'' []"
  obtain route where ch: "choose_target env data (Some rq) ?r0 w = ret (?r0, Some t, route, evs)"
    using choose_loads [OF assms(1-3)] by blast
  have "not_found env ?r0 = Inl Uninit"
  proof -
    have "log10_int (length httpserv_http_response_default) = Inr 1" by code_simp
    moreover have "glibc_realloc had (length httpserv_http_response_default)" for had
      by (simp add: glibc_realloc_def httpserv_http_response_default_def)
    ultimately show ?thesis
      using assms(6) by (simp add: not_found_def httpserv_http_response_set_body_def cstr_def malloc_junk_def)
  qed
  with assms(5) have "fill_response env data (Some t) route ?r0 w = Some (Inl Uninit)"
    by (simp add: fill_response_def ret_def)
  with ch assms(4) new_response_plain [OF strstatus_facts(1)] show ?thesis
    by (simp add: respond_def request_event_def ret_def)
qed

lemma respond_found:
  assumes "ready data w ch es rt as" and "no_nul (path rq)" and "loads_path env es (path rq) t evs" and "no_nul t"
    and "httpserv_http_strmethod (req_method rq) = Some m"
    and "cached (w_resources w) as (rt @ t) = None"
    and "provides (env_files env) (open_fds (w_resources w)) (rt @ t) bytes" and "bytes \<noteq> []"
    and "room_for env (length (ok_text (length bytes))) (length (ok_text (length bytes)))"
    and "w_conn data = Some conn"
  shows "\<exists>w'. respond env data conn (Some rq) w = ret ((LOG, ''request: '' @ m @ '' '' @ path rq) # evs, w')
    \<and> io (w_net w') = io (w_net w) @ [sent ch (ok_text (length bytes)), sent ch bytes] @ closing (ssl_fd (w_net w)) ch
    \<and> w_routes w' = w_routes w"
proof -
  obtain b where b: "w_resload data = Some b" "loader_at b rt (w_resources w) as" using assms(1) by (auto simp: ready_def)
  define x where "x = \<lparr>res_path = rt @ t, contents = bytes, res_size = length bytes,
    fd = os_open (env_files env) (open_fds (w_resources w)) (rt @ t), res_next = None\<rparr>"
  obtain rs c where rs: "httpserv_resource_loader_load (env_files env) (w_resload data) (Some t) (w_resources w)
      = ret (Some c, [], rs)" "cells (resources rs) c = Some x"
    using load_outcome [OF b(2) assms(4), of "env_files env"] resource_new_provided [OF assms(7)] b(1) assms(6)
    by (auto simp: alloc_def x_def)
  from respond_loaded [OF assms(1-3,5) rs _ _ _ assms(10)] assms(8,9) show ?thesis by (simp add: x_def)
qed

lemma respond_missing:
  assumes "ready data w ch es rt as" and "no_nul (path rq)" and "loads_path env es (path rq) t evs" and "no_nul t"
    and "httpserv_http_strmethod (req_method rq) = Some m"
    and "cached (w_resources w) as (rt @ t) = None" and "\<not> os_access (env_files env) (rt @ t)"
    and "env_junk env = []"
  shows "respond env data conn (Some rq) w = Some (Inl Uninit)"
proof -
  obtain b where b: "w_resload data = Some b" "loader_at b rt (w_resources w) as" using assms(1) by (auto simp: ready_def)
  have "httpserv_resource_loader_load (env_files env) (w_resload data) (Some t) (w_resources w)
      = ret (None, [], w_resources w)"
    using load_outcome [OF b(2) assms(4), of "env_files env"] b(1) assms(6,7) by (simp add: httpserv_resource_new_def)
  from respond_unloaded [OF assms(1-3,5) this assms(8)] show ?thesis .
qed

lemma respond_no_request: "respond env data conn None w = Some (Inl NullDeref)"
  using new_response_plain [OF strstatus_facts(5)]
  by (simp add: respond_def request_event_def choose_target_def)

text \<open>A route of one of the two kinds that answer with a Location header.\<close>

definition moved_status :: "httpserv_route_kind_t \<Rightarrow> int" where
  "moved_status k = (if k = HTTPSERV_ROUTE_KIND_REDIRECT then 301 else 302)"

definition moved_text :: "httpserv_route_kind_t \<Rightarrow> string \<Rightarrow> string" where
  "moved_text k t = wire_text (moved_status k) (if k = HTTPSERV_ROUTE_KIND_REDIRECT then ''Moved Permanently'' else ''Found'')
     [''Location: '' @ t, server_header]"

definition moved_length :: "string \<Rightarrow> nat" where
  "moved_length t = 17 + length ''OK'' + headers_length [''Location: '' @ t, server_header]"

lemma moved_text_length:
  "length (moved_text k t) = moved_length t + (if k = HTTPSERV_ROUTE_KIND_REDIRECT then 15 else 3)"
  by (simp add: moved_text_def moved_status_def moved_length_def wire_text_length strstatus_facts)

lemma respond_moved:
  assumes "ready data w ch es rt as" and "no_nul (path rq)"
    and "route_for (env_regexec env) es (path rq) = Some (pt, t, k)" and "k \<noteq> HTTPSERV_ROUTE_KIND_ALIAS" and "no_nul t"
    and "httpserv_http_strmethod (req_method rq) = Some m"
    and "room_for env (moved_length t) (length (moved_text k t))" and "w_conn data = Some conn"
  shows "\<exists>w'. respond env data conn (Some rq) w
      = ret ([(LOG, ''request: '' @ m @ '' '' @ path rq), entry_event (pt, t, k) (path rq)], w')
    \<and> io (w_net w') = io (w_net w) @ [sent ch (take (moved_length t) (moved_text k t))] @ closing (ssl_fd (w_net w)) ch"
proof -
  let ?r0 = "plain_response 200 ''OK'' []" and ?st = "moved_status k" and ?h = "[''Location: '' @ t]"
  let ?reason = "if k = HTTPSERV_ROUTE_KIND_REDIRECT then ''Moved Permanently'' else ''Found''"
  have b: "channel_of conn (w_ckind data) = Some ch" using assms(1,8) by (simp add: ready_def)
  obtain n where n: "route_entry n = (pt, t, k)" and
    ch: "choose_target env data (Some rq) ?r0 w = ret (plain_response ?st ''OK'' [], None, Some n, [entry_event (pt, t, k) (path rq)])"
    using choose_outcome [OF assms(1,2), of env ?r0] assms(3,4)
    by (cases k) (auto simp: moved_status_def plain_response_status)
  have kn: "kind n = k" "routepattern n = t" using n by (auto simp: route_entry_def)
  have room1: "8 * (length ([] :: string list) + 1) \<le> env_usable env (length ([] :: string list) + 1)"
    using assms(7) by (simp add: room_for_def)
  have fill: "fill_response env data None (Some n) (plain_response ?st ''OK'' []) w
      = ret (plain_response ?st ''OK'' ?h, None, [], w)"
    using header_added_plain [of "''Location''" t "[]" env ?st "''OK''"] room1 assms(4,5) kn
    by (simp add: fill_response_def ret_def)
  have nn: "list_all no_nul ?h" using assms(5) by simp
  have reason: "httpserv_http_strstatus ?st = Some ?reason" "length ''OK'' \<le> length ?reason"
    by (simp_all add: moved_status_def strstatus_facts)
  have ws: "wire_text ?st ?reason (?h @ [server_header]) = moved_text k t" by (simp add: moved_text_def)
  have room: "8 * (length ?h + 1) \<le> env_usable env (length ?h + 1)"
    "length (moved_text k t) < env_usable env (17 + length ''OK'' + headers_length (?h @ [server_header]))"
    using assms(7) by (simp_all add: room_for_def numeral_2_eq_2 moved_length_def)
  have send: "send_response env data conn (plain_response ?st ''OK'' ?h) None w
      = Inr ([], w\<lparr>w_net := emit [sent ch (take (moved_length t) (moved_text k t))] (w_net w)\<rparr>)"
    using send_plain [OF nn reason room(1), unfolded ws, OF room(2) b, of None w]
    by (simp add: channel_no_resource moved_length_def)
  show ?thesis
    using ch fill send assms(6) new_response_plain [OF strstatus_facts(1)]
    by (simp add: respond_def request_event_def ret_def channel_close [OF b])
qed

subsection \<open>From the first byte\<close>

text \<open>A request text on a plain connection, possibly with more input behind it.\<close>

definition sends :: "'p world \<Rightarrow> httpserv_http_method_t \<Rightarrow> string \<Rightarrow> string \<Rightarrow> (string \<times> string) list \<Rightarrow> string \<Rightarrow> bool" where
  "sends w mth p ver kvs rest \<longleftrightarrow> (\<exists>m. httpserv_http_strmethod mth = Some m
     \<and> concat (arrivals (w_net w)) = request_text m p ver kvs @ rest)
     \<and> SP \<notin> set p \<and> CR \<notin> set p \<and> no_nul p
     \<and> ver \<noteq> [] \<and> CR \<notin> set ver \<and> no_nul ver \<and> list_all valid_header kvs"

definition parsed :: "httpserv_http_method_t \<Rightarrow> string \<Rightarrow> (string \<times> string) list \<Rightarrow> httpserv_http_request_t" where
  "parsed mth p kvs = \<lparr>req_method = mth, path = p, headers = map header_line kvs, numheaders = length kvs,
     body = None, content_length = 0\<rparr>"

lemma initial_content: "wr (malloc 1) 0 NUL = Inr [Some NUL]"
  by (simp add: wr_def malloc_def)

lemma worker_reads:
  assumes "w_conn data = Some conn" and "channel_of conn (w_ckind data) = Some ch" and "handshake (env_ssl_accept env) ch"
    and "concat (arrivals (w_net w)) = t @ rest" and "complete_request t"
    and "httpserv_http_request_from_raw \<lparr>content = Some (cstr t), len = length t\<rparr> = Inr req"
  shows "\<exists>ss. concat ss = rest \<and> httpserv_httpserver_worker env data strerror w =
    (let net1 = (w_net w)\<lparr>arrivals := ss\<rparr> in case req of
      None \<Rightarrow> respond env data conn None (w\<lparr>w_net := net1\<rparr>)
    | Some r \<Rightarrow> bindX (lift_res (read_body env data conn r net1)) (\<lambda>(r', net2). case r' of
        None \<Rightarrow> ret ([(ERR, ''failed to convert number: '' @ strerror)], w\<lparr>w_net := net2\<rparr>)
      | Some r'' \<Rightarrow> respond env data conn (Some r'') (w\<lparr>w_net := net2\<rparr>)))"
proof -
  have rc: "readable_conn conn (w_ckind data)" using assms(2) by (simp add: readable_conn_def)
  obtain ss where ss: "concat ss = rest" "read_request conn (w_ckind data) [Some NUL] 0 [Some NUL] (w_net w)
      = ret (cstr t, length t, (w_net w)\<lparr>arrivals := ss\<rparr>)"
    using read_request_complete [OF rc assms(4,5)] by blast
  then show ?thesis
    using assms(1,6) initial_content handshake_accepted [OF assms(2,3)]
    by (intro exI [of _ ss]) (auto simp: httpserv_httpserver_worker_def httpserv_raw_data_init_def ret_def Let_def
        bindX_def bindR_def split: option.splits sum.splits)
qed

lemma worker_parses:
  assumes "ready data w ch es rt as" and "sends w mth p ver kvs rest"
    and "w_conn data = Some conn" and "handshake (env_ssl_accept env) ch"
  shows "\<exists>ss. concat ss = rest \<and> httpserv_httpserver_worker env data strerror w =
    (let net1 = (w_net w)\<lparr>arrivals := ss\<rparr> in
      bindX (lift_res (read_body env data conn (parsed mth p kvs) net1)) (\<lambda>(r', net2). case r' of
        None \<Rightarrow> ret ([(ERR, ''failed to convert number: '' @ strerror)], w\<lparr>w_net := net2\<rparr>)
      | Some r'' \<Rightarrow> respond env data conn (Some r'') (w\<lparr>w_net := net2\<rparr>)))"
proof -
  obtain m where m: "httpserv_http_strmethod mth = Some m" "concat (arrivals (w_net w)) = request_text m p ver kvs @ rest"
    using assms(2) by (auto simp: sends_def)
  have s: "SP \<notin> set p" "CR \<notin> set p" "no_nul p" "ver \<noteq> []" "CR \<notin> set ver" "no_nul ver" "list_all valid_header kvs"
    using assms(2) by (auto simp: sends_def)
  let ?t = "request_text m p ver kvs"
  have "CR \<notin> set (tl ver)" using s(5) by (auto dest: list.set_sel(2) [OF s(4)])
  then have "httpserv_http_request_from_raw \<lparr>content = Some (cstr ?t), len = length ?t\<rparr> = Inr (Some (parsed mth p kvs))"
    unfolding parsed_def by (intro from_raw_request_text [OF m(1) s(1,3,4) _ s(7)]) (auto simp: holds_text_def cstr_def)
  with worker_reads [OF assms(3) _ assms(4) m(2) request_text_complete [OF m(1) s(2,3,5,6,7)]] assms(1,3) show ?thesis
    by (fastforce simp: ready_def)
qed

text \<open>
  What the first header that begins with Content-Length announces; the worker goes on when
  there is none, or when the length is not zero and can be allocated.
\<close>

definition body_length :: "(string \<times> string) list \<Rightarrow> nat option" where
  "body_length kvs = map_option (\<lambda>kv. to_size_t (strtol (found_value ''Content-Length'' kv)))
     (find (\<lambda>kv. take (length ''Content-Length'') (fst kv) = ''Content-Length'') kvs)"

definition accepts_body :: "'p worker_env \<Rightarrow> (string \<times> string) list \<Rightarrow> bool" where
  "accepts_body env kvs \<longleftrightarrow> (case body_length kvs of None \<Rightarrow> True | Some n \<Rightarrow> 0 < n \<and> env_can_malloc env n)"

lemma accepts_no_headers [simp]: "accepts_body env []"
  by (simp add: accepts_body_def body_length_def)

text \<open>
  The body is read with one call: it holds the piece of the input that has arrived, and what
  is missing of its length was never written.
\<close>

lemma sys_read_new: "\<exists>s ss. take_arrived n (arrivals w) = (s, ss) \<and> length s \<le> n
    \<and> sys_read (malloc n) n w = Inr (map Some s @ replicate (n - length s) None, w\<lparr>arrivals := ss\<rparr>)"
proof -
  obtain s ss where s: "take_arrived n (arrivals w) = (s, ss)" by fastforce
  then have "length s \<le> n" by (rule take_arrived_length)
  with s show ?thesis by (simp add: sys_read_def wr_run_def malloc_def)
qed

lemma read_body_accepted:
  assumes "channel_of conn (w_ckind data) = Some ch" and "list_all valid_header kvs" and "accepts_body env kvs"
  shows "\<exists>r s ss. read_body env data conn (parsed mth p kvs) net1 = Inr (Some r, net1\<lparr>arrivals := ss\<rparr>)
    \<and> path r = p \<and> req_method r = mth \<and> concat (arrivals net1) = s @ concat ss
    \<and> (case body_length kvs of None \<Rightarrow> s = [] \<and> body r = None
       | Some n \<Rightarrow> length s \<le> n \<and> body r = Some (map Some s @ replicate (n - length s) None))"
proof -
  have hd: "httpserv_http_request_get_header (Some (parsed mth p kvs)) ''Content-Length''
      = Inr (map_option (found_value ''Content-Length'') (find (\<lambda>kv. take (length ''Content-Length'') (fst kv) = ''Content-Length'') kvs))"
    using get_header_first_prefix [OF assms(2), of "''Content-Length''" "parsed mth p kvs"] by (simp add: parsed_def)
  show ?thesis
  proof (cases "find (\<lambda>kv. take (length ''Content-Length'') (fst kv) = ''Content-Length'') kvs")
    case None
    then show ?thesis using hd
      by (intro exI [of _ "parsed mth p kvs"] exI [of _ "[]"] exI [of _ "arrivals net1"])
        (simp add: read_body_def body_length_def parsed_def)
  next
    case (Some kv)
    define n where "n = to_size_t (strtol (found_value ''Content-Length'' kv))"
    then have bl: "body_length kvs = Some n" using Some by (simp add: body_length_def)
    with assms(3) have n: "0 < n" "env_can_malloc env n" by (simp_all add: accepts_body_def)
    obtain s ss where s: "take_arrived n (arrivals net1) = (s, ss)" "length s \<le> n"
      "sys_read (malloc n) n net1 = Inr (map Some s @ replicate (n - length s) None, net1\<lparr>arrivals := ss\<rparr>)"
      using sys_read_new by blast
    then show ?thesis using hd Some n bl channel_read [OF assms(1)] take_arrived_concat [OF s(1)]
      by (intro exI [of _ "(parsed mth p kvs)\<lparr>body := Some (map Some s @ replicate (n - length s) None), content_length := n\<rparr>"]
          exI [of _ s] exI [of _ ss])
        (simp add: read_body_def n_def [symmetric] httpserv_http_request_set_body_def
          parsed_def)
  qed
qed

lemma worker_responds:
  assumes "ready data w ch es rt as" and "sends w mth p ver kvs rest" and "accepts_body env kvs"
    and "w_conn data = Some conn" and "handshake (env_ssl_accept env) ch"
  shows "\<exists>ss rq. path rq = p \<and> req_method rq = mth \<and> httpserv_httpserver_worker env data strerror w =
    respond env data conn (Some rq) (w\<lparr>w_net := (w_net w)\<lparr>arrivals := ss\<rparr>\<rparr>)"
proof -
  have kvs: "list_all valid_header kvs" "channel_of conn (w_ckind data) = Some ch"
    using assms(1,2,4) by (simp_all add: sends_def ready_def)
  obtain ss where ss: "httpserv_httpserver_worker env data strerror w =
    (let net1 = (w_net w)\<lparr>arrivals := ss\<rparr> in
      bindX (lift_res (read_body env data conn (parsed mth p kvs) net1)) (\<lambda>(r', net2). case r' of
        None \<Rightarrow> ret ([(ERR, ''failed to convert number: '' @ strerror)], w\<lparr>w_net := net2\<rparr>)
      | Some r'' \<Rightarrow> respond env data conn (Some r'') (w\<lparr>w_net := net2\<rparr>)))"
    using worker_parses [OF assms(1,2,4,5), of strerror] by blast
  from read_body_accepted [OF kvs(2,1) assms(3), of mth p "(w_net w)\<lparr>arrivals := ss\<rparr>"] obtain r ss' where
    "read_body env data conn (parsed mth p kvs) ((w_net w)\<lparr>arrivals := ss\<rparr>)
      = Inr (Some r, (w_net w)\<lparr>arrivals := ss\<rparr>\<lparr>arrivals := ss'\<rparr>)" "path r = p" "req_method r = mth" by blast
  with ss show ?thesis by (intro exI [of _ ss'] exI [of _ r]) simp
qed

end
