(* ===== verification/WorkerAnswers.thy ===== *)
theory WorkerAnswers
  imports WorkerProps
begin

section \<open>Properties of the worker\<close>

text \<open>
  The answer of the worker to a whole request, the errors of its other paths, and the
  connections on which it does not end.
\<close>

subsection \<open>Example worlds\<close>

definition example_env :: "files \<Rightarrow> string worker_env" where
  "example_env os = \<lparr>env_regexec = prefix_match, env_files = os, env_ssl_accept = (\<lambda>_. 1), env_ssl_error = [],
     env_usable = (\<lambda>n. 8 * n + 64), env_can_malloc = (\<lambda>n. n < 1000), env_junk = []\<rparr>"

definition example_data :: worker_data where
  "example_data = \<lparr>w_conn = Some (SckConn 5), w_ckind = HTTPSERV_NET_CONNECTOR_SCK, w_router = Some 0, w_resload = Some 0\<rparr>"

definition example_world :: "string router_state \<Rightarrow> string list \<Rightarrow> string world" where
  "example_world rs input = \<lparr>w_routes = rs, w_resources = new_loader ''.'',
     w_net = \<lparr>io = [], arrivals = input, next_obj = 0, ssl_fd = (\<lambda>_. -1)\<rparr>\<rparr>"

lemma example_facts [simp]:
  "env_regexec (example_env os) = prefix_match" "env_files (example_env os) = os"
  "env_junk (example_env os) = []" "env_usable (example_env os) n = 8 * n + 64"
  "w_resources (example_world rs input) = new_loader ''.''" "io (w_net (example_world rs input)) = []"
  "arrivals (w_net (example_world rs input)) = input" "ssl_fd (w_net (example_world rs input)) h = -1"
  "env_ssl_accept (example_env os) h = 1"
  by (simp_all add: example_env_def example_world_def)

lemma example_ready: "router_has 0 rs es \<Longrightarrow> ready example_data (example_world rs input) (Plain 5) es ''.'' []"
  using new_loader_at [of "''.''"] by (simp add: ready_def example_data_def example_world_def)

lemma no_routes: "\<exists>rs :: string router_state. router_has 0 rs []"
  using empty_router_new [where 'a = string] by (metis surj_pair)

lemma one_route: "no_nul (fst (snd e)) \<Longrightarrow> \<exists>rs :: string router_state. router_has 0 rs [e]"
  using no_routes rt.add_has by blast

lemma example_room: "room_for (example_env os) n need \<longleftrightarrow> need < 8 * n + 64"
  by (simp add: room_for_def)

text \<open>The same worker on an SSL connection.\<close>

definition example_ssl_data :: worker_data where
  "example_ssl_data = example_data\<lparr>w_ckind := HTTPSERV_NET_CONNECTOR_SSL,
     w_conn := Some (SslConn (Some \<lparr>ssl_ctx = 0, ssl = Some 1, certchains = None, privkey = None\<rparr>))\<rparr>"

lemma example_ssl_ready: "router_has 0 rs es \<Longrightarrow> ready example_ssl_data (example_world rs input) (Secure 1) es ''.'' []"
  using new_loader_at [of "''.''"]
  by (simp add: ready_def example_ssl_data_def example_data_def example_world_def conn_ssl_def the_set_def)

text \<open>A request for a small file, arriving in three pieces, and more behind it.\<close>

definition hello_files :: files where
  "hello_files = one_file 8 ''./a'' ''hello''"

definition hello_input :: "string list" where
  "hello_input = [''GET /a HT'', ''TP/1.1'' @ [CR, LF], [CR, LF] @ ''more'']"

lemma hello_facts:
  "sends (example_world rs hello_input) HTTPSERV_HTTP_METHOD_GET ''/a'' ''HTTP/1.1'' [] ''more''"
  "loads_path (example_env hello_files) [] ''/a'' ''/a'' []"
  "provides hello_files [] (''.'' @ ''/a'') ''hello''"
  "room_for (example_env hello_files) (length (ok_text (length ''hello''))) (length (ok_text (length ''hello'')))"
proof -
  show "room_for (example_env hello_files) (length (ok_text (length ''hello''))) (length (ok_text (length ''hello'')))"
    by (simp add: example_room)
qed (simp_all add: hello_input_def hello_files_def sends_def request_text_def header_text_def loads_path_def route_for_def
      provides_def one_file_def sys_mmap_def)

lemma hello_text: "ok_text (length ''hello'') = ''HTTP/1.1 200 OK'' @ [CR, LF] @ ''Content-Lenght: 5'' @ [CR, LF]
    @ ''Server: cweb/0.1.0'' @ [CR, LF, CR, LF]"
  by code_simp

subsection \<open>A file is served\<close>

lemma serves_file:
  assumes "ready data w ch es rt as" and "sends w mth p ver kvs rest" and "accepts_body env kvs"
    and "handshake (env_ssl_accept env) ch"
    and "loads_path env es p t evs" and "no_nul t"
    and "cached (w_resources w) as (rt @ t) = None"
    and "provides (env_files env) (open_fds (w_resources w)) (rt @ t) bytes" and "bytes \<noteq> []"
    and "room_for env (length (ok_text (length bytes))) (length (ok_text (length bytes)))"
  shows "\<exists>m w'. httpserv_http_strmethod mth = Some m
    \<and> httpserv_httpserver_worker env data strerror w = ret ((LOG, ''request: '' @ m @ '' '' @ p) # evs, w')
    \<and> io (w_net w') = io (w_net w) @ [sent ch (ok_text (length bytes)), sent ch bytes] @ closing (ssl_fd (w_net w)) ch"
proof -
  obtain m where m: "httpserv_http_strmethod mth = Some m" and p: "no_nul p" using assms(2) by (auto simp: sends_def)
  obtain conn where conn: "w_conn data = Some conn" using assms(1) by (auto simp: ready_def)
  obtain ss rq where rq: "path rq = p" "req_method rq = mth" and ss: "httpserv_httpserver_worker env data strerror w =
      respond env data conn (Some rq) (w\<lparr>w_net := (w_net w)\<lparr>arrivals := ss\<rparr>\<rparr>)"
    using worker_responds [OF assms(1-3) conn assms(4)] by blast
  let ?w = "w\<lparr>w_net := (w_net w)\<lparr>arrivals := ss\<rparr>\<rparr>"
  have "\<exists>w'. respond env data conn (Some rq) ?w = ret ((LOG, ''request: '' @ m @ '' '' @ p) # evs, w')
    \<and> io (w_net w') = io (w_net ?w) @ [sent ch (ok_text (length bytes)), sent ch bytes] @ closing (ssl_fd (w_net ?w)) ch
    \<and> w_routes w' = w_routes ?w"
    by (rule respond_found [OF ready_net [OF assms(1)], where rq = rq, unfolded rq])
      (use p m conn assms(5-10) in simp_all)
  with ss m show ?thesis by auto
qed

subsection \<open>A request that is not completed\<close>

text \<open>Some bytes without a NUL byte, and no blank line in them that would end a request.\<close>

definition unfinished :: "string \<Rightarrow> bool" where
  "unfinished t \<longleftrightarrow> t \<noteq> [] \<and> no_nul t \<and> (\<forall>i \<le> length t. \<not> stops (take i t))"

lemma worker_unfinished:
  assumes "w_conn data = Some conn" and "channel_of conn (w_ckind data) = Some ch" and "handshake (env_ssl_accept env) ch"
    and "unfinished (concat (arrivals (w_net w)))"
  shows "httpserv_httpserver_worker env data strerror w = None"
proof -
  have "readable_conn conn (w_ckind data)" using assms(2) by (auto simp: readable_conn_def)
  moreover from assms(4) have "concat (arrivals (w_net w)) \<noteq> []" "no_nul (concat (arrivals (w_net w)))"
    "\<forall>i \<le> length (concat (arrivals (w_net w))). \<not> stops (take i (concat (arrivals (w_net w))))"
    by (simp_all add: unfinished_def)
  ultimately show ?thesis
    using assms(1) handshake_accepted [OF assms(2,3)] initial_content read_request_unfinished [OF _ refl, of conn "w_ckind data" "w_net w" "Some NUL"]
    by (simp add: httpserv_httpserver_worker_def httpserv_raw_data_init_def)
qed

lemma worker_silent:
  assumes "w_conn data = Some conn" and "channel_of conn (w_ckind data) = Some ch" and "handshake (env_ssl_accept env) ch"
    and "concat (arrivals (w_net w)) = []"
  shows "httpserv_httpserver_worker env data strerror w = Some (Inl Uninit)"
proof -
  have "readable_conn conn (w_ckind data)" using assms(2) by (auto simp: readable_conn_def)
  from read_request_nothing [OF this assms(4)] show ?thesis
    using assms(1) handshake_accepted [OF assms(2,3)] initial_content
    by (simp add: httpserv_httpserver_worker_def httpserv_raw_data_init_def)
qed

subsection \<open>Properties\<close>

text \<open>
  C1: a request for a path that no route moves is answered with status 200, the length of the
  file and the server version, then the bytes of the file below the root, after which the
  connection is closed; a body that the request announces is read if its length is not zero
  and can be allocated. (The header of the answer is spelled \<open>Content-Lenght\<close>.)
\<close>

theorem worker_serves_file:
  assumes "ready data w ch es rt as" and "sends w mth p ver kvs rest" and "accepts_body env kvs"
    and "handshake (env_ssl_accept env) ch"
    and "loads_path env es p t evs" and "no_nul t"
    and "cached (w_resources w) as (rt @ t) = None"
    and "provides (env_files env) (open_fds (w_resources w)) (rt @ t) bytes" and "bytes \<noteq> []"
    and "room_for env (length (ok_text (length bytes))) (length (ok_text (length bytes)))"
  shows "\<exists>m w'. httpserv_http_strmethod mth = Some m
    \<and> httpserv_httpserver_worker env data strerror w = ret ((LOG, ''request: '' @ m @ '' '' @ p) # evs, w')
    \<and> io (w_net w') = io (w_net w) @ [sent ch (ok_text (length bytes)), sent ch bytes] @ closing (ssl_fd (w_net w)) ch"
  using assms by (rule serves_file)

theorem worker_serves_file_witness:
  "\<exists>rs w' v'. httpserv_httpserver_worker (example_env hello_files) example_data []
      (example_world rs hello_input) = ret ([(LOG, ''request: GET /a'')], w')
    \<and> io (w_net w') = [Written 5 (''HTTP/1.1 200 OK'' @ [CR, LF] @ ''Content-Lenght: 5'' @ [CR, LF]
        @ ''Server: cweb/0.1.0'' @ [CR, LF, CR, LF]), Written 5 ''hello'', Closed 5]
    \<and> httpserv_httpserver_worker (example_env hello_files) example_ssl_data []
      (example_world rs hello_input) = ret ([(LOG, ''request: GET /a'')], v')
    \<and> io (w_net v') = [SslWritten 1 (''HTTP/1.1 200 OK'' @ [CR, LF] @ ''Content-Lenght: 5'' @ [CR, LF]
        @ ''Server: cweb/0.1.0'' @ [CR, LF, CR, LF]), SslWritten 1 ''hello'', Closed (-1), SslFreed 1]"
proof -
  obtain rs :: "string router_state" where rs: "router_has 0 rs []" using no_routes by blast
  have "\<exists>m w'. httpserv_http_strmethod HTTPSERV_HTTP_METHOD_GET = Some m
    \<and> httpserv_httpserver_worker (example_env hello_files) data [] (example_world rs hello_input)
        = ret ([(LOG, ''request: '' @ m @ '' '' @ ''/a'')], w')
    \<and> io (w_net w') = io (w_net (example_world rs hello_input)) @ [sent ch (ok_text (length ''hello'')), sent ch ''hello'']
        @ closing (ssl_fd (w_net (example_world rs hello_input))) ch"
    if "ready data (example_world rs hello_input) ch [] ''.'' []" "handshake (\<lambda>_. 1) ch" for data ch
    by (intro worker_serves_file [OF that(1) hello_facts(1) _ _ hello_facts(2) _ _ _ _ hello_facts(4)])
      (use hello_facts(3) that(2) in \<open>simp_all add: example_env_def\<close>)
  from this [OF example_ready [OF rs]] this [OF example_ssl_ready [OF rs]] show ?thesis
    unfolding hello_text by (intro exI [of _ rs]) auto
qed

text \<open>
  C32: a request for a file that may not be read takes the branch for status 404, which
  builds its length header from a block that was never written.
\<close>

theorem worker_not_found_uninitialised:
  assumes "ready data w ch es rt as" and "sends w mth p ver kvs rest" and "accepts_body env kvs"
    and "handshake (env_ssl_accept env) ch"
    and "loads_path env es p t evs" and "no_nul t"
    and "cached (w_resources w) as (rt @ t) = None" and "\<not> os_access (env_files env) (rt @ t)"
    and "env_junk env = []"
  shows "httpserv_httpserver_worker env data strerror w = Some (Inl Uninit)"
proof -
  obtain m where m: "httpserv_http_strmethod mth = Some m" and p: "no_nul p" using assms(2) by (auto simp: sends_def)
  obtain conn where conn: "w_conn data = Some conn" using assms(1) by (auto simp: ready_def)
  obtain ss rq where "path rq = p" "req_method rq = mth" "httpserv_httpserver_worker env data strerror w =
      respond env data conn (Some rq) (w\<lparr>w_net := (w_net w)\<lparr>arrivals := ss\<rparr>\<rparr>)"
    using worker_responds [OF assms(1-3) conn assms(4)] by blast
  then show ?thesis
    using respond_missing [OF ready_net [OF assms(1)], of rq env t evs m] p m assms(5-9) by simp
qed

theorem worker_not_found_uninitialised_witness:
  "\<exists>rs. httpserv_httpserver_worker (example_env (one_file 8 ''./a'' ''hello'')) example_data []
      (example_world rs [''GET /b HTTP/1.1'' @ [CR, LF, CR, LF]]) = Some (Inl Uninit)"
proof -
  let ?os = "one_file 8 ''./a'' ''hello''"
  let ?in = "[''GET /b HTTP/1.1'' @ [CR, LF, CR, LF]]"
  obtain rs :: "string router_state" where rs: "router_has 0 rs []" using no_routes by blast
  have "sends (example_world rs ?in) HTTPSERV_HTTP_METHOD_GET ''/b'' ''HTTP/1.1'' [] []"
    by (simp add: sends_def request_text_def header_text_def)
  moreover have "loads_path (example_env ?os) [] ''/b'' ''/b'' []" by (simp add: loads_path_def route_for_def)
  moreover have "\<not> os_access ?os (''.'' @ ''/b'')" by (simp add: one_file_def)
  ultimately have "httpserv_httpserver_worker (example_env ?os) example_data [] (example_world rs ?in) = Some (Inl Uninit)"
    by (intro worker_not_found_uninitialised [OF example_ready [OF rs], of _ _ _ _ "[]" "[]" _ "''/b''" "[]"])
      simp_all
  then show ?thesis by blast
qed

text \<open>
  a complete request that the parser rejects is logged, given status 400, and then its
  path is taken from the request that is not there: the worker reads through \<open>NULL\<close>.
\<close>

theorem worker_bad_request_null:
  assumes "w_conn data = Some conn" and "channel_of conn (w_ckind data) = Some ch" and "handshake (env_ssl_accept env) ch"
    and "concat (arrivals (w_net w)) = t @ rest" and "complete_request t"
    and "httpserv_http_request_from_raw \<lparr>content = Some (cstr t), len = length t\<rparr> = Inr None"
  shows "httpserv_httpserver_worker env data strerror w = Some (Inl NullDeref)"
  using worker_reads [OF assms(1-6), of strerror] respond_no_request by fastforce

lemma concat_blank_line: "complete_request (u @ blank_line)" if "u \<noteq> []" "CR \<notin> set u" "no_nul u"
proof -
  have "\<not> stops (take i (u @ blank_line))" if i: "i < length (u @ blank_line)" for i
  proof
    assume "stops (take i (u @ blank_line))"
    then obtain v where "take i (u @ blank_line) = v @ blank_line" by (auto simp: stops_def)
    then have "u @ CR # LF # [CR, LF] = v @ blank_line @ drop i (u @ blank_line)"
      by (metis append.assoc append_take_drop_id append_Cons append_Nil)
    from blank_line_after_line [OF \<open>CR \<notin> set u\<close> this] i show False
      by (auto simp: Cons_eq_append_conv append_eq_Cons_conv)
  qed
  then show ?thesis using that by (auto simp: complete_request_def stops_def)
qed

theorem worker_bad_request_null_witness:
  "httpserv_httpserver_worker (example_env (one_file 8 ''./a'' ''hello'')) example_data []
      (example_world empty_router_state [''get / HTTP/1.1'' @ blank_line]) = Some (Inl NullDeref)"
proof (rule worker_bad_request_null [where ch = "Plain 5"])
  show "complete_request (''get / HTTP/1.1'' @ blank_line)" by (rule concat_blank_line) simp_all
  show "httpserv_http_request_from_raw \<lparr>content = Some (cstr (''get / HTTP/1.1'' @ blank_line)),
      len = length (''get / HTTP/1.1'' @ blank_line)\<rparr> = Inr None" by code_simp
qed (simp_all add: example_data_def)

text \<open>
  C31: when the client closes the connection after some bytes and before a blank line, the
  worker never returns: it appends the last byte again and again.
\<close>

theorem worker_closed_early_never_returns:
  assumes "w_conn data = Some conn" and "channel_of conn (w_ckind data) = Some ch" and "handshake (env_ssl_accept env) ch"
    and "concat (arrivals (w_net w)) = t" and "t \<noteq> []" and "no_nul t"
    and "\<forall>i \<le> length t. \<not> stops (take i t)"
  shows "httpserv_httpserver_worker env data strerror w = None"
  by (rule worker_unfinished [OF assms(1-3)]) (use assms(4-7) in \<open>simp add: unfinished_def\<close>)

theorem worker_closed_early_never_returns_witness:
  "httpserv_httpserver_worker (example_env (one_file 8 ''./a'' ''hello'')) example_data []
      (example_world empty_router_state [''GET / HTT'', ''P/1.1'']) = None"
proof (rule worker_closed_early_never_returns [where ch = "Plain 5"])
  show "\<forall>i \<le> length (''GET / HTTP/1.1''). \<not> stops (take i ''GET / HTTP/1.1'')"
  proof (intro allI impI notI)
    fix i assume "stops (take i ''GET / HTTP/1.1'')"
    then have "CR \<in> set (take i ''GET / HTTP/1.1'')" by (auto simp: stops_def)
    then show False using set_take_subset [of i "''GET / HTTP/1.1''"] by auto
  qed
qed (simp_all add: example_data_def)

text \<open>
  a connection that is closed without a byte makes the worker read an uninitialised
  byte of its buffer.
\<close>

theorem worker_no_input_uninitialised:
  assumes "w_conn data = Some conn" and "channel_of conn (w_ckind data) = Some ch" and "handshake (env_ssl_accept env) ch"
    and "concat (arrivals (w_net w)) = []"
  shows "httpserv_httpserver_worker env data strerror w = Some (Inl Uninit)"
  using assms by (rule worker_silent)

theorem worker_no_input_uninitialised_witness:
  "httpserv_httpserver_worker (example_env (one_file 8 ''./a'' ''hello'')) example_data []
      (example_world empty_router_state [[]]) = Some (Inl Uninit)"
  by (rule worker_no_input_uninitialised [where ch = "Plain 5"]) (simp_all add: example_data_def)

text \<open>
  a request whose Content-Length converts to zero is dropped: the connection is closed
  without an answer, and the log blames the conversion.
\<close>

theorem worker_drops_empty_body:
  assumes "ready data w ch es rt as" and "sends w mth p ver kvs rest" and "handshake (env_ssl_accept env) ch"
    and "map_of kvs ''Content-Length'' = Some v" and "to_size_t (strtol v) = 0"
    and "\<forall>k \<in> fst ` set kvs. take (length ''Content-Length'') k = ''Content-Length'' \<longrightarrow> k = ''Content-Length''"
  shows "\<exists>w'. httpserv_httpserver_worker env data strerror w
      = ret ([(ERR, ''failed to convert number: '' @ strerror)], w') \<and> io (w_net w') = io (w_net w) @ closing (ssl_fd (w_net w)) ch"
proof -
  have kvs: "list_all valid_header kvs" using assms(2) by (simp add: sends_def)
  obtain conn where conn: "w_conn data = Some conn" "channel_of conn (w_ckind data) = Some ch"
    using assms(1) by (auto simp: ready_def)
  have "httpserv_http_request_get_header (Some (parsed mth p kvs)) ''Content-Length'' = Inr (Some v)"
    using get_header_first_prefix [OF kvs, of "''Content-Length''" "parsed mth p kvs"]
      find_unambiguous [OF assms(6)] assms(4) by (simp add: parsed_def)
  then have "read_body env data conn (parsed mth p kvs) n = Inr (None, emit (closing (ssl_fd n) ch) n)" for n
    using assms(5) by (simp add: read_body_def channel_close [OF conn(2)])
  with worker_parses [OF assms(1,2) conn(1) assms(3), of strerror] show ?thesis by (auto simp: ret_def)
qed

theorem worker_drops_empty_body_witness:
  "\<exists>rs w'. httpserv_httpserver_worker (example_env (one_file 8 ''./a'' ''hello'')) example_data ''Success''
      (example_world rs [''GET /a H'' @ [CR, LF] @ ''Content-Length: 0'' @ [CR, LF, CR, LF]])
        = ret ([(ERR, ''failed to convert number: Success'')], w')
    \<and> io (w_net w') = [Closed 5]"
proof -
  let ?os = "one_file 8 ''./a'' ''hello''"
  let ?in = "[''GET /a H'' @ [CR, LF] @ ''Content-Length: 0'' @ [CR, LF, CR, LF]]"
  obtain rs :: "string router_state" where rs: "router_has 0 rs []" using no_routes by blast
  have "sends (example_world rs ?in) HTTPSERV_HTTP_METHOD_GET ''/a'' ''H'' [(''Content-Length'', ''0'')] []"
    by (simp add: sends_def request_text_def header_text_def header_line_def valid_header_def)
  moreover have "to_size_t (strtol ''0'') = 0" by code_simp
  ultimately have "\<exists>w'. httpserv_httpserver_worker (example_env ?os) example_data ''Success'' (example_world rs ?in)
      = ret ([(ERR, ''failed to convert number: '' @ ''Success'')], w') \<and> io (w_net w') = io (w_net (example_world rs ?in)) @ closing (ssl_fd (w_net (example_world rs ?in))) (Plain 5)"
    by (intro worker_drops_empty_body [OF example_ready [OF rs], of _ _ _ _ "[(''Content-Length'', ''0'')]" "[]" _ "''0''"])
      simp_all
  then show ?thesis by (intro exI [of _ rs]) auto
qed

text \<open>
  C30: a path that a route moves is answered with a status line, the target and the server
  version, cut to the length the text would have with status 200: the last 3 (302) or 15
  (301) bytes are missing, so the blank line that ends the headers never arrives.
\<close>

theorem worker_moved_truncated:
  assumes "ready data w ch es rt as" and "sends w mth p ver kvs rest" and "accepts_body env kvs"
    and "handshake (env_ssl_accept env) ch"
    and "route_for (env_regexec env) es p = Some (pt, t, k)" and "k \<noteq> HTTPSERV_ROUTE_KIND_ALIAS" and "no_nul t"
    and "room_for env (moved_length t) (length (moved_text k t))"
  shows "\<exists>m w'. httpserv_http_strmethod mth = Some m
    \<and> httpserv_httpserver_worker env data strerror w
        = ret ([(LOG, ''request: '' @ m @ '' '' @ p), entry_event (pt, t, k) p], w')
    \<and> io (w_net w') = io (w_net w) @ [sent ch (take (moved_length t) (moved_text k t))] @ closing (ssl_fd (w_net w)) ch
    \<and> length (moved_text k t) = moved_length t + (if k = HTTPSERV_ROUTE_KIND_REDIRECT then 15 else 3)"
proof -
  obtain m where m: "httpserv_http_strmethod mth = Some m" and p: "no_nul p" using assms(2) by (auto simp: sends_def)
  obtain conn where conn: "w_conn data = Some conn" using assms(1) by (auto simp: ready_def)
  obtain ss rq where rq: "path rq = p" "req_method rq = mth" and ss: "httpserv_httpserver_worker env data strerror w =
      respond env data conn (Some rq) (w\<lparr>w_net := (w_net w)\<lparr>arrivals := ss\<rparr>\<rparr>)"
    using worker_responds [OF assms(1-3) conn assms(4)] by blast
  let ?w = "w\<lparr>w_net := (w_net w)\<lparr>arrivals := ss\<rparr>\<rparr>"
  have "\<exists>w'. respond env data conn (Some rq) ?w
      = ret ([(LOG, ''request: '' @ m @ '' '' @ p), entry_event (pt, t, k) p], w')
    \<and> io (w_net w') = io (w_net ?w) @ [sent ch (take (moved_length t) (moved_text k t))] @ closing (ssl_fd (w_net ?w)) ch"
    by (rule respond_moved [OF ready_net [OF assms(1)], where rq = rq, unfolded rq])
      (use p m conn assms(5-8) in simp_all)
  with ss m moved_text_length [of k t] show ?thesis by auto
qed

theorem worker_moved_truncated_witness:
  "\<exists>rs w'. httpserv_httpserver_worker (example_env (one_file 8 ''./a'' ''hello'')) example_data []
      (example_world rs [''GET /old HTTP/1.1'' @ [CR, LF, CR, LF]])
        = ret ([(LOG, ''request: GET /old''), (LOG, ''routing (302): /old => /new'')], w')
    \<and> io (w_net w') = [Written 5 (''HTTP/1.1 302 Found'' @ [CR, LF] @ ''Location: /new'' @ [CR, LF]
        @ ''Server: cweb/0.1.0'' @ [CR]), Closed 5]"
proof -
  let ?os = "one_file 8 ''./a'' ''hello''"
  let ?in = "[''GET /old HTTP/1.1'' @ [CR, LF, CR, LF]]" and ?e = "(''/old'', ''/new'', HTTPSERV_ROUTE_KIND_ROUTE)"
  obtain rs where rs: "router_has 0 rs [?e]" using one_route [of ?e] by auto
  have "sends (example_world rs ?in) HTTPSERV_HTTP_METHOD_GET ''/old'' ''HTTP/1.1'' [] []"
    by (simp add: sends_def request_text_def header_text_def)
  moreover have "route_for prefix_match [?e] ''/old'' = Some ?e" by code_simp
  moreover have facts: "take (moved_length ''/new'') (moved_text HTTPSERV_ROUTE_KIND_ROUTE ''/new'')
      = ''HTTP/1.1 302 Found'' @ [CR, LF] @ ''Location: /new'' @ [CR, LF] @ ''Server: cweb/0.1.0'' @ [CR]"
    "entry_event ?e ''/old'' = (LOG, ''routing (302): /old => /new'')" by code_simp+
  ultimately have "\<exists>m w'. httpserv_http_strmethod HTTPSERV_HTTP_METHOD_GET = Some m
    \<and> httpserv_httpserver_worker (example_env ?os) example_data [] (example_world rs ?in)
        = ret ([(LOG, ''request: '' @ m @ '' '' @ ''/old''), entry_event ?e ''/old''], w')
    \<and> io (w_net w') = io (w_net (example_world rs ?in))
        @ [sent (Plain 5) (take (moved_length ''/new'') (moved_text HTTPSERV_ROUTE_KIND_ROUTE ''/new''))]
        @ closing (ssl_fd (w_net (example_world rs ?in))) (Plain 5)
    \<and> length (moved_text HTTPSERV_ROUTE_KIND_ROUTE ''/new'') = moved_length ''/new'' + (if HTTPSERV_ROUTE_KIND_ROUTE = HTTPSERV_ROUTE_KIND_REDIRECT then 15 else 3)"
    by (intro worker_moved_truncated [OF example_ready [OF rs], of _ _ _ _ "[]" "[]"])
      (simp_all add: example_room moved_text_length)
  then show ?thesis unfolding facts by (intro exI [of _ rs]) auto
qed

end
