(* ===== verification/WorkerSpec.thy ===== *)
theory WorkerSpec
  imports WorkerAnswers
begin

section \<open>What the worker does with any input\<close>

text \<open>
  The contract of \<open>httpserv_httpserver_worker\<close>, as a function from the bytes that arrive to
  the answer: for every input, well formed or not, it says whether a file is sent, a new place is
  named, the connection is dropped, the behaviour is undefined (and why), or the call never
  returns. The worker carries out exactly this answer.
\<close>

subsection \<open>Answers\<close>

datatype answer =
    Served "log_event list" string
  | Moved "log_event list" httpserv_route_kind_t string
  | Dropped
  | Crashes ub
  | Hangs

definition carries_out :: "channel \<Rightarrow> string \<Rightarrow> net \<Rightarrow> answer \<Rightarrow> (log_event list \<times> 'p world) run \<Rightarrow> bool" where
  "carries_out ch strerror n a r \<longleftrightarrow> (case a of
     Served ev bytes \<Rightarrow> \<exists>w'. r = ret (ev, w') \<and>
       io (w_net w') = io n @ [sent ch (ok_text (length bytes)), sent ch bytes] @ closing (ssl_fd n) ch
   | Moved ev k t \<Rightarrow> \<exists>w'. r = ret (ev, w') \<and>
       io (w_net w') = io n @ [sent ch (take (moved_length t) (moved_text k t))] @ closing (ssl_fd n) ch
   | Dropped \<Rightarrow> \<exists>w'. r = ret ([(ERR, ''failed to convert number: '' @ strerror)], w') \<and>
       io (w_net w') = io n @ closing (ssl_fd n) ch
   | Crashes u \<Rightarrow> r = Some (Inl u)
   | Hangs \<Rightarrow> r = None)"

lemma carries_out_net:
  "carries_out ch strerror (n\<lparr>arrivals := ss\<rparr>) a r \<Longrightarrow> carries_out ch strerror n a r"
  by (simp add: carries_out_def split: answer.splits)

text \<open>Storage for the text of the answer.\<close>

fun answer_fits :: "'p worker_env \<Rightarrow> answer \<Rightarrow> bool" where
  "answer_fits env (Served ev bytes) =
     room_for env (length (ok_text (length bytes))) (length (ok_text (length bytes)))"
| "answer_fits env (Moved ev k t) = room_for env (moved_length t) (length (moved_text k t))"
| "answer_fits env _ = True"

subsection \<open>Files\<close>

text \<open>The bytes the loader finds behind a full path: preloaded, or mapped now.\<close>

definition file_of :: "files \<Rightarrow> resource_state \<Rightarrow> nat list \<Rightarrow> string \<Rightarrow> string option" where
  "file_of os st as name = (case cached st as name of
     Some b \<Rightarrow> map_option contents (cells (resources st) b)
   | None \<Rightarrow>
       if os_access os name then
         (case os_stat os name of None \<Rightarrow> None
          | Some n \<Rightarrow> if os_open os (open_fds st) name < 0 then None else sys_mmap os name n)
       else None)"

definition answer_file :: "files \<Rightarrow> resource_state \<Rightarrow> nat list \<Rightarrow> string \<Rightarrow> log_event list \<Rightarrow> answer" where
  "answer_file os st as name ev = (case file_of os st as name of
     None \<Rightarrow> Crashes Uninit
   | Some bytes \<Rightarrow> if bytes = [] then Crashes OutOfBounds else Served ev bytes)"

text \<open>A mapping has the size that was asked for, now and for what was preloaded.\<close>

definition whole_mappings :: "files \<Rightarrow> resource_state \<Rightarrow> nat list \<Rightarrow> bool" where
  "whole_mappings os st as \<longleftrightarrow> (\<forall>name n bytes. os_mmap os name n = Some bytes \<longrightarrow> length bytes = n)
     \<and> (\<forall>b \<in> set as. \<forall>x. cells (resources st) b = Some x \<longrightarrow> res_size x = length (contents x))"

lemma cached_live:
  assumes "loader_at a rt st as" and "cached st as name = Some b"
  shows "b \<in> set as \<and> (\<exists>x. cells (resources st) b = Some x)"
proof -
  have "b \<in> set as" using assms(2) by (auto simp: cached_def find_Some_iff)
  moreover have "\<forall>b \<in> set as. cells (resources st) b \<noteq> None"
    using assms(1) linked_live by (fastforce simp: loader_at_def)
  ultimately show ?thesis by blast
qed

lemma load_file_of:
  assumes "loader_at a rt st as" and "no_nul p" and "whole_mappings os st as"
  shows "case file_of os st as (rt @ p) of
      None \<Rightarrow> \<exists>ev st'. httpserv_resource_loader_load os (Some a) (Some p) st = ret (None, ev, st')
    | Some bytes \<Rightarrow> \<exists>c x st'. httpserv_resource_loader_load os (Some a) (Some p) st = ret (Some c, [], st')
        \<and> cells (resources st') c = Some x \<and> contents x = bytes \<and> res_size x = length bytes"
proof (cases "cached st as (rt @ p)")
  case (Some b)
  with cached_live [OF assms(1)] load_outcome [OF assms(1,2), of os] assms(3) show ?thesis
    by (fastforce simp: file_of_def whole_mappings_def)
next
  case None
  have "length bytes = n" if "sys_mmap os (rt @ p) n = Some bytes" for n bytes
    using assms(3) that by (auto simp: whole_mappings_def sys_mmap_def split: if_splits)
  with None load_outcome [OF assms(1,2), of os] show ?thesis
    by (auto simp: file_of_def httpserv_resource_new_def Let_def alloc_def ret_def split: option.splits)
qed

subsection \<open>Requests\<close>

text \<open>Looking a header up in any request the parser makes.\<close>

definition header_of :: "httpserv_http_request_t \<Rightarrow> string \<Rightarrow> string option" where
  "header_of rq key = map_option (drop (length key + 2)) (find (\<lambda>h. take (length key) h = key) (headers rq))"

lemma get_header_loop_any:
  assumes "\<forall>h \<in> set hs. \<exists>k v. h = header_line (k, v) \<and> no_nul k \<and> no_nul v"
    and "CHR '':'' \<notin> set key" and "no_nul key"
  shows "get_header_loop hs key = Inr (map_option (drop (length key + 2)) (find (\<lambda>h. take (length key) h = key) hs))"
  using assms(1)
proof (induction hs)
  case (Cons h hs)
  obtain k v where h: "h = header_line (k, v)" "no_nul k" "no_nul v" using Cons.prems by auto
  have cmp: "strncmp h key (length key) = 0 \<longleftrightarrow> take (length key) h = key"
    using h assms(3) by (subst strncmp_zero_iff) (auto simp: header_line_def)
  have "length key + 2 \<le> length h" if eq: "take (length key) h = key"
  proof (rule ccontr)
    assume "\<not> length key + 2 \<le> length h"
    then have "length k < length key" by (simp add: h(1) header_line_def)
    then have "take (length key) h ! length k = CHR '':''" by (simp add: h(1) header_line_def nth_append)
    with eq \<open>length k < length key\<close> have "CHR '':'' \<in> set key" by (metis nth_mem)
    with assms(2) show False by blast
  qed
  with Cons cmp show ?case by simp
qed simp

lemma get_header_any:
  "wf_request rq \<Longrightarrow> CHR '':'' \<notin> set key \<Longrightarrow> no_nul key \<Longrightarrow>
    httpserv_http_request_get_header (Some rq) key = Inr (header_of rq key)"
  using get_header_loop_any [of "headers rq" key]
  by (simp add: wf_request_def httpserv_http_request_get_header_def header_of_def)

text \<open>The length of the body that a request announces.\<close>

definition announced :: "httpserv_http_request_t \<Rightarrow> nat option" where
  "announced rq = map_option (\<lambda>h. to_size_t (strtol h)) (header_of rq ''Content-Length'')"

lemma read_body_any:
  assumes "channel_of conn (w_ckind data) = Some ch" and "wf_request rq"
  shows "case announced rq of
      None \<Rightarrow> read_body env data conn rq n = Inr (Some rq, n)
    | Some k \<Rightarrow>
        if k = 0 then read_body env data conn rq n = Inr (None, emit (closing (ssl_fd n) ch) n)
        else if \<not> env_can_malloc env k then read_body env data conn rq n = Inl NullDeref
        else \<exists>b ss. read_body env data conn rq n = Inr (Some (rq\<lparr>body := Some b, content_length := k\<rparr>), n\<lparr>arrivals := ss\<rparr>)"
proof -
  have hd: "httpserv_http_request_get_header (Some rq) ''Content-Length'' = Inr (header_of rq ''Content-Length'')"
    by (rule get_header_any [OF assms(2)]) simp_all
  show ?thesis
  proof (cases "announced rq")
    case None
    then show ?thesis using hd by (simp add: announced_def read_body_def)
  next
    case (Some k)
    obtain s ss where s: "length s \<le> k" "sys_read (malloc k) k n = Inr (map Some s @ replicate (k - length s) None, n\<lparr>arrivals := ss\<rparr>)"
      using sys_read_new by blast
    from Some obtain h where "header_of rq ''Content-Length'' = Some h" "to_size_t (strtol h) = k"
      by (auto simp: announced_def)
    with Some hd s show ?thesis
      by (simp add: read_body_def channel_close [OF assms(1)] channel_read [OF assms(1)] httpserv_http_request_set_body_def) blast
  qed
qed

subsection \<open>The answer to a request\<close>

definition request_log :: "'p worker_env \<Rightarrow> 'p entry list \<Rightarrow> httpserv_http_request_t \<Rightarrow> log_event list" where
  "request_log env es rq = (LOG, ''request: '' @ the (httpserv_http_strmethod (req_method rq)) @ '' '' @ path rq)
     # (case route_for (env_regexec env) es (path rq) of None \<Rightarrow> [] | Some e \<Rightarrow> [entry_event e (path rq)])"

definition answer_path :: "'p worker_env \<Rightarrow> 'p entry list \<Rightarrow> string \<Rightarrow> resource_state \<Rightarrow> nat list
    \<Rightarrow> httpserv_http_request_t \<Rightarrow> answer" where
  "answer_path env es rt rs as rq =
     (case route_for (env_regexec env) es (path rq) of
        None \<Rightarrow> answer_file (env_files env) rs as (rt @ path rq) (request_log env es rq)
      | Some (pt, t, k) \<Rightarrow>
          if k = HTTPSERV_ROUTE_KIND_ALIAS then answer_file (env_files env) rs as (rt @ t) (request_log env es rq)
          else Moved (request_log env es rq) k t)"

definition answer_request :: "'p worker_env \<Rightarrow> 'p entry list \<Rightarrow> string \<Rightarrow> resource_state \<Rightarrow> nat list
    \<Rightarrow> httpserv_http_request_t \<Rightarrow> answer" where
  "answer_request env es rt rs as rq =
     (case announced rq of
        None \<Rightarrow> answer_path env es rt rs as rq
      | Some k \<Rightarrow>
          if k = 0 then Dropped
          else if \<not> env_can_malloc env k then Crashes NullDeref
          else answer_path env es rt rs as rq)"

text \<open>
  The place where reading stops. A NUL byte before that place keeps the worker waiting, also for
  what the client sends later; a second one, or a connection closed behind it, makes it read
  bytes that were never written.
\<close>

definition first_blank :: "string \<Rightarrow> nat option" where
  "first_blank input = find (\<lambda>i. stops (take i input)) [0..<Suc (length input)]"

definition before_nul :: "string \<Rightarrow> string" where
  "before_nul input = takeWhile (\<lambda>c. c \<noteq> NUL) input"

definition endless :: "string \<Rightarrow> bool" where
  "endless input \<longleftrightarrow> first_blank (before_nul input) = None
     \<and> (if before_nul input = input then input \<noteq> [] else waits_for_ever (drop (Suc (length (before_nul input))) input))"

definition parse_text :: "string \<Rightarrow> httpserv_http_request_t option" where
  "parse_text t = (case httpserv_http_request_from_raw \<lparr>content = Some (cstr t), len = length t\<rparr> of
     Inl u \<Rightarrow> None | Inr r \<Rightarrow> r)"

definition answer_to :: "'p worker_env \<Rightarrow> 'p entry list \<Rightarrow> string \<Rightarrow> resource_state \<Rightarrow> nat list \<Rightarrow> string \<Rightarrow> answer" where
  "answer_to env es rt rs as input =
     (case first_blank (before_nul input) of
        None \<Rightarrow> if endless input then Hangs else Crashes Uninit
      | Some i \<Rightarrow>
          (case parse_text (take i input) of
             None \<Rightarrow> Crashes NullDeref
           | Some rq \<Rightarrow> answer_request env es rt rs as rq))"

text \<open>The answers with which the worker returns.\<close>

fun settled :: "answer \<Rightarrow> bool" where
  "settled (Crashes u) = False"
| "settled Hangs = False"
| "settled _ = True"

lemma settled_returns: "carries_out ch strerror n a r \<Longrightarrow> settled a \<Longrightarrow> \<exists>v. r = ret v"
  by (cases a) (auto simp: carries_out_def)

subsection \<open>The worker carries the answer out\<close>

lemma answer_file_done:
  assumes "ready data w ch es rt as" and "no_nul (path rq)" and "loads_path env es (path rq) t evs" and "no_nul t"
    and "httpserv_http_strmethod (req_method rq) = Some m" and "w_conn data = Some conn"
    and "whole_mappings (env_files env) (w_resources w) as" and "env_junk env = []"
    and "ev = (LOG, ''request: '' @ m @ '' '' @ path rq) # evs"
    and "answer_fits env (answer_file (env_files env) (w_resources w) as (rt @ t) ev)"
  shows "carries_out ch strerror (w_net w) (answer_file (env_files env) (w_resources w) as (rt @ t) ev)
    (respond env data conn (Some rq) w)"
proof -
  obtain a where a: "w_resload data = Some a" "loader_at a rt (w_resources w) as" using assms(1) by (auto simp: ready_def)
  note found = load_file_of [OF a(2) assms(4,7)]
  show ?thesis
  proof (cases "file_of (env_files env) (w_resources w) as (rt @ t)")
    case None
    with found a(1) respond_unloaded [OF assms(1-3,5) _ assms(8)] show ?thesis
      by (fastforce simp: answer_file_def carries_out_def)
  next
    case (Some bytes)
    with found a(1) obtain c x rs where x: "httpserv_resource_loader_load (env_files env) (w_resload data) (Some t) (w_resources w)
        = ret (Some c, [], rs)" "cells (resources rs) c = Some x" "contents x = bytes" "res_size x = length bytes" by auto
    show ?thesis
    proof (cases "bytes = []")
      case True
      with Some respond_empty_file [OF assms(1-3,5) x(1,2)] x(4) show ?thesis
        by (simp add: answer_file_def carries_out_def)
    next
      case False
      with Some respond_loaded [OF assms(1-3,5) x(1,2) _ _ _ assms(6)] x(3,4) assms(9,10) show ?thesis
        by (simp add: answer_file_def carries_out_def) blast
    qed
  qed
qed

lemma answer_path_done:
  assumes "ready data w ch es rt as" and "wf_request rq" and "w_conn data = Some conn"
    and "whole_mappings (env_files env) (w_resources w) as" and "env_junk env = []"
    and "answer_fits env (answer_path env es rt (w_resources w) as rq)"
  shows "carries_out ch strerror (w_net w) (answer_path env es rt (w_resources w) as rq) (respond env data conn (Some rq) w)"
proof -
  obtain m where m: "httpserv_http_strmethod (req_method rq) = Some m"
    using assms(2) by (cases "req_method rq") (auto simp: wf_request_def)
  have p: "no_nul (path rq)" using assms(2) by (simp add: wf_request_def)
  note served = answer_file_done [OF assms(1) p _ _ m assms(3-5)]
  show ?thesis
  proof (cases "route_for (env_regexec env) es (path rq)")
    case None
    then have "loads_path env es (path rq) (path rq) []" by (simp add: loads_path_def)
    from served [OF this p refl] None m assms(6) show ?thesis by (simp add: answer_path_def request_log_def)
  next
    case (Some e)
    obtain pt t k where e: "e = (pt, t, k)" by (cases e)
    have "\<forall>e \<in> set es. no_nul (fst (snd e))" using assms(1) by (auto simp: ready_def router_has_def)
    moreover have "e \<in> set es" using Some by (auto simp: route_for_def find_Some_iff in_set_conv_nth split: option.splits if_splits)
    ultimately have t: "no_nul t" using e by auto
    show ?thesis
    proof (cases "k = HTTPSERV_ROUTE_KIND_ALIAS")
      case True
      with Some e have "loads_path env es (path rq) t [entry_event e (path rq)]" by (simp add: loads_path_def)
      from served [OF this t refl] Some e True m assms(6) show ?thesis by (simp add: answer_path_def request_log_def)
    next
      case False
      with respond_moved [OF assms(1) p Some [unfolded e] False t m _ assms(3)] Some e m assms(6) show ?thesis
        by (simp add: answer_path_def request_log_def carries_out_def)
    qed
  qed
qed

lemma answer_request_done:
  assumes "ready data w ch es rt as" and "wf_request rq" and "w_conn data = Some conn"
    and "whole_mappings (env_files env) (w_resources w) as" and "env_junk env = []"
    and "answer_fits env (answer_request env es rt (w_resources w) as rq)"
  shows "carries_out ch strerror n (answer_request env es rt (w_resources w) as rq)
    (bindX (lift_res (read_body env data conn rq n)) (\<lambda>(r', net2). case r' of
        None \<Rightarrow> ret ([(ERR, ''failed to convert number: '' @ strerror)], w\<lparr>w_net := net2\<rparr>)
      | Some r'' \<Rightarrow> respond env data conn (Some r'') (w\<lparr>w_net := net2\<rparr>)))"
proof -
  have conn: "channel_of conn (w_ckind data) = Some ch" using assms(1,3) by (simp add: ready_def)
  note body = read_body_any [OF conn assms(2), of env n]
  have same: "answer_path env es rt rs as (rq\<lparr>body := b, content_length := k\<rparr>) = answer_path env es rt rs as rq" for rs b k
    by (simp add: answer_path_def request_log_def split: option.split)
  have wf: "wf_request (rq\<lparr>body := b, content_length := k\<rparr>)" for b k using assms(2) by (simp add: wf_request_def)
  show ?thesis
  proof (cases "announced rq")
    case None
    with body answer_path_done [OF ready_net [OF assms(1), of n] assms(2,3), of env strerror] assms(4-6) show ?thesis by (simp add: answer_request_def)
  next
    case (Some k)
    show ?thesis
    proof (cases "0 < k \<and> env_can_malloc env k")
      case True
      with Some body obtain b ss where b: "read_body env data conn rq n
        = Inr (Some (rq\<lparr>body := Some b, content_length := k\<rparr>), n\<lparr>arrivals := ss\<rparr>)" by auto
      with True Some answer_path_done [OF ready_net [OF assms(1), of "n\<lparr>arrivals := ss\<rparr>"] wf [of k "Some b"],
          where env = env and conn = conn and strerror = strerror]
        assms(3-6) show ?thesis
        by (simp add: answer_request_def same) (erule carries_out_net)
    next
      case False
      with Some body show ?thesis by (auto simp: answer_request_def carries_out_def ret_def)
    qed
  qed
qed

subsection \<open>Where reading stops\<close>

lemma first_blank_complete:
  assumes "first_blank input = Some i" and "no_nul input"
  shows "complete_request (take i input) \<and> i \<le> length input"
proof -
  have i: "i < Suc (length input)" "stops (take i input)" "\<forall>j < i. \<not> stops (take j input)"
    using assms(1) unfolding first_blank_def find_Some_iff by (auto simp del: upt_Suc)
  with assms(2) show ?thesis by (auto simp: complete_request_def min_absorb1 dest: in_set_takeD)
qed

lemma no_blank: "first_blank u = None \<Longrightarrow> \<forall>i \<le> length u. \<not> stops (take i u)"
  unfolding first_blank_def find_None_iff by (auto simp del: upt_Suc simp: less_Suc_eq_le)

lemma worker_nul:
  assumes "w_conn data = Some conn" and "channel_of conn (w_ckind data) = Some ch" and "handshake (env_ssl_accept env) ch"
    and "concat (arrivals (w_net w)) = u @ NUL # v" and "no_nul u" and "first_blank u = None"
  shows "httpserv_httpserver_worker env data strerror w = (if waits_for_ever v then None else Some (Inl Uninit))"
proof -
  have "readable_conn conn (w_ckind data)" using assms(2) by (auto simp: readable_conn_def)
  from read_request_nul [OF this assms(4,5) no_blank [OF assms(6)]] show ?thesis
    using assms(1) handshake_accepted [OF assms(2,3)] initial_content
    by (simp add: httpserv_httpserver_worker_def httpserv_raw_data_init_def)
qed

lemma parse_text_total:
  "\<exists>r. httpserv_http_request_from_raw \<lparr>content = Some (cstr t), len = length t\<rparr> = Inr r \<and> parse_text t = r
    \<and> (\<forall>q. r = Some q \<longrightarrow> wf_request q)"
proof -
  have "readable (cstr t) (length t)" by (auto simp: readable_def rd_def cstr_def nth_append)
  with from_raw_total [of "\<lparr>content = Some (cstr t), len = length t\<rparr>" "cstr t"] show ?thesis
    by (auto simp: parse_text_def)
qed

lemma cut_at_nul: "s = before_nul s \<or> (\<exists>v. s = before_nul s @ NUL # v)"
  unfolding before_nul_def by (induction s) auto

lemma before_nul_clean: "no_nul (before_nul s)"
  unfolding before_nul_def by (rule no_nul_takeWhile)

lemma worker_no_blank:
  assumes "w_conn data = Some conn" and "channel_of conn (w_ckind data) = Some ch" and "handshake (env_ssl_accept env) ch"
    and "first_blank (before_nul (concat (arrivals (w_net w)))) = None"
  shows "httpserv_httpserver_worker env data strerror w =
    (if endless (concat (arrivals (w_net w))) then None else Some (Inl Uninit))"
proof -
  define input u where "input = concat (arrivals (w_net w))" and "u = before_nul input"
  note none = assms(4) [folded input_def, folded u_def]
  show ?thesis unfolding input_def [symmetric]
  proof (cases "u = input")
    case True
    with none no_blank [OF none] before_nul_clean [of input] have "unfinished input \<longleftrightarrow> input \<noteq> []" "endless input \<longleftrightarrow> input \<noteq> []"
      by (auto simp: unfinished_def endless_def u_def)
    then show "httpserv_httpserver_worker env data strerror w = (if endless input then None else Some (Inl Uninit))"
      using worker_silent [OF assms(1-3), of w, folded input_def] worker_unfinished [OF assms(1-3), of w, folded input_def]
      by simp
  next
    case False
    then obtain v where v: "input = u @ NUL # v" using cut_at_nul [of input] unfolding u_def by metis
    have drop: "drop (Suc (length u)) input = v" by (subst v) simp
    have "endless input \<longleftrightarrow> waits_for_ever (drop (Suc (length u)) input)" using none False by (simp add: endless_def u_def)
    then show "httpserv_httpserver_worker env data strerror w = (if endless input then None else Some (Inl Uninit))"
      using worker_nul [OF assms(1-3) v [unfolded input_def] before_nul_clean [of input, folded u_def] none, of strerror]
      unfolding drop by simp
  qed
qed

lemma worker_answers:
  assumes "ready data w ch es rt as" and "handshake (env_ssl_accept env) ch"
    and "whole_mappings (env_files env) (w_resources w) as" and "env_junk env = []"
    and "answer_fits env (answer_to env es rt (w_resources w) as (concat (arrivals (w_net w))))"
  shows "carries_out ch strerror (w_net w) (answer_to env es rt (w_resources w) as (concat (arrivals (w_net w))))
    (httpserv_httpserver_worker env data strerror w)"
proof -
  define input u where "input = concat (arrivals (w_net w))" and "u = before_nul input"
  obtain conn where conn: "w_conn data = Some conn" "channel_of conn (w_ckind data) = Some ch"
    using assms(1) by (auto simp: ready_def)
  show ?thesis unfolding input_def [symmetric]
  proof (cases "first_blank u")
    case None
    with worker_no_blank [OF conn assms(2), of w, folded input_def, folded u_def]
    show "carries_out ch strerror (w_net w) (answer_to env es rt (w_resources w) as input)
        (httpserv_httpserver_worker env data strerror w)"
      by (simp add: answer_to_def u_def carries_out_def)
  next
    case (Some i)
    let ?t = "take i u"
    obtain more where more: "input = u @ more" using cut_at_nul [of input] unfolding u_def by (metis append_Nil2)
    have complete: "complete_request ?t" "i \<le> length u"
      using first_blank_complete [OF Some] before_nul_clean [of input] by (simp_all add: u_def)
    have cut: "take i input = ?t" using more complete(2) by simp
    have rest: "concat (arrivals (w_net w)) = ?t @ drop i u @ more" using more by (simp add: input_def)
    obtain r where r: "httpserv_http_request_from_raw \<lparr>content = Some (cstr ?t), len = length ?t\<rparr> = Inr r"
      "parse_text ?t = r" "\<And>q. r = Some q \<Longrightarrow> wf_request q" using parse_text_total by blast
    obtain ss where ss: "httpserv_httpserver_worker env data strerror w =
      (let net1 = (w_net w)\<lparr>arrivals := ss\<rparr> in case r of
        None \<Rightarrow> respond env data conn None (w\<lparr>w_net := net1\<rparr>)
      | Some q \<Rightarrow> bindX (lift_res (read_body env data conn q net1)) (\<lambda>(r', net2). case r' of
          None \<Rightarrow> ret ([(ERR, ''failed to convert number: '' @ strerror)], w\<lparr>w_net := net2\<rparr>)
        | Some r'' \<Rightarrow> respond env data conn (Some r'') (w\<lparr>w_net := net2\<rparr>)))"
      using worker_reads [OF conn assms(2) rest complete(1) r(1)] by blast
    have ans: "answer_to env es rt (w_resources w) as input = (case r of None \<Rightarrow> Crashes NullDeref
        | Some q \<Rightarrow> answer_request env es rt (w_resources w) as q)"
      using Some [unfolded u_def] r(2) [folded cut] by (simp add: answer_to_def)
    show "carries_out ch strerror (w_net w) (answer_to env es rt (w_resources w) as input)
        (httpserv_httpserver_worker env data strerror w)"
    proof (cases r)
      case None
      with ans ss show ?thesis by (simp add: carries_out_def respond_no_request)
    next
      case (Some q)
      from answer_request_done [OF assms(1) r(3) [OF Some] conn(1) assms(3,4), of strerror "(w_net w)\<lparr>arrivals := ss\<rparr>"]
        assms(5) [folded input_def] ss Some show ?thesis unfolding ans by (simp add: Let_def) (erule carries_out_net)
    qed
  qed
qed

lemma stops_code [code]: "stops s \<longleftrightarrow> 4 < length s \<and> drop (length s - 4) s = blank_line"
proof
  assume "stops s"
  then show "4 < length s \<and> drop (length s - 4) s = blank_line" by (auto simp: stops_def)
next
  assume r: "4 < length s \<and> drop (length s - 4) s = blank_line"
  then have "s = take (length s - 4) s @ blank_line" by (metis append_take_drop_id)
  moreover have "take (length s - 4) s \<noteq> []" using r by auto
  ultimately show "stops s" unfolding stops_def by blast
qed

lemma hello_answer:
  "answer_to (example_env hello_files) [] ''.'' (new_loader ''.'') [] (concat hello_input) = Served [(LOG, ''request: GET /a'')] ''hello''"
  "answer_fits (example_env hello_files) (Served ev ''hello'')" "whole_mappings hello_files (new_loader ''.'') []"
proof -
  show "answer_to (example_env hello_files) [] ''.'' (new_loader ''.'') [] (concat hello_input)
      = Served [(LOG, ''request: GET /a'')] ''hello''" by code_simp
  show "answer_fits (example_env hello_files) (Served ev ''hello'')" using hello_facts(4) by simp
  show "whole_mappings hello_files (new_loader ''.'') []"
    by (simp add: whole_mappings_def hello_files_def one_file_def)
qed

subsection \<open>Properties\<close>

text \<open>
  C2: the worker implements its contract: on any connection that passes the handshake, whatever
  bytes arrive on it, the worker carries out the answer that \<open>answer_to\<close> computes from them:
  nothing at all or a request the parser rejects is undefined behaviour, input without a blank
  line or with a NUL byte before it is waited for for ever (or, with a second NUL byte, read past
  what was written), a length of zero drops the connection, one that cannot be
  allocated is undefined behaviour, a moved path is answered with its new place, a file with its
  bytes, and a file that is missing, or empty and so cannot be mapped, is undefined behaviour again.
\<close>

theorem worker_carries_out_answer:
  assumes "ready data w ch es rt as" and "handshake (env_ssl_accept env) ch"
    and "whole_mappings (env_files env) (w_resources w) as" and "env_junk env = []"
    and "answer_fits env (answer_to env es rt (w_resources w) as (concat (arrivals (w_net w))))"
  shows "carries_out ch strerror (w_net w) (answer_to env es rt (w_resources w) as (concat (arrivals (w_net w))))
    (httpserv_httpserver_worker env data strerror w)"
  using assms by (rule worker_answers)

theorem worker_carries_out_answer_witness:
  "\<exists>rs. httpserv_httpserver_worker (example_env hello_files) example_data []
        (example_world rs [''GET /a H'' @ [CR, LF] @ ''Content-Length: -1'' @ [CR, LF, CR, LF]]) = Some (Inl NullDeref)
    \<and> httpserv_httpserver_worker (example_env hello_files) example_data [] (example_world rs [''GET /a H'' @ [CR, LF]]) = None
    \<and> httpserv_httpserver_worker (example_env hello_files) example_data []
        (example_world rs [''GET /a'' @ NUL # '' H'' @ [CR, LF, CR, LF]]) = None
    \<and> (\<exists>w'. httpserv_httpserver_worker (example_env hello_files) example_data [] (example_world rs hello_input)
          = ret ([(LOG, ''request: GET /a'')], w')
        \<and> io (w_net w') = [Written 5 (ok_text (length ''hello'')), Written 5 ''hello'', Closed 5])"
proof -
  let ?env = "example_env hello_files" and ?ans = "answer_to (example_env hello_files) [] ''.'' (new_loader ''.'') []"
  let ?long = "[''GET /a H'' @ [CR, LF] @ ''Content-Length: -1'' @ [CR, LF, CR, LF]]" and ?short = "[''GET /a H'' @ [CR, LF]]"
    and ?nul = "[''GET /a'' @ NUL # '' H'' @ [CR, LF, CR, LF]]"
  obtain rs :: "string router_state" where rs: "router_has 0 rs []" using no_routes by blast
  have "map_option (\<lambda>rq. header_of rq ''Content-Length'') (Option.bind (first_blank (concat ?long)) (\<lambda>i. parse_text (take i (concat ?long))))
      = Some (Some ''-1'')" by code_simp
  then obtain i rq where long: "first_blank (concat ?long) = Some i" "parse_text (take i (concat ?long)) = Some rq"
    "header_of rq ''Content-Length'' = Some ''-1''" by (auto simp: bind_eq_Some_conv)
  have "strtol ''-1'' = -1" by code_simp
  then have "to_size_t (strtol ''-1'') = 2 ^ 64 - 1" by (simp add: to_size_t_def unsigned_minus_1_eq_mask mask_eq_exp_minus_1)
  moreover have plain: "before_nul (concat ?long) = concat ?long" by (simp add: before_nul_def)
  ultimately have "announced rq = Some (2 ^ 64 - 1)" using long(3) by (simp add: announced_def)
  then have "?ans (concat ?long) = Crashes NullDeref"
    unfolding answer_to_def plain long(1) option.case long(2) by (simp add: answer_request_def example_env_def)
  moreover have "?ans (concat ?short) = Hangs" "?ans (concat ?nul) = Hangs" by code_simp+
  moreover note hello_answer(1)
  ultimately have a: "?ans (concat ?long) = Crashes NullDeref" "?ans (concat ?short) = Hangs"
    "?ans (concat ?nul) = Hangs" "?ans (concat hello_input) = Served [(LOG, ''request: GET /a'')] ''hello''" by blast+
  have run: "carries_out (Plain 5) [] (w_net (example_world rs inp)) (?ans (concat inp))
      (httpserv_httpserver_worker ?env example_data [] (example_world rs inp))"
    if "answer_fits ?env (?ans (concat inp))" for inp
    using worker_carries_out_answer [OF example_ready [OF rs], of ?env inp "[]"] that hello_answer(3) by simp
  show ?thesis
    using run [of ?long, unfolded a] run [of ?short, unfolded a] run [of ?nul, unfolded a] run [of hello_input, unfolded a] hello_answer(2)
    by (intro exI [of _ rs]) (simp add: carries_out_def)
qed

end
