(* ===== verification/Job.thy ===== *)
theory Job
  imports CHeap Logging
begin

section \<open>Jobs and the job queue (include/job.h, src/job.c)\<close>

text \<open>
  A job is a function with its argument and a pointer to its result; the queue is a linked
  list of jobs with a head, a tail and a size under a mutex. Functions are values of a type
  \<open>'f\<close>, run by the parameter \<open>call\<close>. Condition variables have no memory, so a signal is
  not part of this state: who waits and who is woken is the subject of the theories
  \<open>JobResult\<close> and \<open>PoolSteps\<close>; here a call that waits does not return.
\<close>

record 'r threadpool_job_result_t =
  jr_mutex :: bool
  jr_res :: "'r option"
  jr_done :: int

record ('f, 'a) threadpool_job_t =
  job_function :: "'f option"
  job_arg :: 'a
  job_next :: ref
  job_jres :: ref

record threadpool_job_queue_t =
  q_head :: ref
  q_tail :: ref
  q_mutex :: bool
  q_size :: nat

record ('f, 'a, 'r) job_state =
  jobs :: "('f, 'a) threadpool_job_t store"
  results :: "'r threadpool_job_result_t store"
  queues :: "threadpool_job_queue_t store"

subsection \<open>Results\<close>

definition threadpool_job_result_new :: "bool \<Rightarrow> bool \<Rightarrow> ('f, 'a, 'r) job_state
    \<Rightarrow> ref \<times> log_event list \<times> ('f, 'a, 'r) job_state" where
  "threadpool_job_result_new mutex_ok cond_ok st =
     (let (a, rs) = alloc (results st) \<lparr>jr_mutex = False, jr_res = None, jr_done = 1\<rparr> in
      if \<not> mutex_ok then (None, [(ERR, ''creation of mutex failed'')], st\<lparr>results := rs\<rparr>)
      else if \<not> cond_ok then (None, [(ERR, ''creation of condition variable failed'')], st\<lparr>results := rs\<rparr>)
      else (Some a, [], st\<lparr>results := rs\<rparr>))"

definition threadpool_job_result_set :: "ref \<Rightarrow> 'r option \<Rightarrow> ('f, 'a, 'r) job_state
    \<Rightarrow> ('f, 'a, 'r) job_state run" where
  "threadpool_job_result_set jres v st =
     bindX (lift_res (load (results st) jres)) (\<lambda>r.
     bindX (lock (jr_mutex r)) (\<lambda>held.
     bindX (lift_res (assign (results st) jres (r\<lparr>jr_res := v, jr_mutex := unlock held\<rparr>))) (\<lambda>rs.
       ret (st\<lparr>results := rs\<rparr>))))"

definition threadpool_job_result_await :: "ref \<Rightarrow> ('f, 'a, 'r) job_state \<Rightarrow> 'r option run" where
  "threadpool_job_result_await jres st =
     bindX (lift_res (load (results st) jres)) (\<lambda>r.
     bindX (lock (jr_mutex r)) (\<lambda>held.
       if 0 < jr_done r then None else ret (jr_res r)))"

definition threadpool_job_result_destroy :: "ref \<Rightarrow> ('f, 'a, 'r) job_state \<Rightarrow> ('f, 'a, 'r) job_state res" where
  "threadpool_job_result_destroy jres st =
     bindR (load (results st) jres) (\<lambda>_.
     bindR (release (results st) jres) (\<lambda>rs. Inr (st\<lparr>results := rs\<rparr>)))"

subsection \<open>Jobs\<close>

definition threadpool_job_new :: "bool \<Rightarrow> bool \<Rightarrow> 'f option \<Rightarrow> 'a \<Rightarrow> ('f, 'a, 'r) job_state
    \<Rightarrow> ref \<times> log_event list \<times> ('f, 'a, 'r) job_state" where
  "threadpool_job_new mutex_ok cond_ok f x st =
     (let (jres, ev, st1) = threadpool_job_result_new mutex_ok cond_ok st;
          (a, js) = alloc (jobs st1) \<lparr>job_function = f, job_arg = x, job_next = None, job_jres = jres\<rparr>
      in (Some a, ev, st1\<lparr>jobs := js\<rparr>))"

definition set_done :: "ref \<Rightarrow> int \<Rightarrow> ('f, 'a, 'r) job_state \<Rightarrow> ('f, 'a, 'r) job_state run" where
  "set_done jres d st =
     bindX (lift_res (load (results st) jres)) (\<lambda>r.
     bindX (lock (jr_mutex r)) (\<lambda>held.
     bindX (lift_res (assign (results st) jres (r\<lparr>jr_done := d, jr_mutex := unlock held\<rparr>))) (\<lambda>rs.
       ret (st\<lparr>results := rs\<rparr>))))"

text \<open>\<open>call f x\<close> is the result of the function, \<open>None\<close> inside for \<open>NULL\<close>.\<close>

definition threadpool_job_exec :: "('f \<Rightarrow> 'a \<Rightarrow> 'r option run) \<Rightarrow> ref \<Rightarrow> ('f, 'a, 'r) job_state
    \<Rightarrow> ('r option \<times> ('f, 'a, 'r) job_state) run" where
  "threadpool_job_exec call job st =
     bindX (lift_res (load (jobs st) job)) (\<lambda>j.
     case job_function j of
       None \<Rightarrow> bindX (set_done (job_jres j) (-1) st) (\<lambda>st1. ret (None, st1))
     | Some f \<Rightarrow>
         bindX (call f (job_arg j)) (\<lambda>result.
         bindX (threadpool_job_result_set (job_jres j) result st) (\<lambda>st1.
         bindX (set_done (job_jres j) 0 st1) (\<lambda>st2.
         bindX (lift_res (load (results st2) (job_jres j))) (\<lambda>r. ret (jr_res r, st2))))))"

definition threadpool_job_destroy :: "ref \<Rightarrow> ('f, 'a, 'r) job_state \<Rightarrow> ('f, 'a, 'r) job_state res" where
  "threadpool_job_destroy job st = bindR (release (jobs st) job) (\<lambda>js. Inr (st\<lparr>jobs := js\<rparr>))"

subsection \<open>The queue\<close>

definition threadpool_job_queue_new :: "('f, 'a, 'r) job_state \<Rightarrow> ref \<times> ('f, 'a, 'r) job_state" where
  "threadpool_job_queue_new st =
     (let (a, qs) = alloc (queues st) \<lparr>q_head = None, q_tail = None, q_mutex = False, q_size = 0\<rparr>
      in (Some a, st\<lparr>queues := qs\<rparr>))"

definition threadpool_job_queue_add_job :: "ref \<Rightarrow> ref \<Rightarrow> ('f, 'a, 'r) job_state
    \<Rightarrow> ('f, 'a, 'r) job_state run" where
  "threadpool_job_queue_add_job queue job st =
     bindX (lift_res (load (queues st) queue)) (\<lambda>q.
     bindX (lock (q_mutex q)) (\<lambda>held.
     bindX (if q_head q = None then ret (q\<lparr>q_tail := job, q_head := job\<rparr>, jobs st)
        else
          bindX (lift_res (load (jobs st) job)) (\<lambda>j.
          bindX (lift_res (assign (jobs st) job (j\<lparr>job_next := None\<rparr>))) (\<lambda>js1.
          bindX (lift_res (load js1 (q_tail q))) (\<lambda>t.
          bindX (lift_res (assign js1 (q_tail q) (t\<lparr>job_next := job\<rparr>))) (\<lambda>js2.
            ret (q\<lparr>q_tail := job\<rparr>, js2)))))) (\<lambda>(q1, js).
     bindX (lift_res (assign (queues st) queue (q1\<lparr>q_size := q_size q1 + 1, q_mutex := unlock held\<rparr>))) (\<lambda>qs.
       ret (st\<lparr>jobs := js, queues := qs\<rparr>)))))"

definition threadpool_job_queue_pop_job :: "ref \<Rightarrow> ('f, 'a, 'r) job_state
    \<Rightarrow> (ref \<times> ('f, 'a, 'r) job_state) run" where
  "threadpool_job_queue_pop_job queue st =
     bindX (lift_res (load (queues st) queue)) (\<lambda>q.
     bindX (lock (q_mutex q)) (\<lambda>held.
     if q_size q = 0 then ret (None, st)
     else
       bindX (lift_res (load (jobs st) (q_head q))) (\<lambda>j.
       bindX (lift_res (assign (jobs st) (q_head q) (j\<lparr>job_next := None\<rparr>))) (\<lambda>js.
       bindX (lift_res (assign (queues st) queue
           (q\<lparr>q_head := job_next j, q_size := q_size q - 1, q_mutex := unlock held\<rparr>))) (\<lambda>qs.
         ret (q_head q, st\<lparr>jobs := js, queues := qs\<rparr>))))))"

text \<open>The loop of the destructor runs \<open>size\<close> times.\<close>

fun destroy_jobs :: "nat \<Rightarrow> ref \<Rightarrow> ('f, 'a, 'r) job_state \<Rightarrow> ('f, 'a, 'r) job_state res" where
  "destroy_jobs 0 cur st = Inr st"
| "destroy_jobs (Suc n) cur st =
     bindR (load (jobs st) cur) (\<lambda>j.
     bindR (threadpool_job_destroy cur st) (\<lambda>st'. destroy_jobs n (job_next j) st'))"

definition threadpool_job_queue_destroy :: "ref \<Rightarrow> ('f, 'a, 'r) job_state \<Rightarrow> ('f, 'a, 'r) job_state run" where
  "threadpool_job_queue_destroy queue st =
     bindX (lift_res (load (queues st) queue)) (\<lambda>q.
     bindX (lock (q_mutex q)) (\<lambda>held.
     bindX (lift_res (destroy_jobs (q_size q) (q_head q) st)) (\<lambda>st1.
     bindX (lift_res (release (queues st1) queue)) (\<lambda>qs. ret (st1\<lparr>queues := qs\<rparr>)))))"

end
