(* ===== verification/Fifo.thy ===== *)
theory Fifo
  imports CHeap
begin

section \<open>First in, first out\<close>

text \<open>
  The contract of a queue, for a provider whose entries are objects of a store: only an
  entry that is \<open>addable\<close> in the present state may be added. The client lemma compares any
  sequence of operations with the same sequence on a list.
\<close>

datatype 'e queue_op = Enq 'e | Deq

text \<open>The reference: what the operations return and leave on a list.\<close>

fun list_ops :: "'e queue_op list \<Rightarrow> 'e list \<Rightarrow> 'e option list \<times> 'e list" where
  "list_ops [] es = ([], es)"
| "list_ops (Enq e # ops) es = list_ops ops (es @ [e])"
| "list_ops (Deq # ops) [] = (let (xs, es') = list_ops ops [] in (None # xs, es'))"
| "list_ops (Deq # ops) (e # es) = (let (xs, es') = list_ops ops es in (Some e # xs, es'))"

text \<open>Each entry that is added is free at that time; a removed entry may be added again.\<close>

fun ops_ok :: "'e set \<Rightarrow> 'e queue_op list \<Rightarrow> 'e list \<Rightarrow> bool" where
  "ops_ok A [] es \<longleftrightarrow> True"
| "ops_ok A (Enq e # ops) es \<longleftrightarrow> e \<in> A \<and> ops_ok (A - {e}) ops (es @ [e])"
| "ops_ok A (Deq # ops) [] \<longleftrightarrow> ops_ok A ops []"
| "ops_ok A (Deq # ops) (e # es) \<longleftrightarrow> ops_ok (insert e A) ops es"

text \<open>All entries that are added come out in the order of their addition.\<close>

lemma list_ops_fill: "list_ops (map Enq xs @ ops) es = list_ops ops (es @ xs)"
  by (induction xs arbitrary: es) simp_all

lemma list_ops_drain: "list_ops (replicate (length es) Deq) es = (map Some es, [])"
  by (induction es) simp_all

lemma ops_ok_drain: "ops_ok A (replicate n Deq) es"
  by (induction n arbitrary: A es) (auto, metis list.exhaust ops_ok.simps(3,4))

lemma ops_ok_fill: "distinct xs \<Longrightarrow> set xs \<subseteq> A \<Longrightarrow> ops_ok A (map Enq xs @ replicate n Deq) es"
  by (induction xs arbitrary: A es) (simp_all add: ops_ok_drain subset_Diff_insert)

locale fifo_queue =
  fixes holds :: "'s \<Rightarrow> 'e list \<Rightarrow> bool"
    and addable :: "'s \<Rightarrow> 'e list \<Rightarrow> 'e set"
    and enq :: "'e \<Rightarrow> 's \<Rightarrow> 's run"
    and deq :: "'s \<Rightarrow> ('e option \<times> 's) run"
  assumes enq_law: "holds s es \<Longrightarrow> e \<in> addable s es \<Longrightarrow>
      \<exists>s'. enq e s = ret s' \<and> holds s' (es @ [e]) \<and> addable s' (es @ [e]) = addable s es - {e}"
    and deq_law: "holds s (e # es) \<Longrightarrow>
      \<exists>s'. deq s = ret (Some e, s') \<and> holds s' es \<and> addable s' es = insert e (addable s (e # es))"
    and deq_empty_law: "holds s [] \<Longrightarrow> deq s = ret (None, s)"
begin

fun run_ops :: "'e queue_op list \<Rightarrow> 's \<Rightarrow> ('e option list \<times> 's) run" where
  "run_ops [] s = ret ([], s)"
| "run_ops (Enq e # ops) s = bindX (enq e s) (run_ops ops)"
| "run_ops (Deq # ops) s =
     bindX (deq s) (\<lambda>(x, s1). bindX (run_ops ops s1) (\<lambda>(xs, s2). ret (x # xs, s2)))"

lemma run_ops_refines:
  "holds s es \<Longrightarrow> ops_ok (addable s es) ops es \<Longrightarrow>
    \<exists>s'. run_ops ops s = ret (fst (list_ops ops es), s') \<and> holds s' (snd (list_ops ops es))"
proof (induction ops es arbitrary: s rule: list_ops.induct)
  case (2 e ops es)
  then obtain s1 where s1: "enq e s = ret s1" "holds s1 (es @ [e])"
      "addable s1 (es @ [e]) = addable s es - {e}"
    using enq_law [of s es e] by auto
  with 2 show ?case by (auto simp: ret_def)
next
  case (3 ops)
  with deq_empty_law [OF 3(2)] show ?case by (fastforce simp: ret_def split: prod.splits)
next
  case (4 ops e es)
  then obtain s1 where s1: "deq s = ret (Some e, s1)" "holds s1 es"
      "addable s1 es = insert e (addable s (e # es))"
    using deq_law by blast
  with 4 show ?case by (fastforce simp: ret_def split: prod.splits)
qed (auto simp: ret_def)

lemma fill_then_drain:
  assumes "holds s []" and "distinct xs" and "set xs \<subseteq> addable s []"
  shows "\<exists>s'. run_ops (map Enq xs @ replicate (length xs) Deq) s = ret (map Some xs, s') \<and> holds s' []"
  using run_ops_refines [OF assms(1) ops_ok_fill [OF assms(2,3), of "length xs"]]
  by (simp add: list_ops_fill list_ops_drain)

end

end
