(* ===== verification/JobQueue.thy ===== *)
theory JobQueue
  imports Job Fifo
begin

section \<open>The job queue is a queue\<close>

text \<open>
  The abstraction of a queue in a store of jobs: the list of the addresses of its jobs. The
  mutex is free between calls, the size field is the length, and the tail is the last job
  (in an empty queue the tail is whatever it was).
\<close>

definition queue_at :: "nat \<Rightarrow> ('f, 'a, 'r) job_state \<Rightarrow> nat list \<Rightarrow> bool" where
  "queue_at q st as \<longleftrightarrow> (\<exists>qu. cells (queues st) q = Some qu \<and> \<not> q_mutex qu
     \<and> q_size qu = length as \<and> linked job_next (cells (jobs st)) (q_head qu) as
     \<and> (as \<noteq> [] \<longrightarrow> q_tail qu = Some (last as)))"

text \<open>A job that may be added: it is alive, outside the queue, and its next field is \<open>NULL\<close>.\<close>

definition addable_jobs :: "('f, 'a, 'r) job_state \<Rightarrow> nat list \<Rightarrow> nat set" where
  "addable_jobs st as = {a. a \<notin> set as \<and> map_option job_next (cells (jobs st) a) = Some None}"

text \<open>What the queue operations leave alone: the other fields of every job, and all results.\<close>

definition payload :: "('f, 'a) threadpool_job_t \<Rightarrow> 'f option \<times> 'a \<times> ref" where
  "payload j = (job_function j, job_arg j, job_jres j)"

definition same_jobs :: "('f, 'a, 'r) job_state \<Rightarrow> ('f, 'a, 'r) job_state \<Rightarrow> bool" where
  "same_jobs st st' \<longleftrightarrow> results st' = results st \<and> fresh (jobs st') = fresh (jobs st)
     \<and> (\<forall>a. map_option payload (cells (jobs st') a) = map_option payload (cells (jobs st) a))"

lemma same_jobs_refl [simp]: "same_jobs st st"
  by (simp add: same_jobs_def)

lemma linked_snoc:
  assumes "linked nxt c r (bs @ [b])" and "c b = Some n" and "nxt n' = Some a"
    and "c a = Some m" and "nxt m = None" and "a \<notin> set (bs @ [b])"
  shows "linked nxt (c(b \<mapsto> n')) r (bs @ [b, a])"
  using assms linked_distinct [OF assms(1)] by (induction bs arbitrary: r) auto

subsection \<open>One operation\<close>

lemma add_job_at:
  assumes q: "queue_at q st as" and a: "a \<in> addable_jobs st as"
  shows "\<exists>st'. threadpool_job_queue_add_job (Some q) (Some a) st = ret st' \<and> queue_at q st' (as @ [a])
    \<and> addable_jobs st' (as @ [a]) = addable_jobs st as - {a} \<and> same_jobs st st'"
proof -
  obtain qu where qu: "cells (queues st) q = Some qu" "q_mutex qu = False" "q_size qu = length as"
      "linked job_next (cells (jobs st)) (q_head qu) as" "as \<noteq> [] \<Longrightarrow> q_tail qu = Some (last as)"
    using q unfolding queue_at_def by blast
  obtain j where j: "cells (jobs st) a = Some j" "job_next j = None" and a': "a \<notin> set as"
    using a by (auto simp: addable_jobs_def)
  have jj: "j\<lparr>job_next := None\<rparr> = j" using j(2) by simp
  have same: "(cells (jobs st))(a \<mapsto> j) = cells (jobs st)" using j(1) by auto
  show ?thesis
  proof (cases as rule: rev_cases)
    case Nil
    then have "q_head qu = None" using qu(4) by simp
    with qu(1-3) Nil j show ?thesis
      by (auto simp: threadpool_job_queue_add_job_def ret_def heap_simps queue_at_def addable_jobs_def same_jobs_def)
  next
    case (snoc bs b)
    then obtain h t where h: "q_head qu = Some h" and t: "cells (jobs st) b = Some t"
      using qu(4) linked_live [OF qu(4), of b] by (cases bs) auto
    let ?t = "t\<lparr>job_next := Some a\<rparr>"
    have "linked job_next ((cells (jobs st))(b \<mapsto> ?t)) (q_head qu) (bs @ [b, a])"
      using linked_snoc [of job_next _ _ bs b t ?t a j] qu(4) snoc t j a' by simp
    then have "linked job_next ((cells (jobs st))(a \<mapsto> j\<lparr>job_next := None\<rparr>, b \<mapsto> ?t)) (q_head qu) (bs @ [b, a])"
      by (simp only: jj same)
    moreover have "b \<noteq> a" using snoc a' by auto
    moreover have "q_tail qu = Some b" using qu(5) snoc by simp
    ultimately show ?thesis using qu(1-3) h t j snoc
      by (auto simp: threadpool_job_queue_add_job_def ret_def heap_simps queue_at_def addable_jobs_def
          same_jobs_def payload_def)
  qed
qed

lemma pop_job_at:
  assumes q: "queue_at q st (a # as)"
  shows "\<exists>st'. threadpool_job_queue_pop_job (Some q) st = ret (Some a, st') \<and> queue_at q st' as
    \<and> addable_jobs st' as = insert a (addable_jobs st (a # as)) \<and> same_jobs st st'"
proof -
  obtain qu j where qu: "cells (queues st) q = Some qu" "q_mutex qu = False" "q_size qu = Suc (length as)"
      "q_head qu = Some a" "cells (jobs st) a = Some j" "linked job_next (cells (jobs st)) (job_next j) as"
      "q_tail qu = Some (last (a # as))"
    using q unfolding queue_at_def by auto
  have "linked job_next (cells (jobs st)) (q_head qu) (a # as)" using qu by simp
  from linked_distinct [OF this] have a: "a \<notin> set as" by simp
  with qu show ?thesis
    by (auto simp: threadpool_job_queue_pop_job_def ret_def heap_simps queue_at_def addable_jobs_def
        same_jobs_def payload_def linked_frame)
qed

lemma pop_job_empty: "queue_at q st [] \<Longrightarrow> threadpool_job_queue_pop_job (Some q) st = ret (None, st)"
  by (auto simp: queue_at_def threadpool_job_queue_pop_job_def heap_simps)

lemma queue_new_at:
  assumes "threadpool_job_queue_new st = (r, st')"
  shows "\<exists>q. r = Some q \<and> queue_at q st' [] \<and> jobs st' = jobs st \<and> same_jobs st st'"
  using assms by (auto simp: threadpool_job_queue_new_def alloc_def queue_at_def same_jobs_def)

subsection \<open>The contract holds\<close>

interpretation jq: fifo_queue "queue_at q" addable_jobs
  "\<lambda>a. threadpool_job_queue_add_job (Some q) (Some a)" "threadpool_job_queue_pop_job (Some q)" for q
proof (unfold_locales, goal_cases)
  case (1 s es e)
  then show ?case using add_job_at by blast
next
  case (2 s e es)
  then show ?case using pop_job_at by blast
next
  case (3 s)
  then show ?case by (rule pop_job_empty)
qed

subsection \<open>Destroying a queue\<close>

lemma destroy_jobs_linked:
  "linked job_next (cells (jobs st)) r as \<Longrightarrow> destroy_jobs (length as) r st =
    Inr (st\<lparr>jobs := (jobs st)\<lparr>cells := (\<lambda>a. if a \<in> set as then None else cells (jobs st) a)\<rparr>\<rparr>)"
proof (induction as arbitrary: r st)
  case (Cons a as)
  then obtain j where j: "r = Some a" "cells (jobs st) a = Some j" "linked job_next (cells (jobs st)) (job_next j) as"
    by auto
  let ?st = "st\<lparr>jobs := (jobs st)\<lparr>cells := (cells (jobs st))(a := None)\<rparr>\<rparr>"
  have "a \<notin> set as" using linked_distinct [OF Cons.prems] by simp
  with j(3) have "linked job_next (cells (jobs ?st)) (job_next j) as" by (simp add: linked_frame)
  note rest = Cons.IH [OF this]
  have "(\<lambda>b. if b \<in> set as then None else cells (jobs ?st) b) =
      (\<lambda>b. if b \<in> set (a # as) then None else cells (jobs st) b)" by auto
  with rest j show ?case by (simp add: threadpool_job_destroy_def heap_simps)
qed simp

lemma queue_destroy_at:
  assumes "queue_at q st as"
  shows "\<exists>st'. threadpool_job_queue_destroy (Some q) st = ret st' \<and> results st' = results st
    \<and> (\<forall>a. cells (jobs st') a = (if a \<in> set as then None else cells (jobs st) a))
    \<and> cells (queues st') q = None"
  using assms destroy_jobs_linked
  by (fastforce simp: queue_at_def threadpool_job_queue_destroy_def heap_simps ret_def)

end
