(* ===== verification/Transitions.thy ===== *)
theory Transitions
  imports CPrelude
begin

section \<open>Step relations and what their runs keep\<close>

text \<open>
  The threads that wait for a result and the threads of a pool are step relations with
  their runs. The locale states what a run is: it can be empty, extended by a step, and
  nothing else. What follows for every such relation: runs compose, an invariant holds along
  a run, and so does a predicate that the steps keep under the invariant.
\<close>

locale transitions =
  fixes step :: "'s \<Rightarrow> 's \<Rightarrow> bool" and steps :: "'s \<Rightarrow> 's \<Rightarrow> bool"
  assumes steps_empty: "steps s s"
    and steps_extend: "steps s t \<Longrightarrow> step t u \<Longrightarrow> steps s u"
    and steps_induct: "steps s t \<Longrightarrow> P s \<Longrightarrow> (\<And>x y. P x \<Longrightarrow> step x y \<Longrightarrow> P y) \<Longrightarrow> P t"
begin

lemma steps_one: "step s t \<Longrightarrow> steps s t"
  using steps_empty by (rule steps_extend)

lemma steps_compose: "steps s t \<Longrightarrow> steps t u \<Longrightarrow> steps s u"
  by (erule steps_induct [of t u]) (auto intro: steps_extend)

lemma steps_keep:
  assumes "steps s t" and "I s" and "P s" and "\<And>x y. I x \<Longrightarrow> step x y \<Longrightarrow> I y"
    and "\<And>x y. I x \<Longrightarrow> P x \<Longrightarrow> step x y \<Longrightarrow> P y"
  shows "P t \<and> I t"
  using assms(1) by (rule steps_induct) (use assms(2-5) in auto)

text \<open>A measure that every step decreases bounds the length of all runs.\<close>

lemma no_infinite_run:
  assumes "I s" and "\<And>x y. I x \<Longrightarrow> step x y \<Longrightarrow> I y" and "\<And>x y. I x \<Longrightarrow> step x y \<Longrightarrow> (m y :: nat) < m x"
  shows "\<not> (\<exists>f. f 0 = s \<and> (\<forall>i. step (f i) (f (Suc i))))"
proof
  assume "\<exists>f. f 0 = s \<and> (\<forall>i. step (f i) (f (Suc i)))"
  then obtain f where f: "f 0 = s" "\<And>i. step (f i) (f (Suc i))" by blast
  have inv: "I (f i)" for i by (induction i) (use assms(1,2) f in auto)
  have "m (f i) + i \<le> m s" for i
  proof (induction i)
    case (Suc i)
    with assms(3) [OF inv f(2), of i] show ?case by linarith
  qed (simp add: f(1))
  from this [of "Suc (m s)"] show False by simp
qed

end

text \<open>
  A relation implements another one when each of its steps, under an invariant, is a step of the
  other on the abstract states or leaves the abstract state alone. Then runs are runs of the
  abstract relation, and what its steps keep holds of every abstract state.
\<close>

locale simulation = concrete: transitions cstep csteps + spec: transitions astep asteps
  for cstep :: "'s \<Rightarrow> 's \<Rightarrow> bool" and csteps :: "'s \<Rightarrow> 's \<Rightarrow> bool"
    and astep :: "'t \<Rightarrow> 't \<Rightarrow> bool" and asteps :: "'t \<Rightarrow> 't \<Rightarrow> bool" +
  fixes inv :: "'s \<Rightarrow> bool" and abs_of :: "'s \<Rightarrow> 't"
  assumes inv_step: "inv s \<Longrightarrow> cstep s t \<Longrightarrow> inv t"
    and simulates: "inv s \<Longrightarrow> cstep s t \<Longrightarrow> abs_of t = abs_of s \<or> astep (abs_of s) (abs_of t)"
begin

lemma runs_simulated:
  assumes "csteps s t" and "inv s"
  shows "asteps (abs_of s) (abs_of t) \<and> inv t"
proof (rule concrete.steps_keep [where I = inv, OF assms])
  show "asteps (abs_of s) (abs_of s)" by (rule spec.steps_empty)
  show "asteps (abs_of s) (abs_of y)" if "inv x" "asteps (abs_of s) (abs_of x)" "cstep x y" for x y
    using simulates [OF that(1,3)] that(2) spec.steps_extend by metis
qed (rule inv_step)

lemma transfers:
  assumes "csteps s t" and "inv s" and "P (abs_of s)" and "\<And>x y. P x \<Longrightarrow> astep x y \<Longrightarrow> P y"
  shows "P (abs_of t)"
proof -
  have "asteps (abs_of s) (abs_of t)" using runs_simulated [OF assms(1,2)] by blast
  then show ?thesis by (rule spec.steps_induct) (use assms(3,4) in auto)
qed

end

end
