(* ===== verification/JobResult.thy ===== *)
theory JobResult
  imports CHeap Transitions
begin

section \<open>Waiting for the result of a job (src/job.c), step by step\<close>

text \<open>
  One executor runs \<open>threadpool_job_exec\<close> on a job and any number of threads call
  \<open>threadpool_job_result_await\<close> on its result. Each step is one access to the shared
  object. \<open>fn\<close> is the result of the job's function, \<open>None\<close> when the function pointer is
  \<open>NULL\<close>. A signal wakes one waiting thread or nobody; a thread wakes without a signal only
  when \<open>spurious\<close> allows it (POSIX permits such wake-ups and promises none).
\<close>

datatype agent = Executor | Awaiter nat

datatype 'r exec_pc =
    EStart
  | EFailLocked | EFailSet
  | ECalled "'r option" | ESetLocked "'r option" | EResSet
  | EBetween | EDoneLocked | EDoneSet | ESignalled
  | EReturned

datatype 'r await_pc =
    ACalling | ATesting | ASleeping | AWoken | ALeaving | AReading | AReturned "'r option"

record 'r result_run =
  rr_holder :: "agent option"
  rr_res :: "'r option"
  rr_done :: int
  exec_at :: "'r exec_pc"
  await_at :: "nat \<Rightarrow> 'r await_pc"

definition result_start :: "'r result_run" where
  "result_start = \<lparr>rr_holder = None, rr_res = None, rr_done = 1, exec_at = EStart, await_at = (\<lambda>_. ACalling)\<rparr>"

abbreviation set_await :: "nat \<Rightarrow> 'r await_pc \<Rightarrow> 'r result_run \<Rightarrow> 'r result_run" where
  "set_await a pc s \<equiv> s\<lparr>await_at := (await_at s)(a := pc)\<rparr>"

inductive exec_step :: "'r option option \<Rightarrow> 'r result_run \<Rightarrow> 'r result_run \<Rightarrow> bool" for fn where
  fail_lock: "exec_at s = EStart \<Longrightarrow> fn = None \<Longrightarrow> rr_holder s = None \<Longrightarrow>
    exec_step fn s (s\<lparr>exec_at := EFailLocked, rr_holder := Some Executor\<rparr>)"
| fail_set: "exec_at s = EFailLocked \<Longrightarrow> exec_step fn s (s\<lparr>exec_at := EFailSet, rr_done := -1\<rparr>)"
| fail_unlock: "exec_at s = EFailSet \<Longrightarrow> exec_step fn s (s\<lparr>exec_at := EReturned, rr_holder := None\<rparr>)"
| call_function: "exec_at s = EStart \<Longrightarrow> fn = Some v \<Longrightarrow> exec_step fn s (s\<lparr>exec_at := ECalled v\<rparr>)"
| set_lock: "exec_at s = ECalled v \<Longrightarrow> rr_holder s = None \<Longrightarrow>
    exec_step fn s (s\<lparr>exec_at := ESetLocked v, rr_holder := Some Executor\<rparr>)"
| set_res: "exec_at s = ESetLocked v \<Longrightarrow> exec_step fn s (s\<lparr>exec_at := EResSet, rr_res := v\<rparr>)"
| set_unlock: "exec_at s = EResSet \<Longrightarrow> exec_step fn s (s\<lparr>exec_at := EBetween, rr_holder := None\<rparr>)"
| done_lock: "exec_at s = EBetween \<Longrightarrow> rr_holder s = None \<Longrightarrow>
    exec_step fn s (s\<lparr>exec_at := EDoneLocked, rr_holder := Some Executor\<rparr>)"
| done_set: "exec_at s = EDoneLocked \<Longrightarrow> exec_step fn s (s\<lparr>exec_at := EDoneSet, rr_done := 0\<rparr>)"
| signal_one: "exec_at s = EDoneSet \<Longrightarrow> await_at s a = ASleeping \<Longrightarrow>
    exec_step fn s (set_await a AWoken (s\<lparr>exec_at := ESignalled\<rparr>))"
| signal_nobody: "exec_at s = EDoneSet \<Longrightarrow> (\<forall>a. await_at s a \<noteq> ASleeping) \<Longrightarrow>
    exec_step fn s (s\<lparr>exec_at := ESignalled\<rparr>)"
| done_unlock: "exec_at s = ESignalled \<Longrightarrow> exec_step fn s (s\<lparr>exec_at := EReturned, rr_holder := None\<rparr>)"

inductive await_step :: "nat \<Rightarrow> 'r result_run \<Rightarrow> 'r result_run \<Rightarrow> bool" for a where
  await_lock: "await_at s a = ACalling \<Longrightarrow> rr_holder s = None \<Longrightarrow>
    await_step a s (set_await a ATesting (s\<lparr>rr_holder := Some (Awaiter a)\<rparr>))"
| await_sleep: "await_at s a = ATesting \<Longrightarrow> 0 < rr_done s \<Longrightarrow>
    await_step a s (set_await a ASleeping (s\<lparr>rr_holder := None\<rparr>))"
| await_relock: "await_at s a = AWoken \<Longrightarrow> rr_holder s = None \<Longrightarrow>
    await_step a s (set_await a ATesting (s\<lparr>rr_holder := Some (Awaiter a)\<rparr>))"
| await_leave: "await_at s a = ATesting \<Longrightarrow> \<not> 0 < rr_done s \<Longrightarrow> await_step a s (set_await a ALeaving s)"
| await_unlock: "await_at s a = ALeaving \<Longrightarrow>
    await_step a s (set_await a AReading (s\<lparr>rr_holder := None\<rparr>))"
| await_return: "await_at s a = AReading \<Longrightarrow> await_step a s (set_await a (AReturned (rr_res s)) s)"

text \<open>\<open>A\<close> is the set of the threads that call the function.\<close>

inductive result_step :: "bool \<Rightarrow> nat set \<Rightarrow> 'r option option \<Rightarrow> 'r result_run \<Rightarrow> 'r result_run \<Rightarrow> bool"
    for spurious A fn where
  by_executor: "exec_step fn s t \<Longrightarrow> result_step spurious A fn s t"
| by_awaiter: "a \<in> A \<Longrightarrow> await_step a s t \<Longrightarrow> result_step spurious A fn s t"
| by_nobody: "spurious \<Longrightarrow> await_at s a = ASleeping \<Longrightarrow> result_step spurious A fn s (set_await a AWoken s)"

inductive result_steps :: "bool \<Rightarrow> nat set \<Rightarrow> 'r option option \<Rightarrow> 'r result_run \<Rightarrow> 'r result_run \<Rightarrow> bool"
    for spurious A fn where
  steps_refl: "result_steps spurious A fn s s"
| steps_step: "result_steps spurious A fn s t \<Longrightarrow> result_step spurious A fn t u \<Longrightarrow> result_steps spurious A fn s u"

lemma result_steps_induct:
  "result_steps spurious A fn s t \<Longrightarrow> P s \<Longrightarrow> (\<And>x y. P x \<Longrightarrow> result_step spurious A fn x y \<Longrightarrow> P y) \<Longrightarrow> P t"
  by (induction rule: result_steps.induct) auto

interpretation rs: transitions "result_step spurious A fn" "result_steps spurious A fn" for spurious A fn
  by unfold_locales (fact steps_refl, fact steps_step, rule result_steps_induct)

inductive_cases exec_stepE: "exec_step fn s t"
inductive_cases await_stepE: "await_step a s t"
inductive_cases result_stepE: "result_step spurious A fn s t"

subsection \<open>Invariant\<close>

fun exec_holds :: "'r exec_pc \<Rightarrow> bool" where
  "exec_holds EStart = False"
| "exec_holds (ECalled v) = False"
| "exec_holds EBetween = False"
| "exec_holds EReturned = False"
| "exec_holds _ = True"

fun await_holds :: "'r await_pc \<Rightarrow> bool" where
  "await_holds ATesting = True"
| "await_holds ALeaving = True"
| "await_holds _ = False"

text \<open>What the executor has done so far, from its position.\<close>

fun exec_effect :: "'r option option \<Rightarrow> 'r exec_pc \<Rightarrow> 'r option \<Rightarrow> int \<Rightarrow> bool" where
  "exec_effect fn EStart res d \<longleftrightarrow> res = None \<and> d = 1"
| "exec_effect fn EFailLocked res d \<longleftrightarrow> fn = None \<and> res = None \<and> d = 1"
| "exec_effect fn EFailSet res d \<longleftrightarrow> fn = None \<and> res = None \<and> d = -1"
| "exec_effect fn (ECalled v) res d \<longleftrightarrow> fn = Some v \<and> d = 1"
| "exec_effect fn (ESetLocked v) res d \<longleftrightarrow> fn = Some v \<and> d = 1"
| "exec_effect fn EResSet res d \<longleftrightarrow> fn = Some res \<and> d = 1"
| "exec_effect fn EBetween res d \<longleftrightarrow> fn = Some res \<and> d = 1"
| "exec_effect fn EDoneLocked res d \<longleftrightarrow> fn = Some res \<and> d = 1"
| "exec_effect fn EDoneSet res d \<longleftrightarrow> fn = Some res \<and> d = 0"
| "exec_effect fn ESignalled res d \<longleftrightarrow> fn = Some res \<and> d = 0"
| "exec_effect fn EReturned res d \<longleftrightarrow> (case fn of None \<Rightarrow> res = None \<and> d = -1 | Some v \<Rightarrow> res = v \<and> d = 0)"

definition holder_inv :: "'r result_run \<Rightarrow> bool" where
  "holder_inv s \<longleftrightarrow> (exec_holds (exec_at s) \<longleftrightarrow> rr_holder s = Some Executor)
     \<and> (\<forall>a. await_holds (await_at s a) \<longleftrightarrow> rr_holder s = Some (Awaiter a))"

definition done_inv :: "'r result_run \<Rightarrow> bool" where
  "done_inv s \<longleftrightarrow> (\<forall>a. await_at s a \<in> {ALeaving, AReading} \<longrightarrow> rr_done s \<le> 0)
     \<and> (\<forall>a v. await_at s a = AReturned v \<longrightarrow> rr_done s \<le> 0 \<and> v = rr_res s)"

definition result_inv :: "'r option option \<Rightarrow> 'r result_run \<Rightarrow> bool" where
  "result_inv fn s \<longleftrightarrow> holder_inv s \<and> done_inv s \<and> exec_effect fn (exec_at s) (rr_res s) (rr_done s)"

lemma result_inv_start: "result_inv fn result_start"
  by (simp add: result_inv_def holder_inv_def done_inv_def result_start_def)

lemma exec_step_inv: "exec_step fn s t \<Longrightarrow> result_inv fn s \<Longrightarrow> result_inv fn t"
proof -
  assume step: "exec_step fn s t" and inv: "result_inv fn s"
  then have h: "holder_inv s" and d: "done_inv s" and e: "exec_effect fn (exec_at s) (rr_res s) (rr_done s)"
    by (simp_all add: result_inv_def)
  from step h have "holder_inv t" by cases (auto simp: holder_inv_def)
  moreover from step d e have "done_inv t" by cases (fastforce simp: done_inv_def)+
  moreover from step e have "exec_effect fn (exec_at t) (rr_res t) (rr_done t)"
    by cases (auto split: option.split)
  ultimately show ?thesis by (simp add: result_inv_def)
qed

lemma await_step_inv: "await_step a s t \<Longrightarrow> result_inv fn s \<Longrightarrow> result_inv fn t"
proof -
  assume step: "await_step a s t" and inv: "result_inv fn s"
  then have h: "holder_inv s" and d: "done_inv s" and e: "exec_effect fn (exec_at s) (rr_res s) (rr_done s)"
    by (simp_all add: result_inv_def)
  have "await_holds (await_at s a) \<longleftrightarrow> rr_holder s = Some (Awaiter a)" using h by (simp add: holder_inv_def)
  with step h have "holder_inv t" by cases (auto simp: holder_inv_def)
  moreover from step d have "done_inv t" by cases (fastforce simp: done_inv_def)+
  moreover from step e have "exec_effect fn (exec_at t) (rr_res t) (rr_done t)" by cases auto
  ultimately show ?thesis by (simp add: result_inv_def)
qed

lemma wake_inv: "await_at s a = ASleeping \<Longrightarrow> result_inv fn s \<Longrightarrow> result_inv fn (set_await a AWoken s)"
  by (auto simp: result_inv_def holder_inv_def done_inv_def dest: spec [of _ a])

lemma result_step_inv: "result_step spurious A fn s t \<Longrightarrow> result_inv fn s \<Longrightarrow> result_inv fn t"
  by (erule result_stepE) (auto intro: exec_step_inv await_step_inv wake_inv)

lemma result_steps_inv: "result_steps spurious A fn s t \<Longrightarrow> result_inv fn s \<Longrightarrow> result_inv fn t"
  by (rule rs.steps_induct) (auto intro: result_step_inv)

lemma result_steps_keep:
  assumes "result_steps spurious A fn s t" and "result_inv fn s" and "P s"
    and "\<And>x y. result_inv fn x \<Longrightarrow> P x \<Longrightarrow> result_step spurious A fn x y \<Longrightarrow> P y"
  shows "P t \<and> result_inv fn t"
  using assms(1-3) by (rule rs.steps_keep) (use assms(4) result_step_inv in auto)

subsection \<open>One signal wakes one thread\<close>

definition before_signal :: "'r exec_pc \<Rightarrow> bool" where
  "before_signal pc \<longleftrightarrow> pc \<notin> {ESignalled, EReturned}"

definition one_left :: "nat \<Rightarrow> nat \<Rightarrow> 'r result_run \<Rightarrow> bool" where
  "one_left a b s \<longleftrightarrow> (await_at s a = ASleeping \<or> await_at s b = ASleeping)
     \<and> (before_signal (exec_at s) \<longrightarrow> await_at s a = ASleeping \<and> await_at s b = ASleeping)"

lemma one_left_step:
  assumes "a \<noteq> b" and "one_left a b s" and "result_step False A (Some v) s t"
  shows "one_left a b t"
  using assms(3)
proof cases
  case by_executor
  then show ?thesis using assms(1,2) by cases (auto simp: one_left_def before_signal_def)
next
  case (by_awaiter c)
  from by_awaiter(2) show ?thesis using assms(2) by cases (auto simp: one_left_def)
qed simp

lemma sleeping_step:
  assumes "result_inv None s" and "await_at s a = ASleeping" and "result_step False A None s t"
  shows "await_at t a = ASleeping"
  using assms(3)
proof cases
  case by_executor
  then show ?thesis using assms(1,2) by cases (auto simp: result_inv_def)
next
  case (by_awaiter c)
  from by_awaiter(2) show ?thesis using assms(2) by cases auto
qed simp

subsection \<open>A single waiting thread\<close>

definition alone_inv :: "nat \<Rightarrow> 'r result_run \<Rightarrow> bool" where
  "alone_inv a s \<longleftrightarrow> (\<forall>b. b \<noteq> a \<longrightarrow> await_at s b = ACalling)
     \<and> (await_at s a = AWoken \<longrightarrow> rr_done s \<le> 0)
     \<and> (exec_at s \<in> {ESignalled, EReturned} \<longrightarrow> await_at s a \<noteq> ASleeping)"

lemma alone_step:
  assumes "result_inv (Some v) s" and "alone_inv a s" and "result_step False {a} (Some v) s t"
  shows "alone_inv a t"
  using assms(3)
proof cases
  case by_executor
  then show ?thesis using assms(1,2) by cases (auto simp: result_inv_def alone_inv_def)
next
  case (by_awaiter c)
  then have "await_step a s t" by simp
  then show ?thesis using assms(1,2) by cases (auto simp: result_inv_def alone_inv_def)
qed simp

fun exec_rank :: "'r exec_pc \<Rightarrow> nat" where
  "exec_rank EStart = 9" | "exec_rank (ECalled v) = 8" | "exec_rank (ESetLocked v) = 7"
| "exec_rank EResSet = 6" | "exec_rank EBetween = 5" | "exec_rank EDoneLocked = 4"
| "exec_rank EDoneSet = 3" | "exec_rank ESignalled = 2" | "exec_rank EFailLocked = 2"
| "exec_rank EFailSet = 1" | "exec_rank EReturned = 0"

fun await_rank :: "int \<Rightarrow> 'r await_pc \<Rightarrow> nat" where
  "await_rank d ACalling = 8" | "await_rank d ATesting = (if 0 < d then 7 else 4)"
| "await_rank d ASleeping = 6" | "await_rank d AWoken = 5" | "await_rank d ALeaving = 3"
| "await_rank d AReading = 2" | "await_rank d (AReturned v) = 0"

definition result_rank :: "nat \<Rightarrow> 'r result_run \<Rightarrow> nat" where
  "result_rank a s = exec_rank (exec_at s) + await_rank (rr_done s) (await_at s a)"

lemma await_rank_done: "d \<le> 0 \<Longrightarrow> await_rank d pc \<le> await_rank e pc"
  by (cases pc) auto

lemma rank_step:
  assumes "result_inv (Some v) s" and "alone_inv a s" and "result_step False {a} (Some v) s t"
  shows "result_rank a t < result_rank a s"
  using assms(3)
proof cases
  case by_executor
  then show ?thesis
  proof cases
    case done_set
    then show ?thesis using await_rank_done [of 0 "await_at s a" "rr_done s"] by (simp add: result_rank_def)
  next
    case (signal_one b)
    with assms(2) have "b = a" by (auto simp: alone_inv_def)
    with signal_one show ?thesis by (simp add: result_rank_def)
  qed (use assms(1) in \<open>auto simp: result_rank_def result_inv_def\<close>)
next
  case (by_awaiter c)
  then have "await_step a s t" by simp
  then show ?thesis using assms(2) by cases (auto simp: result_rank_def alone_inv_def)
qed simp

lemma alone_progress:
  assumes inv: "result_inv (Some v) s" and alone: "alone_inv a s"
  shows "(\<exists>t. result_step False {a} (Some v) s t) \<or> await_at s a = AReturned v \<and> exec_at s = EReturned"
proof (cases "\<exists>t. await_step a s t \<or> exec_step (Some v) s t")
  case True
  then show ?thesis by (auto intro: by_executor by_awaiter)
next
  case False
  then have na: "\<And>t. \<not> await_step a s t" and ne: "\<And>t. \<not> exec_step (Some v) s t" by auto
  have h: "exec_holds (exec_at s) \<longleftrightarrow> rr_holder s = Some Executor"
      "\<And>b. await_holds (await_at s b) \<longleftrightarrow> rr_holder s = Some (Awaiter b)"
    and e: "exec_effect (Some v) (exec_at s) (rr_res s) (rr_done s)"
    and d: "\<And>x. await_at s a = AReturned x \<Longrightarrow> x = rr_res s"
    using inv by (auto simp: result_inv_def holder_inv_def done_inv_def)
  have "exec_at s \<noteq> EDoneSet" using ne signal_one [of s] signal_nobody [of s] by blast
  then have "\<not> exec_holds (exec_at s)"
    using ne e by (cases "exec_at s") (auto intro: set_res set_unlock done_set done_unlock)
  moreover have "\<not> await_holds (await_at s a)"
    using na by (cases "await_at s a") (auto intro: await_sleep await_leave await_unlock)
  moreover have "\<not> await_holds (await_at s b)" if "b \<noteq> a" for b using alone that by (auto simp: alone_inv_def)
  ultimately have free: "rr_holder s = None" using h by (metis agent.exhaust not_None_eq)
  then have "exec_at s = EReturned" using ne e \<open>\<not> exec_holds (exec_at s)\<close>
    by (cases "exec_at s") (auto intro: call_function set_lock done_lock)
  moreover have "\<exists>x. await_at s a = AReturned x"
    using na free alone \<open>exec_at s = EReturned\<close> \<open>\<not> await_holds (await_at s a)\<close>
    by (cases "await_at s a") (auto intro: await_lock await_relock await_return simp: alone_inv_def)
  ultimately show ?thesis using d e by auto
qed

subsection \<open>Executing a schedule\<close>

text \<open>The step of the executor, when a signal wakes the thread \<open>w\<close>.\<close>

definition exec_next :: "'r option option \<Rightarrow> nat \<Rightarrow> 'r result_run \<Rightarrow> 'r result_run option" where
  "exec_next fn w s = (case exec_at s of
     EStart \<Rightarrow> (case fn of Some v \<Rightarrow> Some (s\<lparr>exec_at := ECalled v\<rparr>)
       | None \<Rightarrow> if rr_holder s = None then Some (s\<lparr>exec_at := EFailLocked, rr_holder := Some Executor\<rparr>) else None)
   | EFailLocked \<Rightarrow> Some (s\<lparr>exec_at := EFailSet, rr_done := -1\<rparr>)
   | EFailSet \<Rightarrow> Some (s\<lparr>exec_at := EReturned, rr_holder := None\<rparr>)
   | ECalled v \<Rightarrow> if rr_holder s = None then Some (s\<lparr>exec_at := ESetLocked v, rr_holder := Some Executor\<rparr>) else None
   | ESetLocked v \<Rightarrow> Some (s\<lparr>exec_at := EResSet, rr_res := v\<rparr>)
   | EResSet \<Rightarrow> Some (s\<lparr>exec_at := EBetween, rr_holder := None\<rparr>)
   | EBetween \<Rightarrow> if rr_holder s = None then Some (s\<lparr>exec_at := EDoneLocked, rr_holder := Some Executor\<rparr>) else None
   | EDoneLocked \<Rightarrow> Some (s\<lparr>exec_at := EDoneSet, rr_done := 0\<rparr>)
   | EDoneSet \<Rightarrow> (case await_at s w of ASleeping \<Rightarrow> Some (set_await w AWoken (s\<lparr>exec_at := ESignalled\<rparr>)) | _ \<Rightarrow> None)
   | ESignalled \<Rightarrow> Some (s\<lparr>exec_at := EReturned, rr_holder := None\<rparr>)
   | EReturned \<Rightarrow> None)"

definition await_next :: "nat \<Rightarrow> 'r result_run \<Rightarrow> 'r result_run option" where
  "await_next a s = (case await_at s a of
     ACalling \<Rightarrow> if rr_holder s = None then Some (set_await a ATesting (s\<lparr>rr_holder := Some (Awaiter a)\<rparr>)) else None
   | ATesting \<Rightarrow> if 0 < rr_done s then Some (set_await a ASleeping (s\<lparr>rr_holder := None\<rparr>))
       else Some (set_await a ALeaving s)
   | ASleeping \<Rightarrow> None
   | AWoken \<Rightarrow> if rr_holder s = None then Some (set_await a ATesting (s\<lparr>rr_holder := Some (Awaiter a)\<rparr>)) else None
   | ALeaving \<Rightarrow> Some (set_await a AReading (s\<lparr>rr_holder := None\<rparr>))
   | AReading \<Rightarrow> Some (set_await a (AReturned (rr_res s)) s)
   | AReturned v \<Rightarrow> None)"

datatype move = Exec nat | Await nat

fun run_moves :: "'r option option \<Rightarrow> move list \<Rightarrow> 'r result_run \<Rightarrow> 'r result_run option" where
  "run_moves fn [] s = Some s"
| "run_moves fn (Exec w # ms) s = Option.bind (exec_next fn w s) (run_moves fn ms)"
| "run_moves fn (Await a # ms) s = Option.bind (await_next a s) (run_moves fn ms)"

lemma exec_next_step: "exec_next fn w s = Some t \<Longrightarrow> exec_step fn s t"
  by (auto simp: exec_next_def exec_step.simps split: exec_pc.splits option.splits if_splits await_pc.splits)

lemma await_next_step: "await_next a s = Some t \<Longrightarrow> await_step a s t"
  by (auto simp: await_next_def await_step.simps split: await_pc.splits if_splits)

lemma run_moves_steps:
  "run_moves fn ms s = Some t \<Longrightarrow> (\<forall>a. Await a \<in> set ms \<longrightarrow> a \<in> A) \<Longrightarrow> result_steps spurious A fn s t"
proof (induction ms arbitrary: s)
  case (Cons m ms)
  then obtain u where u: "run_moves fn ms u = Some t" "result_step spurious A fn s u"
    by (cases m) (auto simp: bind_eq_Some_conv intro: by_executor by_awaiter exec_next_step await_next_step)
  then have "result_steps spurious A fn s u" by (intro rs.steps_one)
  with Cons u(1) show ?case by (auto intro: rs.steps_compose)
qed (auto intro: steps_refl)

text \<open>A thread goes to sleep, and the executor then runs to its end.\<close>

definition sleep_moves :: "nat \<Rightarrow> move list" where
  "sleep_moves a = [Await a, Await a]"

definition finish_moves :: "nat \<Rightarrow> move list" where
  "finish_moves w = replicate 8 (Exec w) @ replicate 4 (Await w)"

subsection \<open>Properties\<close>

text \<open>
  C23: waiting for a result returns only after the job was run, and what it returns is the
  result of the job's function, or \<open>NULL\<close> with the mark \<open>-1\<close> when the function pointer was
  \<open>NULL\<close>; this holds for any number of waiting threads, whatever wake-ups occur.
\<close>

theorem await_returns_result:
  assumes "result_steps spurious A fn result_start s" and "await_at s a = AReturned x"
  shows "case fn of Some v \<Rightarrow> x = v \<and> rr_done s = 0 | None \<Rightarrow> x = None \<and> rr_done s = -1"
proof -
  have "result_inv fn s" using result_steps_inv [OF assms(1) result_inv_start] .
  then have "rr_done s \<le> 0" "x = rr_res s" "exec_effect fn (exec_at s) (rr_res s) (rr_done s)"
    using assms(2) by (auto simp: result_inv_def done_inv_def)
  then show ?thesis by (cases "exec_at s") (auto split: option.splits)
qed

theorem await_returns_result_witness:
  "\<exists>s :: nat result_run. await_at s 0 = AReturned (Some 42) \<and> rr_done s = 0"
proof -
  have "map_option (\<lambda>s. await_at s 0)
      (run_moves (Some (Some 42)) (sleep_moves 0 @ finish_moves 0) result_start) = Some (AReturned (Some (42 :: nat)))"
    by code_simp
  then obtain s where s: "run_moves (Some (Some 42)) (sleep_moves 0 @ finish_moves 0) result_start = Some s"
      "await_at s 0 = AReturned (Some (42 :: nat))" by auto
  have "result_steps False UNIV (Some (Some 42)) result_start s" by (rule run_moves_steps [OF s(1)]) simp
  from await_returns_result [OF this s(2)] s(2) show ?thesis by auto
qed

text \<open>
  C24: when one thread waits for the result of a job with a function, and wake-ups come from
  signals only, then every run of the two is finite, and it cannot stop before the job was run
  and the waiting thread has returned with the result of the function.
\<close>

theorem single_await_returns:
  assumes "result_steps False {a} (Some v) result_start s"
  shows "((\<exists>t. result_step False {a} (Some v) s t) \<or> await_at s a = AReturned v \<and> exec_at s = EReturned)
    \<and> \<not> (\<exists>f. f 0 = s \<and> (\<forall>i. result_step False {a} (Some v) (f i) (f (Suc i))))"
proof -
  have "alone_inv a (result_start :: 'a result_run)" by (simp add: alone_inv_def result_start_def)
  then have s: "alone_inv a s" "result_inv (Some v) s"
    using result_steps_keep [OF assms result_inv_start, of "alone_inv a"] alone_step by blast+
  then have "(\<exists>t. result_step False {a} (Some v) s t) \<or> await_at s a = AReturned v \<and> exec_at s = EReturned"
    by (intro alone_progress)
  moreover have "\<not> (\<exists>f. f 0 = s \<and> (\<forall>i. result_step False {a} (Some v) (f i) (f (Suc i))))"
    by (rule rs.no_infinite_run [where I = "\<lambda>s. alone_inv a s \<and> result_inv (Some v) s" and m = "result_rank a"])
      (use s alone_step result_step_inv rank_step in blast)+
  ultimately show ?thesis ..
qed

theorem single_await_returns_witness:
  "\<exists>s. (\<forall>t. \<not> result_step False {0} (Some (Some (42 :: nat))) s t)
    \<and> result_steps False {0} (Some (Some 42)) result_start s \<and> await_at s 0 = AReturned (Some 42)"
proof -
  have "map_option (\<lambda>s. (exec_at s, await_at s 0))
      (run_moves (Some (Some 42)) (sleep_moves 0 @ finish_moves 0) result_start)
        = Some (EReturned, AReturned (Some (42 :: nat)))"
    by code_simp
  then obtain s where s: "run_moves (Some (Some 42)) (sleep_moves 0 @ finish_moves 0) result_start = Some s"
      "exec_at s = EReturned" "await_at s 0 = AReturned (Some (42 :: nat))" by auto
  have run: "result_steps False {0} (Some (Some 42)) result_start s"
    by (rule run_moves_steps [OF s(1)]) (simp add: sleep_moves_def finish_moves_def)
  have "\<not> result_step False {0} (Some (Some 42)) s t" for t
    using s(2,3) by (auto simp: result_step.simps exec_step.simps await_step.simps)
  then show ?thesis using single_await_returns [OF run] run by blast
qed

text \<open>
  C26: a second thread that waits for the same result is never woken: when two threads are
  asleep before the signal, one of them stays asleep for ever (unless it wakes without a
  signal).
\<close>

theorem second_await_sleeps:
  assumes "result_steps False A (Some v) result_start s" and "a \<noteq> b"
    and "await_at s a = ASleeping" and "await_at s b = ASleeping"
    and "result_steps False A (Some v) s t"
  shows "await_at t a = ASleeping \<or> await_at t b = ASleeping"
proof -
  have "result_inv (Some v) s" using result_steps_inv [OF assms(1) result_inv_start] .
  then have "one_left a b t"
    using result_steps_keep [OF assms(5), of "one_left a b"] one_left_step [OF assms(2)] assms(3,4)
    by (auto simp: one_left_def)
  then show ?thesis by (simp add: one_left_def)
qed

theorem second_await_sleeps_witness:
  "\<exists>t. result_steps False UNIV (Some (Some (42 :: nat))) result_start t \<and> exec_at t = EReturned
    \<and> await_at t 0 = AReturned (Some 42) \<and> await_at t 1 = ASleeping"
proof -
  let ?f = "Some (Some (42 :: nat))"
  have "map_option (\<lambda>s. (await_at s 0, await_at s 1, map_option (\<lambda>t. (exec_at t, await_at t 0)) (run_moves ?f (finish_moves 0) s)))
      (run_moves ?f (sleep_moves 0 @ sleep_moves 1) result_start)
        = Some (ASleeping, ASleeping, Some (EReturned, AReturned (Some 42)))"
    by code_simp
  then obtain s t where st: "run_moves ?f (sleep_moves 0 @ sleep_moves 1) result_start = Some s"
      "await_at s 0 = ASleeping" "await_at s 1 = ASleeping" "run_moves ?f (finish_moves 0) s = Some t"
      "exec_at t = EReturned" "await_at t 0 = AReturned (Some 42)" by auto
  have s: "result_steps False UNIV ?f result_start s" and t: "result_steps False UNIV ?f s t"
    using run_moves_steps [OF st(1)] run_moves_steps [OF st(4)] by auto
  from second_await_sleeps [OF s _ st(2,3) t] st(6) have "await_at t 1 = ASleeping" by simp
  then show ?thesis using st rs.steps_compose [OF s t] by blast
qed

text \<open>
  a thread that waits for a job without a function is never woken: that path of the
  executor sets the mark and sends no signal.
\<close>

theorem await_of_null_job_sleeps:
  assumes "result_steps False A None result_start s" and "await_at s a = ASleeping"
    and "result_steps False A None s t"
  shows "await_at t a = ASleeping"
proof -
  have "result_inv None s" using result_steps_inv [OF assms(1) result_inv_start] .
  then show ?thesis
    using result_steps_keep [OF assms(3), of "\<lambda>s. await_at s a = ASleeping"] sleeping_step assms(2) by blast
qed

theorem await_of_null_job_sleeps_witness:
  "\<exists>t. result_steps False UNIV None (result_start :: nat result_run) t \<and> exec_at t = EReturned
    \<and> rr_done t = -1 \<and> await_at t 0 = ASleeping"
proof -
  have "map_option (\<lambda>s. (await_at s 0, map_option (\<lambda>t. (exec_at t, rr_done t)) (run_moves None (replicate 3 (Exec 0)) s)))
      (run_moves None (sleep_moves 0) (result_start :: nat result_run)) = Some (ASleeping, Some (EReturned, -1))"
    by code_simp
  then obtain s t where st: "run_moves None (sleep_moves 0) (result_start :: nat result_run) = Some s"
      "await_at s 0 = ASleeping" "run_moves None (replicate 3 (Exec 0)) s = Some t"
      "exec_at t = EReturned" "rr_done t = -1" by auto
  have s: "result_steps False UNIV None result_start s" and t: "result_steps False UNIV None s t"
    using run_moves_steps [OF st(1)] run_moves_steps [OF st(3)] by auto
  from await_of_null_job_sleeps [OF s st(2) t] st rs.steps_compose [OF s t] show ?thesis by blast
qed

end
