(* ===== verification/JobProps.thy ===== *)
theory JobProps
  imports JobQueue JobResult
begin

section \<open>Jobs and their queue: properties\<close>

text \<open>
  The interface the pool relies on: a new job may be added to every queue, running it
  leaves the queue alone, and its result can then be awaited. The state invariant \<open>jobs_ok\<close>
  says that no address is handed out twice and every live job has a live result of its own
  whose mutex is free.
\<close>

definition own_results :: "('f, 'a, 'r) job_state \<Rightarrow> bool" where
  "own_results st \<longleftrightarrow> (\<forall>a b j k. cells (jobs st) a = Some j \<longrightarrow> cells (jobs st) b = Some k
     \<longrightarrow> job_jres j = job_jres k \<longrightarrow> a = b)"

definition jobs_ok :: "('f, 'a, 'r) job_state \<Rightarrow> bool" where
  "jobs_ok st \<longleftrightarrow> wf_store (jobs st) \<and> wf_store (results st)
     \<and> (\<forall>a j. cells (jobs st) a = Some j \<longrightarrow> (\<exists>r x. job_jres j = Some r
          \<and> cells (results st) r = Some x \<and> \<not> jr_mutex x \<and> (job_function j = None \<longrightarrow> jr_res x = None)))
     \<and> own_results st"

lemma own_results_queues [simp]: "own_results (st\<lparr>queues := qs\<rparr>) = own_results st"
  by (simp add: own_results_def)

definition empty_jobs :: "('f, 'a, 'r) job_state" where
  "empty_jobs = \<lparr>jobs = empty_store, results = empty_store, queues = empty_store\<rparr>"

lemma jobs_ok_empty [simp]: "jobs_ok empty_jobs"
  by (simp add: jobs_ok_def own_results_def empty_jobs_def) (simp add: empty_store_def)

text \<open>A new job is alive, outside every queue, and nothing else changes.\<close>

lemma job_new_outcome:
  assumes ok: "jobs_ok st" and new: "threadpool_job_new True True f x st = (r, ev, st')"
  shows "\<exists>a j. r = Some a \<and> ev = [] \<and> jobs_ok st' \<and> queues st' = queues st
    \<and> cells (jobs st) a = None \<and> cells (jobs st') = (cells (jobs st))(a \<mapsto> j)
    \<and> job_function j = f \<and> job_arg j = x \<and> job_next j = None
    \<and> (\<exists>y. job_jres j = Some y \<and> cells (results st) y = None
        \<and> cells (results st') = (cells (results st))(y \<mapsto> \<lparr>jr_mutex = False, jr_res = None, jr_done = 1\<rparr>))"
proof -
  let ?n = "\<lparr>jr_mutex = False, jr_res = None, jr_done = 1\<rparr> :: 'c threadpool_job_result_t"
  obtain y rs where y: "alloc (results st) ?n = (y, rs)" by (cases "alloc (results st) ?n")
  let ?j = "\<lparr>job_function = f, job_arg = x, job_next = None, job_jres = Some y\<rparr>"
  obtain a js where a: "alloc (jobs st) ?j = (a, js)" by (cases "alloc (jobs st) ?j")
  have st': "r = Some a" "ev = []" "st' = st\<lparr>results := rs, jobs := js\<rparr>"
    using new y a by (auto simp: threadpool_job_new_def threadpool_job_result_new_def)
  have rs: "wf_store rs" "cells (results st) y = None" "cells rs = (cells (results st))(y \<mapsto> ?n)"
    using wf_store_alloc [OF _ y] ok by (auto simp: jobs_ok_def)
  have js: "wf_store js" "cells (jobs st) a = None" "cells js = (cells (jobs st))(a \<mapsto> ?j)"
    using wf_store_alloc [OF _ a] ok by (auto simp: jobs_ok_def)
  have "\<exists>r x. job_jres k = Some r \<and> cells rs r = Some x \<and> \<not> jr_mutex x \<and> (job_function k = None \<longrightarrow> jr_res x = None)"
    if k: "cells js b = Some k" for b k
  proof (cases "b = a")
    case True
    then have "job_jres k = Some y" using k js(3) by auto
    then show ?thesis using rs(3) by (intro exI [of _ y]) auto
  next
    case False
    then obtain r x where "job_jres k = Some r" "cells (results st) r = Some x" "\<not> jr_mutex x"
      "job_function k = None \<longrightarrow> jr_res x = None" using k js(3) ok unfolding jobs_ok_def by (metis fun_upd_other)
    moreover from this have "r \<noteq> y" using rs(2) by auto
    ultimately show ?thesis using rs(3) by simp
  qed
  moreover have "own_results st'"
  proof -
    have "job_jres k \<noteq> Some y" if k: "cells (jobs st) b = Some k" for b k
    proof -
      obtain r x where "job_jres k = Some r" "cells (results st) r = Some x" using k ok unfolding jobs_ok_def by blast
      with rs(2) show ?thesis by auto
    qed
    moreover have "own_results st" using ok by (simp add: jobs_ok_def)
    ultimately show ?thesis using st'(3) js(3) by (force simp: own_results_def split: if_splits)
  qed
  ultimately have "jobs_ok st'" using st'(3) rs(1) js(1) by (simp add: jobs_ok_def)
  with st' rs js show ?thesis by (intro exI [of _ a] exI [of _ ?j]) auto
qed

lemma same_jobs_ok:
  assumes "same_jobs st st'" and "jobs_ok st"
  shows "jobs_ok st'"
proof -
  have same: "map_option payload (cells (jobs st') a) = map_option payload (cells (jobs st) a)" for a
    using assms(1) by (simp add: same_jobs_def)
  have origin: "\<exists>k. cells (jobs st) a = Some k \<and> job_jres k = job_jres j \<and> job_function k = job_function j"
    if "cells (jobs st') a = Some j" for a j
    using same [of a] that by (cases "cells (jobs st) a") (auto simp: payload_def)
  have "wf_store (jobs st')"
    using assms origin by (fastforce simp: jobs_ok_def wf_store_def same_jobs_def)
  moreover have "\<exists>r x. job_jres j = Some r \<and> cells (results st') r = Some x \<and> \<not> jr_mutex x \<and> (job_function j = None \<longrightarrow> jr_res x = None)"
    if "cells (jobs st') a = Some j" for a j using assms origin [OF that] unfolding jobs_ok_def same_jobs_def by metis
  moreover have "own_results st'" using origin assms(2) unfolding jobs_ok_def own_results_def by metis
  ultimately show ?thesis using assms by (simp add: jobs_ok_def same_jobs_def)
qed

lemma same_jobs_live:
  "same_jobs st st' \<Longrightarrow> cells (jobs st') a \<noteq> None \<longleftrightarrow> cells (jobs st) a \<noteq> None"
  by (auto simp: same_jobs_def) (metis not_None_eq option.map_disc_iff)+

lemma queue_at_fresh: "queue_at q st as \<Longrightarrow> cells (jobs st) a = None \<Longrightarrow> a \<notin> set as"
  by (auto simp: queue_at_def dest: linked_live)

lemma queue_at_new_job:
  assumes "queue_at q st as" and "cells (jobs st) a = None"
    and "queues st' = queues st" and "cells (jobs st') = (cells (jobs st))(a \<mapsto> j)" and "job_next j = None"
  shows "queue_at q st' as \<and> a \<in> addable_jobs st' as"
  using assms queue_at_fresh [OF assms(1,2)] by (auto simp: queue_at_def linked_frame addable_jobs_def)

subsection \<open>Running a job\<close>

lemma exec_outcome:
  assumes "cells (jobs st) a = Some j" and "job_jres j = Some r" and "cells (results st) r = Some x"
    and "\<not> jr_mutex x"
  shows "threadpool_job_exec call (Some a) st = (case job_function j of
      None \<Rightarrow> ret (None, st\<lparr>results := (results st)\<lparr>cells := (cells (results st))(r \<mapsto> x\<lparr>jr_done := -1, jr_mutex := False\<rparr>)\<rparr>\<rparr>)
    | Some f \<Rightarrow> bindX (call f (job_arg j)) (\<lambda>v.
        ret (v, st\<lparr>results := (results st)\<lparr>cells := (cells (results st))(r \<mapsto> x\<lparr>jr_res := v, jr_done := 0, jr_mutex := False\<rparr>)\<rparr>\<rparr>)))"
  using assms by (auto simp: threadpool_job_exec_def set_done_def threadpool_job_result_set_def heap_simps ret_def
      split: option.split)

lemma exec_keeps:
  assumes ok: "jobs_ok st" and a: "cells (jobs st) a = Some j"
    and run: "threadpool_job_exec call (Some a) st = ret (v, st')"
  shows "jobs_ok st' \<and> jobs st' = jobs st \<and> queues st' = queues st"
proof -
  obtain r x where rx: "job_jres j = Some r" "cells (results st) r = Some x" "\<not> jr_mutex x"
    and null: "job_function j = None \<longrightarrow> jr_res x = None" using ok a unfolding jobs_ok_def by blast
  have wf: "wf_store ((results st)\<lparr>cells := (cells (results st))(r \<mapsto> y)\<rparr>)" for y
    using ok rx(2) by (intro wf_store_update) (auto simp: jobs_ok_def)
  from run rx(3) obtain y where st': "st' = st\<lparr>results := (results st)\<lparr>cells := (cells (results st))(r \<mapsto> y)\<rparr>\<rparr>"
      "\<not> jr_mutex y" "job_function j = None \<longrightarrow> jr_res y = None"
    using null unfolding exec_outcome [OF a rx(1-3)] by (auto simp: bindX_ret_iff ret_def split: option.splits)
  have "\<exists>z x. job_jres k = Some z \<and> cells (results st') z = Some x \<and> \<not> jr_mutex x \<and> (job_function k = None \<longrightarrow> jr_res x = None)"
    if k: "cells (jobs st) b = Some k" for b k
  proof (cases "b = a")
    case True
    with a k rx(1) st' show ?thesis by auto
  next
    case False
    obtain z x where zx: "job_jres k = Some z" "cells (results st) z = Some x" "\<not> jr_mutex x"
      "job_function k = None \<longrightarrow> jr_res x = None" using ok k unfolding jobs_ok_def by blast
    moreover have "z \<noteq> r" using ok a k rx(1) zx(1) False by (auto simp: jobs_ok_def own_results_def)
    ultimately show ?thesis using st'(1) by simp
  qed
  moreover have "own_results st'" using ok st'(1) by (simp add: jobs_ok_def own_results_def)
  ultimately show ?thesis using ok wf st'(1) by (simp add: jobs_ok_def)
qed

lemma await_outcome:
  assumes "cells (results st) r = Some x" and "\<not> jr_mutex x"
  shows "threadpool_job_result_await (Some r) st = (if 0 < jr_done x then None else ret (jr_res x))"
  using assms by (simp add: threadpool_job_result_await_def heap_simps)

subsection \<open>Properties\<close>

text \<open>
  C11: every sequence of additions and removals on a job queue returns exactly the jobs that the
  same sequence returns on a list, first in, first out, and leaves a queue of the jobs that
  are left on the list; no operation blocks or fails, as long as a job is added only while it
  is in no queue.
\<close>

theorem job_queue_refines_list:
  assumes "queue_at q st as" and "ops_ok (addable_jobs st as) ops as"
  shows "\<exists>st'. jq.run_ops q ops st = ret (fst (list_ops ops as), st') \<and> queue_at q st' (snd (list_ops ops as))"
  using assms by (rule jq.run_ops_refines)

definition two_jobs :: "(nat, nat, nat) job_state" where
  "two_jobs = (let (q, s0) = threadpool_job_queue_new empty_jobs;
                   (a, e1, s1) = threadpool_job_new True True (Some 0) 10 s0;
                   (b, e2, s2) = threadpool_job_new True True None 20 s1 in s2)"

lemma two_jobs_state: "queue_at 0 two_jobs []" "addable_jobs two_jobs [] = {0, 1}" "jobs_ok two_jobs"
    "map_option job_function (cells (jobs two_jobs) 0) = Some (Some 0)"
    "map_option job_jres (cells (jobs two_jobs) 0) = Some (Some 0)"
proof -
  let ?s0 = "snd (threadpool_job_queue_new empty_jobs) :: (nat, nat, nat) job_state"
  have 0: "jobs_ok ?s0"
    using jobs_ok_empty [where ?'a = nat and ?'b = nat and ?'c = nat]
    by (simp add: threadpool_job_queue_new_def alloc_def jobs_ok_def)
  obtain a e1 s1 where 1: "threadpool_job_new True True (Some 0) 10 ?s0 = (a, e1, s1)" by (metis prod_cases3)
  obtain b e2 s2 where 2: "threadpool_job_new True True None 20 s1 = (b, e2, s2)" by (metis prod_cases3)
  have "two_jobs = s2"
    by (cases "threadpool_job_queue_new empty_jobs :: ref \<times> (nat, nat, nat) job_state")
      (use 1 2 in \<open>simp add: two_jobs_def\<close>)
  have "jobs_ok s1" using job_new_outcome [OF 0 1] by blast
  then have "jobs_ok s2" using job_new_outcome [OF _ 2] by blast
  with \<open>two_jobs = s2\<close> show "jobs_ok two_jobs" by simp
qed (auto simp: two_jobs_def threadpool_job_queue_new_def threadpool_job_new_def threadpool_job_result_new_def
      alloc_def empty_jobs_def empty_store_def queue_at_def addable_jobs_def)

theorem job_queue_refines_list_witness:
  "\<exists>st'. jq.run_ops 0 [Enq 1, Deq, Enq 0, Enq 1, Deq, Deq, Deq] two_jobs = ret ([Some 1, Some 0, Some 1, None], st')
    \<and> queue_at 0 st' []"
  using job_queue_refines_list [of 0 two_jobs "[]" "[Enq 1, Deq, Enq 0, Enq 1, Deq, Deq, Deq]"]
  by (simp add: two_jobs_state)

text \<open>
  running a job with a function returns the function's result and makes the await of the job's
  result return the same; before that, the await blocks. The result of a job without a
  function is \<open>NULL\<close>, and the mark of its result is \<open>-1\<close>.
\<close>

theorem job_result_correct:
  assumes "cells (jobs st) a = Some j" and "job_jres j = Some r"
    and "cells (results st) r = Some \<lparr>jr_mutex = False, jr_res = None, jr_done = 1\<rparr>"
  shows "threadpool_job_result_await (Some r) st = None
    \<and> bindX (threadpool_job_exec call (Some a) st) (\<lambda>(v, st'). bindX (threadpool_job_result_await (Some r) st')
          (\<lambda>w. bindX (lift_res (load (results st') (Some r))) (\<lambda>x. ret (v, w, jr_done x))))
      = (case job_function j of None \<Rightarrow> ret (None, None, -1)
         | Some f \<Rightarrow> bindX (call f (job_arg j)) (\<lambda>v. ret (v, v, 0)))"
  using exec_outcome [OF assms, of call]
  by (cases "job_function j") (auto simp: await_outcome assms(3) ret_def heap_simps bindX_def
      split: option.split sum.split)

theorem job_result_correct_witness:
  "bindX (threadpool_job_exec (\<lambda>f x. ret (Some (x + f + 1))) (Some 0) two_jobs)
    (\<lambda>(v, st'). bindX (threadpool_job_result_await (Some 0) st')
      (\<lambda>w. bindX (lift_res (load (results st') (Some 0))) (\<lambda>x. ret (v, w, jr_done x)))) = ret (Some 11, Some 11, 0)"
proof -
  obtain j where j: "cells (jobs two_jobs) 0 = Some j" "job_function j = Some 0" "job_jres j = Some 0" "job_arg j = 10"
    by (simp add: two_jobs_def threadpool_job_queue_new_def threadpool_job_new_def threadpool_job_result_new_def
      alloc_def empty_jobs_def empty_store_def)
  have "cells (results two_jobs) 0 = Some \<lparr>jr_mutex = False, jr_res = None, jr_done = 1\<rparr>"
    by (simp add: two_jobs_def threadpool_job_queue_new_def threadpool_job_new_def threadpool_job_result_new_def
      alloc_def empty_jobs_def empty_store_def)
  from job_result_correct [OF j(1,3) this] j show ?thesis by (simp add: ret_def)
qed

text \<open>
  destroying a queue frees the queue and exactly the jobs in it, leaving their results;
  \<open>threadpool_job_queue_destroy\<close> walks as many jobs as the size says and never past the end.
\<close>

theorem queue_destroy_frees:
  assumes "queue_at q st as"
  shows "\<exists>st'. threadpool_job_queue_destroy (Some q) st = ret st' \<and> results st' = results st
    \<and> (\<forall>a. cells (jobs st') a = (if a \<in> set as then None else cells (jobs st) a))
    \<and> cells (queues st') q = None"
  using assms by (rule queue_destroy_at)

theorem queue_destroy_frees_witness:
  "\<exists>st'. threadpool_job_queue_destroy (Some 0) two_jobs = ret st' \<and> cells (jobs st') 0 = cells (jobs two_jobs) 0"
  using queue_destroy_frees [OF two_jobs_state(1)] by auto

end
