(* ===== verification/Threadpool.thy ===== *)
theory Threadpool
  imports Job
begin

section \<open>The thread pool (include/threadpool.h, src/threadpool.c)\<close>

text \<open>
  The functions of the pool that its owner calls, on a state that holds the objects of the
  pool and the threads of the process. What the workers do between these calls is the
  subject of \<open>PoolSteps\<close>.
\<close>

subsection \<open>Data\<close>

text \<open>The thread of a worker is unset until \<open>pthread_create\<close> succeeds.\<close>

record threadpool_worker_t =
  wk_id :: nat
  wk_thread :: "nat option"

record threadpool_worker_data_t =
  wd_worker :: ref
  wd_pool :: ref

record threadpool_t =
  tp_workers :: "ref list"
  numthreads :: nat
  tp_queue :: ref
  tp_mutex :: bool

record posix_thread =
  start_arg :: ref
  detached :: bool
  cancel_asked :: bool

record ('f, 'a, 'r) tp_state =
  tp_jobs :: "('f, 'a, 'r) job_state"
  pools :: "threadpool_t store"
  pool_workers :: "threadpool_worker_t store"
  worker_datas :: "threadpool_worker_data_t store"
  threads :: "posix_thread store"

definition no_pools :: "('f, 'a, 'r) tp_state" where
  "no_pools = \<lparr>tp_jobs = \<lparr>jobs = empty_store, results = empty_store, queues = empty_store\<rparr>,
     pools = empty_store, pool_workers = empty_store, worker_datas = empty_store, threads = empty_store\<rparr>"

subsection \<open>Workers\<close>

definition threadpool_worker_data_new :: "ref \<Rightarrow> ref \<Rightarrow> ('f, 'a, 'r) tp_state \<Rightarrow> ref \<times> ('f, 'a, 'r) tp_state" where
  "threadpool_worker_data_new worker pool st =
     (let (a, ds) = alloc (worker_datas st) \<lparr>wd_worker = worker, wd_pool = pool\<rparr>
      in (Some a, st\<lparr>worker_datas := ds\<rparr>))"

definition threadpool_worker_data_destroy :: "ref \<Rightarrow> ('f, 'a, 'r) tp_state \<Rightarrow> ('f, 'a, 'r) tp_state res" where
  "threadpool_worker_data_destroy data st =
     bindR (release (worker_datas st) data) (\<lambda>ds. Inr (st\<lparr>worker_datas := ds\<rparr>))"

text \<open>
  \<open>spawns i\<close>: creating the thread of worker \<open>i\<close> succeeds. Its result is not looked at: when
  it fails, an unset thread is detached.
\<close>

definition threadpool_worker_new :: "(nat \<Rightarrow> bool) \<Rightarrow> nat \<Rightarrow> ref \<Rightarrow> ('f, 'a, 'r) tp_state
    \<Rightarrow> (ref \<times> ('f, 'a, 'r) tp_state) res" where
  "threadpool_worker_new spawns i pool st =
     (let (w, ws) = alloc (pool_workers st) \<lparr>wk_id = i, wk_thread = None\<rparr>;
          (d, st1) = threadpool_worker_data_new (Some w) pool (st\<lparr>pool_workers := ws\<rparr>)
      in if \<not> spawns i then Inl Uninit
         else (let (t, ts) = alloc (threads st1) \<lparr>start_arg = d, detached = True, cancel_asked = False\<rparr> in
           bindR (assign (pool_workers st1) (Some w) \<lparr>wk_id = i, wk_thread = Some t\<rparr>) (\<lambda>ws1.
             Inr (Some w, st1\<lparr>threads := ts, pool_workers := ws1\<rparr>))))"

text \<open>A thread is cancelled, and then joined: a detached thread must not be joined.\<close>

definition threadpool_worker_stop :: "ref \<Rightarrow> ('f, 'a, 'r) tp_state \<Rightarrow> ('f, 'a, 'r) tp_state res" where
  "threadpool_worker_stop worker st =
     bindR (load (pool_workers st) worker) (\<lambda>w.
     case wk_thread w of None \<Rightarrow> Inl Uninit
     | Some t \<Rightarrow>
       bindR (load (threads st) (Some t)) (\<lambda>th.
       bindR (assign (threads st) (Some t) (th\<lparr>cancel_asked := True\<rparr>)) (\<lambda>ts.
         if detached th then Inl JoinDetached
         else bindR (release (pool_workers st) worker) (\<lambda>ws.
           Inr (st\<lparr>threads := ts, pool_workers := ws\<rparr>)))))"

subsection \<open>The pool\<close>

fun spawn_workers :: "(nat \<Rightarrow> bool) \<Rightarrow> ref \<Rightarrow> nat list \<Rightarrow> ('f, 'a, 'r) tp_state
    \<Rightarrow> (ref list \<times> ('f, 'a, 'r) tp_state) res" where
  "spawn_workers spawns pool [] st = Inr ([], st)"
| "spawn_workers spawns pool (i # ks) st =
     bindR (threadpool_worker_new spawns i pool st) (\<lambda>(w, st1).
     bindR (spawn_workers spawns pool ks st1) (\<lambda>(ws, st2). Inr (w # ws, st2)))"

definition threadpool_new :: "(nat \<Rightarrow> bool) \<Rightarrow> nat \<Rightarrow> ('f, 'a, 'r) tp_state
    \<Rightarrow> (ref \<times> ('f, 'a, 'r) tp_state) res" where
  "threadpool_new spawns n st =
     (if n = 0 then Inr (None, st)
      else
       (let (q, js) = threadpool_job_queue_new (tp_jobs st);
            p = \<lparr>tp_workers = [], numthreads = n, tp_queue = q, tp_mutex = False\<rparr>;
            (a, ps) = alloc (pools st) p in
        bindR (spawn_workers spawns (Some a) [0..<n] (st\<lparr>tp_jobs := js, pools := ps\<rparr>)) (\<lambda>(ws, st1).
        bindR (assign (pools st1) (Some a) (p\<lparr>tp_workers := ws\<rparr>)) (\<lambda>ps1.
          Inr (Some a, st1\<lparr>pools := ps1\<rparr>)))))"

definition threadpool_add_work :: "bool \<Rightarrow> bool \<Rightarrow> ref \<Rightarrow> 'f option \<Rightarrow> 'a \<Rightarrow> ('f, 'a, 'r) tp_state
    \<Rightarrow> (ref \<times> log_event list \<times> ('f, 'a, 'r) tp_state) run" where
  "threadpool_add_work mutex_ok cond_ok pool f x st =
     (let (job, ev, js) = threadpool_job_new mutex_ok cond_ok f x (tp_jobs st) in
      bindX (lift_res (load (pools st) pool)) (\<lambda>p.
      bindX (lock (tp_mutex p)) (\<lambda>held.
      bindX (threadpool_job_queue_add_job (tp_queue p) job js) (\<lambda>js1.
      bindX (lift_res (assign (pools st) pool (p\<lparr>tp_mutex := unlock held\<rparr>))) (\<lambda>ps.
      bindX (lift_res (load (jobs js1) job)) (\<lambda>j.
        ret (job_jres j, ev, st\<lparr>tp_jobs := js1, pools := ps\<rparr>)))))))"

text \<open>
  The loop reads the size of the queue until it is zero. Other threads change the size in
  the meantime: \<open>sizes i\<close> is what iteration \<open>i\<close> reads.
\<close>

partial_function (option) wait_for_zero :: "(nat \<Rightarrow> nat) \<Rightarrow> nat \<Rightarrow> nat option" where
  "wait_for_zero sizes i = (if 0 < sizes i then wait_for_zero sizes (Suc i) else Some i)"

definition threadpool_ensure_jobs_done :: "ref \<Rightarrow> (nat \<Rightarrow> nat) \<Rightarrow> ('f, 'a, 'r) tp_state \<Rightarrow> unit run" where
  "threadpool_ensure_jobs_done pool sizes st =
     bindX (lift_res (load (pools st) pool)) (\<lambda>p.
     bindX (lift_res (load (queues (tp_jobs st)) (tp_queue p))) (\<lambda>_.
       case wait_for_zero sizes 0 of None \<Rightarrow> None | Some i \<Rightarrow> ret ()))"

fun stop_workers :: "ref list \<Rightarrow> ('f, 'a, 'r) tp_state \<Rightarrow> ('f, 'a, 'r) tp_state res" where
  "stop_workers [] st = Inr st"
| "stop_workers (w # ws) st = bindR (threadpool_worker_stop w st) (stop_workers ws)"

definition threadpool_destroy :: "ref \<Rightarrow> ('f, 'a, 'r) tp_state \<Rightarrow> ('f, 'a, 'r) tp_state run" where
  "threadpool_destroy pool st =
     bindX (lift_res (load (pools st) pool)) (\<lambda>p.
     bindX (lift_res (stop_workers (take (numthreads p) (tp_workers p)) st)) (\<lambda>st1.
     bindX (threadpool_job_queue_destroy (tp_queue p) (tp_jobs st1)) (\<lambda>js.
     bindX (lift_res (release (pools st1) pool)) (\<lambda>ps.
       ret (st1\<lparr>tp_jobs := js, pools := ps\<rparr>)))))"

end
