(* ===== verification/PoolSteps.thy ===== *)
theory PoolSteps
  imports JobProps Threadpool Transitions
begin

section \<open>The workers of a pool at work (src/threadpool.c), step by step\<close>

text \<open>
  \<open>n\<close> workers run \<open>threadpool_worker_func\<close> and any number of clients call
  \<open>threadpool_add_work\<close> on one pool. The steps are cut at the accesses to what the threads share:
  the mutex of the pool, the queue at address \<open>q\<close> (whose operations are those of \<open>Job\<close>), and
  the condition variable. The position of a thread names the next line it executes. The
  history records which jobs were added, taken and finished.
\<close>

datatype pool_agent = PWorker nat | PClient nat

datatype worker_pc =
    WLock | WPop | WWait | WAsleep | WWoken | WPopAgain | WUnlock "nat option" | WRun nat | WDead

datatype client_pc = CIdle | CLock nat | CAdd nat | CSignal | CUnlock

datatype pool_event = Added nat | Taken nat nat | Finished nat nat

record ('f, 'a, 'r) pool_run =
  run_jobs :: "('f, 'a, 'r) job_state"
  mutex_holder :: "pool_agent option"
  worker_at :: "nat \<Rightarrow> worker_pc"
  client_at :: "nat \<Rightarrow> client_pc"
  cancelled :: "nat set"
  history :: "pool_event list"
  pool_log :: "log_event list"

definition pool_start :: "('f, 'a, 'r) job_state \<Rightarrow> ('f, 'a, 'r) pool_run" where
  "pool_start js = \<lparr>run_jobs = js, mutex_holder = None, worker_at = (\<lambda>_. WLock), client_at = (\<lambda>_. CIdle),
     cancelled = {}, history = [], pool_log = []\<rparr>"

abbreviation move_worker :: "nat \<Rightarrow> worker_pc \<Rightarrow> ('f, 'a, 'r) pool_run \<Rightarrow> ('f, 'a, 'r) pool_run" where
  "move_worker w pc s \<equiv> s\<lparr>worker_at := (worker_at s)(w := pc)\<rparr>"

abbreviation move_client :: "nat \<Rightarrow> client_pc \<Rightarrow> ('f, 'a, 'r) pool_run \<Rightarrow> ('f, 'a, 'r) pool_run" where
  "move_client c pc s \<equiv> s\<lparr>client_at := (client_at s)(c := pc)\<rparr>"

text \<open>Running a job, with what the worker logs about it.\<close>

definition run_job :: "('f \<Rightarrow> 'a \<Rightarrow> 'r option run) \<Rightarrow> nat \<Rightarrow> nat \<Rightarrow> ('f, 'a, 'r) job_state
    \<Rightarrow> (log_event list \<times> ('f, 'a, 'r) job_state) run" where
  "run_job call w a js =
     bindX (threadpool_job_exec call (Some a) js) (\<lambda>(v, js1).
     bindX (lift_res (load (jobs js1) (Some a))) (\<lambda>j.
     bindX (lift_res (load (results js1) (job_jres j))) (\<lambda>r.
       ret ((LOG, ''Worker '' @ dec w @ '' executing job...'')
         # (if jr_done r = -1 then [(WRN, ''Worker '' @ dec w @ '': job failed!'')] else []), js1))))"

definition taken_by :: "nat \<Rightarrow> nat option \<Rightarrow> pool_event list" where
  "taken_by w r = (case r of None \<Rightarrow> [] | Some a \<Rightarrow> [Taken w a])"

inductive worker_step :: "('f \<Rightarrow> 'a \<Rightarrow> 'r option run) \<Rightarrow> nat \<Rightarrow> nat
    \<Rightarrow> ('f, 'a, 'r) pool_run \<Rightarrow> ('f, 'a, 'r) pool_run \<Rightarrow> bool" for call q w where
  w_lock: "worker_at s w = WLock \<Longrightarrow> mutex_holder s = None \<Longrightarrow>
    worker_step call q w s (move_worker w WPop (s\<lparr>mutex_holder := Some (PWorker w)\<rparr>))"
| w_pop: "worker_at s w = WPop \<Longrightarrow> threadpool_job_queue_pop_job (Some q) (run_jobs s) = ret (Some a, js) \<Longrightarrow>
    worker_step call q w s (move_worker w (WUnlock (Some a)) (s\<lparr>run_jobs := js, history := history s @ [Taken w a]\<rparr>))"
| w_pop_none: "worker_at s w = WPop \<Longrightarrow> threadpool_job_queue_pop_job (Some q) (run_jobs s) = ret (None, js) \<Longrightarrow>
    worker_step call q w s (move_worker w WWait (s\<lparr>run_jobs := js\<rparr>))"
| w_sleep: "worker_at s w = WWait \<Longrightarrow> w \<notin> cancelled s \<Longrightarrow>
    worker_step call q w s (move_worker w WAsleep (s\<lparr>mutex_holder := None\<rparr>))"
| w_relock: "worker_at s w = WWoken \<Longrightarrow> mutex_holder s = None \<Longrightarrow>
    worker_step call q w s (move_worker w WPopAgain (s\<lparr>mutex_holder := Some (PWorker w)\<rparr>))"
| w_pop_again: "worker_at s w = WPopAgain \<Longrightarrow> threadpool_job_queue_pop_job (Some q) (run_jobs s) = ret (r, js) \<Longrightarrow>
    worker_step call q w s (move_worker w (WUnlock r) (s\<lparr>run_jobs := js, history := history s @ taken_by w r\<rparr>))"
| w_unlock: "worker_at s w = WUnlock (Some a) \<Longrightarrow>
    worker_step call q w s (move_worker w (WRun a) (s\<lparr>mutex_holder := None\<rparr>))"
| w_unlock_none: "worker_at s w = WUnlock None \<Longrightarrow>
    worker_step call q w s (move_worker w WLock (s\<lparr>mutex_holder := None\<rparr>))"
| w_run: "worker_at s w = WRun a \<Longrightarrow> run_job call w a (run_jobs s) = ret (ev, js) \<Longrightarrow>
    worker_step call q w s (move_worker w WLock (s\<lparr>run_jobs := js, history := history s @ [Finished w a],
      pool_log := pool_log s @ ev\<rparr>))"

text \<open>
  A request to cancel a worker is acted on where the worker waits, the only cancellation
  point between the calls of \<open>pthread_setcancelstate\<close>; the mutex is taken again first, and no
  clean-up handler releases it.
\<close>

inductive cancel_step :: "nat \<Rightarrow> ('f, 'a, 'r) pool_run \<Rightarrow> ('f, 'a, 'r) pool_run \<Rightarrow> bool" for w where
  x_ask: "cancel_step w s (s\<lparr>cancelled := insert w (cancelled s)\<rparr>)"
| x_at_wait: "worker_at s w = WWait \<Longrightarrow> w \<in> cancelled s \<Longrightarrow> cancel_step w s (move_worker w WDead s)"
| x_asleep: "worker_at s w \<in> {WAsleep, WWoken} \<Longrightarrow> w \<in> cancelled s \<Longrightarrow> mutex_holder s = None \<Longrightarrow>
    cancel_step w s (move_worker w WDead (s\<lparr>mutex_holder := Some (PWorker w)\<rparr>))"

inductive client_step :: "nat \<Rightarrow> nat \<Rightarrow> nat \<Rightarrow> ('f, 'a, 'r) pool_run \<Rightarrow> ('f, 'a, 'r) pool_run \<Rightarrow> bool"
    for n q c where
  c_lock: "client_at s c = CLock a \<Longrightarrow> mutex_holder s = None \<Longrightarrow>
    client_step n q c s (move_client c (CAdd a) (s\<lparr>mutex_holder := Some (PClient c)\<rparr>))"
| c_add: "client_at s c = CAdd a \<Longrightarrow> threadpool_job_queue_add_job (Some q) (Some a) (run_jobs s) = ret js \<Longrightarrow>
    client_step n q c s (move_client c CSignal (s\<lparr>run_jobs := js, history := history s @ [Added a]\<rparr>))"
| c_signal: "client_at s c = CSignal \<Longrightarrow> w < n \<Longrightarrow> worker_at s w = WAsleep \<Longrightarrow>
    client_step n q c s (move_client c CUnlock (move_worker w WWoken s))"
| c_signal_nobody: "client_at s c = CSignal \<Longrightarrow> (\<forall>w < n. worker_at s w \<noteq> WAsleep) \<Longrightarrow>
    client_step n q c s (move_client c CUnlock s)"
| c_unlock: "client_at s c = CUnlock \<Longrightarrow>
    client_step n q c s (move_client c CIdle (s\<lparr>mutex_holder := None\<rparr>))"

text \<open>A client starts a call by making the job.\<close>

inductive begin_step :: "nat \<Rightarrow> ('f, 'a, 'r) pool_run \<Rightarrow> ('f, 'a, 'r) pool_run \<Rightarrow> bool" for c where
  c_new: "client_at s c = CIdle \<Longrightarrow> threadpool_job_new True True f x (run_jobs s) = (Some a, ev, js) \<Longrightarrow>
    begin_step c s (move_client c (CLock a) (s\<lparr>run_jobs := js\<rparr>))"

inductive pool_step :: "nat \<Rightarrow> ('f \<Rightarrow> 'a \<Rightarrow> 'r option run) \<Rightarrow> nat
    \<Rightarrow> ('f, 'a, 'r) pool_run \<Rightarrow> ('f, 'a, 'r) pool_run \<Rightarrow> bool" for n call q where
  worker: "w < n \<Longrightarrow> worker_step call q w s t \<Longrightarrow> pool_step n call q s t"
| client: "client_step n q c s t \<Longrightarrow> pool_step n call q s t"
| starts: "begin_step c s t \<Longrightarrow> pool_step n call q s t"
| cancels: "w < n \<Longrightarrow> cancel_step w s t \<Longrightarrow> pool_step n call q s t"
| spurious: "w < n \<Longrightarrow> worker_at s w = WAsleep \<Longrightarrow> pool_step n call q s (move_worker w WWoken s)"

inductive pool_steps :: "nat \<Rightarrow> ('f \<Rightarrow> 'a \<Rightarrow> 'r option run) \<Rightarrow> nat
    \<Rightarrow> ('f, 'a, 'r) pool_run \<Rightarrow> ('f, 'a, 'r) pool_run \<Rightarrow> bool" for n call q where
  pool_refl: "pool_steps n call q s s"
| pool_trans: "pool_steps n call q s t \<Longrightarrow> pool_step n call q t u \<Longrightarrow> pool_steps n call q s u"

lemma pool_steps_induct:
  "pool_steps n call q s t \<Longrightarrow> P s \<Longrightarrow> (\<And>x y. P x \<Longrightarrow> pool_step n call q x y \<Longrightarrow> P y) \<Longrightarrow> P t"
  by (induction rule: pool_steps.induct) auto

interpretation ps: transitions "pool_step n call q" "pool_steps n call q" for n call q
  by unfold_locales (fact pool_refl, fact pool_trans, rule pool_steps_induct)

lemma run_job_exec:
  "run_job call w a js = ret (ev, js') \<Longrightarrow> \<exists>v. threadpool_job_exec call (Some a) js = ret (v, js')"
  by (auto simp: run_job_def bindX_ret_iff ret_def)

inductive_cases worker_stepE: "worker_step call q w s t"
inductive_cases client_stepE: "client_step n q c s t"
inductive_cases cancel_stepE: "cancel_step w s t"
inductive_cases begin_stepE: "begin_step c s t"
inductive_cases pool_stepE: "pool_step n call q s t"

subsection \<open>Mutual exclusion\<close>

fun worker_holds :: "worker_pc \<Rightarrow> bool" where
  "worker_holds WPop = True"
| "worker_holds WWait = True"
| "worker_holds WPopAgain = True"
| "worker_holds (WUnlock r) = True"
| "worker_holds WDead = True"
| "worker_holds _ = False"

fun client_holds :: "client_pc \<Rightarrow> bool" where
  "client_holds (CAdd a) = True"
| "client_holds CSignal = True"
| "client_holds CUnlock = True"
| "client_holds _ = False"

definition mutex_inv :: "('f, 'a, 'r) pool_run \<Rightarrow> bool" where
  "mutex_inv s \<longleftrightarrow> (\<forall>w. worker_holds (worker_at s w) \<longleftrightarrow> mutex_holder s = Some (PWorker w))
     \<and> (\<forall>c. client_holds (client_at s c) \<longleftrightarrow> mutex_holder s = Some (PClient c))"

lemma mutex_start: "mutex_inv (pool_start js)"
  by (simp add: mutex_inv_def pool_start_def)

lemma mutex_step:
  assumes inv: "mutex_inv s" and step: "pool_step n call q s t"
  shows "mutex_inv t"
  using step
proof cases
  case (worker w)
  have "worker_holds (worker_at s w) \<longleftrightarrow> mutex_holder s = Some (PWorker w)" using inv by (simp add: mutex_inv_def)
  with worker(2) inv show ?thesis by cases (auto simp: mutex_inv_def)
next
  case (client c)
  have "client_holds (client_at s c) \<longleftrightarrow> mutex_holder s = Some (PClient c)" using inv by (simp add: mutex_inv_def)
  with client inv show ?thesis by cases (auto simp: mutex_inv_def)
next
  case (starts c)
  have "client_holds (client_at s c) \<longleftrightarrow> mutex_holder s = Some (PClient c)" using inv by (simp add: mutex_inv_def)
  with starts inv show ?thesis by cases (auto simp: mutex_inv_def)
next
  case (cancels w)
  have "worker_holds (worker_at s w) \<longleftrightarrow> mutex_holder s = Some (PWorker w)" using inv by (simp add: mutex_inv_def)
  with cancels(2) inv show ?thesis by cases (auto simp: mutex_inv_def)
next
  case (spurious w)
  have "worker_holds (worker_at s w) \<longleftrightarrow> mutex_holder s = Some (PWorker w)" using inv by (simp add: mutex_inv_def)
  with spurious inv show ?thesis by (auto simp: mutex_inv_def)
qed

lemma mutex_steps: "pool_steps n call q s t \<Longrightarrow> mutex_inv s \<Longrightarrow> mutex_inv t"
  by (rule ps.steps_induct) (auto intro: mutex_step)

end
