(* ===== verification/PoolJobs.thy ===== *)
theory PoolJobs
  imports PoolSteps
begin

section \<open>What happens to a job in the pool\<close>

text \<open>
  The invariant of the jobs of a pool: the queue holds what was added and not yet taken, in
  order; every worker has at most one job in hand; a client that is about to add a job owns one
  that nobody else has.
\<close>

subsection \<open>Reading the history\<close>

definition added_in :: "pool_event list \<Rightarrow> nat list" where
  "added_in h = concat (map (\<lambda>e. case e of Added a \<Rightarrow> [a] | _ \<Rightarrow> []) h)"

definition taken_in :: "pool_event list \<Rightarrow> nat list" where
  "taken_in h = concat (map (\<lambda>e. case e of Taken w a \<Rightarrow> [a] | _ \<Rightarrow> []) h)"

text \<open>What one worker took and finished.\<close>

definition worker_taken :: "nat \<Rightarrow> pool_event list \<Rightarrow> nat list" where
  "worker_taken w h = concat (map (\<lambda>e. case e of Taken v a \<Rightarrow> if v = w then [a] else [] | _ \<Rightarrow> []) h)"

definition worker_finished :: "nat \<Rightarrow> pool_event list \<Rightarrow> nat list" where
  "worker_finished w h = concat (map (\<lambda>e. case e of Finished v a \<Rightarrow> if v = w then [a] else [] | _ \<Rightarrow> []) h)"

lemmas history_defs = added_in_def taken_in_def worker_taken_def worker_finished_def taken_by_def

lemma history_append [simp]:
  "added_in (h @ k) = added_in h @ added_in k" "taken_in (h @ k) = taken_in h @ taken_in k"
  "worker_taken w (h @ k) = worker_taken w h @ worker_taken w k"
  "worker_finished w (h @ k) = worker_finished w h @ worker_finished w k"
  by (simp_all add: history_defs)

lemma history_events [simp]:
  "added_in [] = []" "added_in [Added a] = [a]" "added_in [Taken w a] = []" "added_in [Finished w a] = []"
  "added_in (taken_by w r) = []"
  "taken_in [] = []" "taken_in [Added a] = []" "taken_in [Taken w a] = [a]" "taken_in [Finished w a] = []"
  "taken_in (taken_by w r) = (case r of None \<Rightarrow> [] | Some a \<Rightarrow> [a])"
  "worker_taken v [] = []" "worker_taken v [Added a] = []" "worker_taken v [Finished w a] = []"
  "worker_taken v [Taken w a] = (if w = v then [a] else [])"
  "worker_taken v (taken_by w r) = (if w = v then (case r of None \<Rightarrow> [] | Some a \<Rightarrow> [a]) else [])"
  "worker_finished v [] = []" "worker_finished v [Added a] = []" "worker_finished v [Taken w a] = []"
  "worker_finished v [Finished w a] = (if w = v then [a] else [])"
  "worker_finished v (taken_by w r) = []"
  by (cases r; simp add: history_defs)+

subsection \<open>Every worker finishes what it takes\<close>

fun in_hand :: "worker_pc \<Rightarrow> nat list" where
  "in_hand (WUnlock (Some a)) = [a]"
| "in_hand (WRun a) = [a]"
| "in_hand _ = []"

definition hands_inv :: "('f, 'a, 'r) pool_run \<Rightarrow> bool" where
  "hands_inv s \<longleftrightarrow> (\<forall>w. worker_taken w (history s) = worker_finished w (history s) @ in_hand (worker_at s w))"

lemma in_hand_unlock: "in_hand (WUnlock r) = (case r of None \<Rightarrow> [] | Some a \<Rightarrow> [a])"
  by (cases r) simp_all

lemma hands_step:
  assumes inv: "hands_inv s" and step: "pool_step n call q s t"
  shows "hands_inv t"
  using step
proof cases
  case (worker w)
  have "worker_taken w (history s) = worker_finished w (history s) @ in_hand (worker_at s w)"
    using inv by (simp add: hands_inv_def)
  with worker(2) inv show ?thesis by cases (auto simp: hands_inv_def in_hand_unlock)
next
  case (client c)
  then show ?thesis using inv by cases (auto simp: hands_inv_def dest: spec)
next
  case (starts c)
  then show ?thesis using inv by cases (auto simp: hands_inv_def)
next
  case (cancels w)
  have "worker_taken w (history s) = worker_finished w (history s) @ in_hand (worker_at s w)"
    using inv by (simp add: hands_inv_def)
  with cancels(2) inv show ?thesis by cases (auto simp: hands_inv_def)
next
  case (spurious w)
  have "worker_taken w (history s) = worker_finished w (history s) @ in_hand (worker_at s w)"
    using inv by (simp add: hands_inv_def)
  with spurious inv show ?thesis by (auto simp: hands_inv_def)
qed

subsection \<open>The queue between the clients and the workers\<close>

fun client_job :: "client_pc \<Rightarrow> nat option" where
  "client_job (CLock a) = Some a"
| "client_job (CAdd a) = Some a"
| "client_job _ = None"

text \<open>
  \<open>as\<close> is what is queued: what was added and not yet taken, in order. The jobs the
  clients are about to add are alive, outside the queue, and different.
\<close>

definition queue_inv :: "nat \<Rightarrow> ('f, 'a, 'r) job_state \<Rightarrow> pool_event list \<Rightarrow> nat list \<Rightarrow> bool" where
  "queue_inv q js h as \<longleftrightarrow> queue_at q js as \<and> jobs_ok js \<and> added_in h = taken_in h @ as
     \<and> distinct (added_in h) \<and> (\<forall>a \<in> set (added_in h). cells (jobs js) a \<noteq> None)"

definition clients_inv :: "('f, 'a, 'r) job_state \<Rightarrow> pool_event list \<Rightarrow> nat list \<Rightarrow> (nat \<Rightarrow> client_pc) \<Rightarrow> bool" where
  "clients_inv js h as cl \<longleftrightarrow> (\<forall>c a. client_job (cl c) = Some a \<longrightarrow>
     a \<in> addable_jobs js as \<and> a \<notin> set (added_in h) \<and> (\<forall>d. client_job (cl d) = Some a \<longrightarrow> d = c))"

definition jobs_inv :: "nat \<Rightarrow> ('f, 'a, 'r) pool_run \<Rightarrow> nat list \<Rightarrow> bool" where
  "jobs_inv q s as \<longleftrightarrow> queue_inv q (run_jobs s) (history s) as
     \<and> clients_inv (run_jobs s) (history s) as (client_at s)"

lemma queue_inv_live:
  assumes "queue_inv q js h as"
  shows "a \<in> set (added_in h) \<Longrightarrow> \<exists>j. cells (jobs js) a = Some j"
    and "a \<in> set (taken_in h) \<Longrightarrow> \<exists>j. cells (jobs js) a = Some j"
  using assms unfolding queue_inv_def by (elim conjE; fastforce)+

lemma jobs_start: "queue_at q js [] \<Longrightarrow> jobs_ok js \<Longrightarrow> jobs_inv q (pool_start js) []"
  by (simp add: jobs_inv_def queue_inv_def clients_inv_def pool_start_def)

lemma queue_inv_pop:
  assumes inv: "queue_inv q js h (a # as)"
    and pop: "queue_at q js' as" "same_jobs js js'"
  shows "queue_inv q js' (h @ [Taken w a]) as"
  using inv pop same_jobs_live [OF pop(2)] same_jobs_ok [OF pop(2)] unfolding queue_inv_def by (elim conjE) simp

lemma clients_inv_pop:
  assumes "clients_inv js h (a # as) cl" and "addable_jobs js' as = insert a (addable_jobs js (a # as))"
  shows "clients_inv js' (h @ [Taken w a]) as cl"
  using assms by (simp add: clients_inv_def)

lemma queue_inv_add:
  assumes inv: "queue_inv q js h as" and a: "a \<in> addable_jobs js as" "a \<notin> set (added_in h)"
    and add: "queue_at q js' (as @ [a])" "same_jobs js js'"
  shows "queue_inv q js' (h @ [Added a]) (as @ [a])"
proof -
  have "cells (jobs js') a \<noteq> None" using a(1) same_jobs_live [OF add(2)] by (auto simp: addable_jobs_def)
  with assms same_jobs_live [OF add(2)] same_jobs_ok [OF add(2)] show ?thesis by (auto simp: queue_inv_def)
qed

lemma clients_inv_add:
  assumes inv: "clients_inv js h as cl" and c: "client_job (cl c) = Some a" "client_job pc = None"
    and add: "addable_jobs js' (as @ [a]) = addable_jobs js as - {a}"
  shows "clients_inv js' (h @ [Added a]) (as @ [a]) (cl(c := pc))"
  using assms by (auto simp: clients_inv_def split: if_splits)

lemma clients_inv_move:
  "clients_inv js h as cl \<Longrightarrow> client_job pc = client_job (cl c) \<or> client_job pc = None
    \<Longrightarrow> clients_inv js h as (cl(c := pc))"
  unfolding clients_inv_def by (metis fun_upd_apply option.distinct(1))

lemma jobs_inv_other:
  assumes "queue_inv q js h as \<and> clients_inv js h as cl" and "jobs js' = jobs js" and "queues js' = queues js"
    and "jobs_ok js'" and "added_in k = []" and "taken_in k = []"
  shows "queue_inv q js' (h @ k) as \<and> clients_inv js' (h @ k) as cl"
proof -
  have "queue_at q js' as = queue_at q js as" "addable_jobs js' as = addable_jobs js as"
    using assms(2,3) by (simp_all add: queue_at_def addable_jobs_def)
  with assms show ?thesis unfolding queue_inv_def clients_inv_def by (elim conjE) simp
qed

subsection \<open>Every step keeps the queue\<close>

lemma jobs_client_step:
  assumes inv: "jobs_inv q s as" and step: "client_step n q c s t"
  shows "\<exists>as. jobs_inv q t as"
  using step
proof cases
  case (c_add a js)
  have c: "client_job (client_at s c) = Some a" using c_add by simp
  then have a: "a \<in> addable_jobs (run_jobs s) as" "a \<notin> set (added_in (history s))"
    using inv by (auto simp: jobs_inv_def clients_inv_def)
  have "queue_at q (run_jobs s) as" using inv by (simp add: jobs_inv_def queue_inv_def)
  from add_job_at [OF this a(1)] c_add(3) have "queue_at q js (as @ [a])"
      "addable_jobs js (as @ [a]) = addable_jobs (run_jobs s) as - {a}" "same_jobs (run_jobs s) js"
    by (auto simp: ret_def)
  then have "jobs_inv q t (as @ [a])"
    using inv c_add(1) queue_inv_add [OF _ a]
      clients_inv_add [of "run_jobs s" "history s" as "client_at s" c a CSignal js, OF _ c] by (simp add: jobs_inv_def)
  then show ?thesis by blast
qed (use inv in \<open>auto simp: jobs_inv_def intro!: exI [of _ as] clients_inv_move\<close>)

lemma jobs_pop:
  assumes inv: "jobs_inv q s as" and pop: "threadpool_job_queue_pop_job (Some q) (run_jobs s) = ret (r, js)"
  shows "case r of None \<Rightarrow> as = [] \<and> js = run_jobs s
    | Some a \<Rightarrow> \<exists>bs. as = a # bs \<and> queue_inv q js (history s @ [Taken w a]) bs
        \<and> clients_inv js (history s @ [Taken w a]) bs (client_at s)"
proof -
  have q: "queue_at q (run_jobs s) as" using inv by (simp add: jobs_inv_def queue_inv_def)
  show ?thesis
  proof (cases as)
    case Nil
    with pop_job_empty [of q "run_jobs s"] q pop show ?thesis by (simp add: ret_def)
  next
    case (Cons a bs)
    with pop_job_at [of q "run_jobs s" a bs] q pop have "r = Some a" "queue_at q js bs"
        "addable_jobs js bs = insert a (addable_jobs (run_jobs s) (a # bs))" "same_jobs (run_jobs s) js"
      by (auto simp: ret_def)
    with Cons inv queue_inv_pop clients_inv_pop show ?thesis by (fastforce simp: jobs_inv_def)
  qed
qed

lemma jobs_worker_step:
  assumes inv: "jobs_inv q s as" and hands: "hands_inv s" and step: "worker_step call q w s t"
  shows "\<exists>as. jobs_inv q t as"
  using step
proof cases
  case (w_pop a js)
  from jobs_pop [OF inv w_pop(3), of w] w_pop(1) show ?thesis by (auto simp: jobs_inv_def)
next
  case (w_pop_none js)
  from jobs_pop [OF inv w_pop_none(3)] w_pop_none(1) inv show ?thesis by (auto simp: jobs_inv_def)
next
  case (w_pop_again r js)
  from jobs_pop [OF inv w_pop_again(3), of w] w_pop_again(1) inv show ?thesis
    by (cases r) (auto simp: jobs_inv_def taken_by_def)
next
  case (w_run a ev js)
  obtain v where v: "threadpool_job_exec call (Some a) (run_jobs s) = ret (v, js)" using run_job_exec [OF w_run(3)] by blast
  have "a \<in> set (worker_taken w (history s))" using hands w_run(2) by (simp add: hands_inv_def)
  then have "a \<in> set (taken_in (history s))" by (auto simp: history_defs split: pool_event.splits if_splits)
  then obtain j where "cells (jobs (run_jobs s)) a = Some j"
    using inv queue_inv_live(2) unfolding jobs_inv_def by blast
  from exec_keeps [OF _ this v] inv have
    js: "jobs_ok js" "jobs js = jobs (run_jobs s)" "queues js = queues (run_jobs s)"
    by (auto simp: jobs_inv_def queue_inv_def)
  then have "jobs_inv q t as" using inv w_run(1) jobs_inv_other [OF _ js(2,3,1), of q "history s" as "client_at s" "[Finished w a]"]
    by (simp add: jobs_inv_def)
  then show ?thesis by blast
qed (use inv in \<open>auto simp: jobs_inv_def\<close>)

lemma jobs_begin_step:
  assumes inv: "jobs_inv q s as" and step: "begin_step c s t"
  shows "jobs_inv q t as"
  using step
proof cases
  case (c_new f x a ev js)
  have q: "queue_inv q (run_jobs s) (history s) as" and cl: "clients_inv (run_jobs s) (history s) as (client_at s)"
    using inv by (auto simp: jobs_inv_def)
  from job_new_outcome [OF _ c_new(3)] q obtain j where j: "jobs_ok js" "queues js = queues (run_jobs s)"
      "cells (jobs (run_jobs s)) a = None" "cells (jobs js) = (cells (jobs (run_jobs s)))(a \<mapsto> j)" "job_next j = None"
    by (auto simp: queue_inv_def)
  have new: "queue_at q js as" "a \<in> addable_jobs js as"
    using queue_at_new_job [OF _ j(3,2,4,5)] q by (auto simp: queue_inv_def)
  have "a \<notin> set (added_in (history s))" using q j(3) queue_inv_live(1) by fastforce
  moreover have "client_job (client_at s d) \<noteq> Some a" for d
    using cl j(3) unfolding clients_inv_def addable_jobs_def by fastforce
  moreover have "b \<in> addable_jobs js as" if "b \<in> addable_jobs (run_jobs s) as" for b
    using that j(3,4) by (auto simp: addable_jobs_def)
  ultimately have "clients_inv js (history s) as ((client_at s)(c := CLock a))"
    using cl new(2) by (auto simp: clients_inv_def split: if_splits)
  moreover have "queue_inv q js (history s) as" using q j(1,4) new(1) by (auto simp: queue_inv_def)
  ultimately show ?thesis using c_new(1) by (simp add: jobs_inv_def)
qed

end
