(* ===== verification/PoolWakeups.thy ===== *)
theory PoolWakeups
  imports PoolJobs
begin

section \<open>Wake-ups, and what holds when nothing moves\<close>

text \<open>
  All invariants of a pool in one predicate, and the invariant of its wake-ups: a worker sleeps
  only while the queued jobs are covered by workers on their way and signals about to be sent.
\<close>

subsection \<open>All invariants together\<close>

definition pool_inv :: "nat \<Rightarrow> ('f, 'a, 'r) pool_run \<Rightarrow> bool" where
  "pool_inv q s \<longleftrightarrow> mutex_inv s \<and> hands_inv s \<and> (\<exists>as. jobs_inv q s as)"

lemma jobs_step:
  assumes "jobs_inv q s as" and "hands_inv s" and "pool_step n call q s t"
  shows "\<exists>as. jobs_inv q t as"
  using assms(3)
proof cases
  case (worker w)
  then show ?thesis using assms(1,2) jobs_worker_step by blast
next
  case (client c)
  then show ?thesis using assms(1) jobs_client_step by blast
next
  case (starts c)
  then show ?thesis using assms(1) jobs_begin_step by blast
next
  case (cancels w)
  from cancels(2) show ?thesis using assms(1) by cases (auto simp: jobs_inv_def)
next
  case (spurious w)
  then show ?thesis using assms(1) by (auto simp: jobs_inv_def)
qed

lemma pool_inv_step: "pool_inv q s \<Longrightarrow> pool_step n call q s t \<Longrightarrow> pool_inv q t"
  unfolding pool_inv_def using mutex_step hands_step jobs_step by blast

lemma pool_inv_start:
  "queue_at q js [] \<Longrightarrow> jobs_ok js \<Longrightarrow> pool_inv q (pool_start js)"
  unfolding pool_inv_def using mutex_start jobs_start by (fastforce simp: hands_inv_def pool_start_def)

text \<open>A predicate that every step keeps, under the invariant.\<close>

lemma pool_steps_keep:
  assumes "pool_steps n call q s t" and "pool_inv q s" and "P s"
    and "\<And>x y. pool_inv q x \<Longrightarrow> P x \<Longrightarrow> pool_step n call q x y \<Longrightarrow> P y"
  shows "P t"
proof -
  have "P t \<and> pool_inv q t"
    by (rule ps.steps_keep [where I = "pool_inv q" and P = P, OF assms(1-3)]) (use assms(4) pool_inv_step in blast)+
  then show ?thesis ..
qed

subsection \<open>No wake-up is lost\<close>

definition backlog :: "('f, 'a, 'r) pool_run \<Rightarrow> nat" where
  "backlog s = length (added_in (history s)) - length (taken_in (history s))"

text \<open>The workers on their way from the condition variable to the queue.\<close>

fun wakes :: "worker_pc \<Rightarrow> nat" where
  "wakes WWoken = 1"
| "wakes WPopAgain = 1"
| "wakes _ = 0"

definition waking :: "nat \<Rightarrow> (nat \<Rightarrow> worker_pc) \<Rightarrow> nat" where
  "waking n at = (\<Sum>w<n. wakes (at w))"

definition signals :: "(nat \<Rightarrow> client_pc) \<Rightarrow> nat" where
  "signals at = (if \<exists>c. at c = CSignal then 1 else 0)"

definition wake_inv :: "nat \<Rightarrow> ('f, 'a, 'r) pool_run \<Rightarrow> bool" where
  "wake_inv n s \<longleftrightarrow> cancelled s = {} \<longrightarrow> (\<forall>w. worker_at s w = WWait \<longrightarrow> backlog s = 0)
     \<and> ((\<exists>w < n. worker_at s w = WAsleep) \<longrightarrow> backlog s \<le> waking n (worker_at s) + signals (client_at s))"

lemma backlog_jobs: "jobs_inv q s as \<Longrightarrow> backlog s = length as"
  by (simp add: jobs_inv_def queue_inv_def backlog_def)

lemma waking_move: "w < n \<Longrightarrow> waking n (at(w := pc)) + wakes (at w) = waking n at + wakes pc"
  by (simp add: waking_def sum.remove [of "{..<n}" w])

text \<open>What a step changes, and when that keeps the invariant.\<close>

lemma wake_invI:
  assumes "wake_inv n s" and "cancelled t = cancelled s"
    and "\<And>v. worker_at t v = WWait \<Longrightarrow> worker_at s v \<noteq> WWait \<Longrightarrow> backlog t = 0" and "backlog t \<le> backlog s"
    and "\<And>v. v < n \<Longrightarrow> worker_at t v = WAsleep \<Longrightarrow> worker_at s v \<noteq> WAsleep \<Longrightarrow> backlog t = 0"
    and "backlog s > 0 \<Longrightarrow> backlog t + waking n (worker_at s) + signals (client_at s)
      \<le> backlog s + waking n (worker_at t) + signals (client_at t)"
  shows "wake_inv n t"
  unfolding wake_inv_def
proof (intro impI conjI allI)
  fix v assume "cancelled t = {}" "worker_at t v = WWait"
  then show "backlog t = 0" using assms(1-4) unfolding wake_inv_def by (metis le_zero_eq)
next
  assume c: "cancelled t = {}" and "\<exists>v<n. worker_at t v = WAsleep"
  then obtain v where v: "v < n" "worker_at t v = WAsleep" by blast
  show "backlog t \<le> waking n (worker_at t) + signals (client_at t)"
  proof (cases "worker_at s v = WAsleep \<and> backlog s > 0")
    case True
    then have "backlog s \<le> waking n (worker_at s) + signals (client_at s)"
      using assms(1,2) c v(1) by (auto simp: wake_inv_def)
    then show ?thesis using assms(6) True by linarith
  next
    case False
    then have "backlog t = 0" using assms(4) assms(5) [OF v] by linarith
    then show ?thesis by simp
  qed
qed

lemma signals_same: "(\<And>c. (at' c = CSignal) = (at c = CSignal)) \<Longrightarrow> signals at' = signals at"
  by (simp add: signals_def)

lemma backlog_pop:
  assumes inv: "jobs_inv q s as" and pop: "threadpool_job_queue_pop_job (Some q) (run_jobs s) = ret (r, js)"
    and t: "history t = history s @ taken_by w r"
  shows "backlog t = backlog s - 1" and "r = None \<Longrightarrow> backlog s = 0"
proof -
  show "r = None \<Longrightarrow> backlog s = 0" using jobs_pop [OF inv pop] backlog_jobs [OF inv] by simp
  show "backlog t = backlog s - 1"
    using jobs_pop [OF inv pop] backlog_jobs [OF inv] t
    by (cases r) (auto simp: backlog_def)
qed

lemma wake_worker_step:
  assumes inv: "jobs_inv q s as" and wake: "wake_inv n s" and w: "w < n" and step: "worker_step call q w s t"
  shows "wake_inv n t"
  using step
proof cases
  case (w_pop a js)
  with backlog_pop [OF inv w_pop(3), of t w] waking_move [OF w, of "worker_at s" "WUnlock (Some a)"] show ?thesis
    by (intro wake_invI [OF wake]) (auto simp: taken_by_def split: if_splits)
next
  case (w_pop_none js)
  then have "backlog t = backlog s" "backlog s = 0"
    using backlog_pop(2) [OF inv w_pop_none(3), of s w] by (auto simp: backlog_def taken_by_def)
  then show ?thesis by (simp add: wake_inv_def)
next
  case w_sleep
  with wake have "cancelled t = {} \<Longrightarrow> backlog t = 0" by (auto simp: wake_inv_def backlog_def)
  then show ?thesis by (auto simp: wake_inv_def)
next
  case (w_pop_again r js)
  with backlog_pop [OF inv w_pop_again(3), of t w] waking_move [OF w, of "worker_at s" "WUnlock r"] show ?thesis
    by (intro wake_invI [OF wake]) (auto split: if_splits)
next
  case w_lock
  with waking_move [OF w, of "worker_at s" WPop] show ?thesis
    by (intro wake_invI [OF wake]) (auto simp: backlog_def split: if_splits)
next
  case w_relock
  with waking_move [OF w, of "worker_at s" WPopAgain] show ?thesis
    by (intro wake_invI [OF wake]) (auto simp: backlog_def split: if_splits)
next
  case (w_unlock a)
  with waking_move [OF w, of "worker_at s" "WRun a"] show ?thesis
    by (intro wake_invI [OF wake]) (auto simp: backlog_def split: if_splits)
next
  case w_unlock_none
  with waking_move [OF w, of "worker_at s" WLock] show ?thesis
    by (intro wake_invI [OF wake]) (auto simp: backlog_def split: if_splits)
next
  case (w_run a v js)
  with waking_move [OF w, of "worker_at s" WLock] show ?thesis
    by (intro wake_invI [OF wake]) (auto simp: backlog_def split: if_splits)
qed

lemma signals_move:
  assumes "\<And>d. d \<noteq> c \<Longrightarrow> at d \<noteq> CSignal"
  shows "signals (at(c := pc)) = (if pc = CSignal then 1 else 0)" and "signals at = (if at c = CSignal then 1 else 0)"
  using assms by (simp_all add: signals_def) metis

lemma wake_client_step:
  assumes mutex: "mutex_inv s" and inv: "jobs_inv q s as" and wake: "wake_inv n s"
    and step: "client_step n q c s t"
  shows "wake_inv n t"
proof -
  have only: "at d \<noteq> CSignal" if "client_holds (client_at s c)" "d \<noteq> c" "at = client_at s" for at d
    using mutex that unfolding mutex_inv_def by (metis client_holds.simps(2) option.inject pool_agent.inject(2))
  have nowait: "worker_at s w \<noteq> WWait" if "client_holds (client_at s c)" for w
    using mutex that unfolding mutex_inv_def
    by (metis option.inject pool_agent.distinct(1) worker_holds.simps(2))
  from step show ?thesis
  proof cases
    case (c_add a js)
    have "signals (client_at s) = 0" "signals (client_at t) = 1"
      using c_add signals_move [of c "client_at s"] only by auto
    moreover have "backlog t \<le> Suc (backlog s)" using c_add(1) by (simp add: backlog_def)
    ultimately show ?thesis using wake nowait c_add(1,2) by (auto simp: wake_inv_def)
  next
    case (c_signal w)
    have "signals (client_at s) = 1" "signals (client_at t) = 0"
      using c_signal signals_move [of c "client_at s"] only by auto
    with c_signal waking_move [OF c_signal(3), of "worker_at s" WWoken] show ?thesis
      by (intro wake_invI [OF wake]) (auto simp: backlog_def split: if_splits)
  next
    case c_signal_nobody
    with wake show ?thesis by (auto simp: wake_inv_def backlog_def)
  next
    case (c_lock a)
    then have "signals (client_at t) = signals (client_at s)" by (intro signals_same) auto
    with c_lock show ?thesis by (intro wake_invI [OF wake]) (auto simp: backlog_def)
  next
    case c_unlock
    then have "signals (client_at t) = signals (client_at s)" by (intro signals_same) auto
    with c_unlock show ?thesis by (intro wake_invI [OF wake]) (auto simp: backlog_def)
  qed
qed

lemma wake_step:
  assumes "pool_inv q s" and wake: "wake_inv n s" and "pool_step n call q s t"
  shows "wake_inv n t"
  using assms(3)
proof cases
  case (worker w)
  then show ?thesis using assms wake_worker_step by (auto simp: pool_inv_def)
next
  case (client c)
  then show ?thesis using assms wake_client_step by (auto simp: pool_inv_def)
next
  case (starts c)
  then show ?thesis
  proof cases
    case (c_new f x a ev js)
    then have "signals (client_at t) = signals (client_at s)" by (intro signals_same) auto
    with c_new show ?thesis by (intro wake_invI [OF wake]) (auto simp: backlog_def)
  qed
next
  case (cancels w)
  from cancels(2) show ?thesis
  proof cases
    case x_ask
    then show ?thesis by (simp add: wake_inv_def)
  qed (auto simp: wake_inv_def)
next
  case (spurious w)
  with waking_move [OF spurious(2), of "worker_at s" WWoken] show ?thesis
    by (intro wake_invI [OF wake]) (auto simp: backlog_def split: if_splits)
qed

end
