(* ===== verification/PoolRest.thy ===== *)
theory PoolRest
  imports PoolWakeups
begin

section \<open>The pool at rest\<close>

text \<open>
  Results of finished jobs, and what follows from all invariants in a state in which no worker
  and no client can move.
\<close>

subsection \<open>A finished job has the result of its work\<close>

text \<open>The value of a job: that of its function on its argument, and \<open>NULL\<close> without a function.\<close>

definition work_value :: "('f \<Rightarrow> 'a \<Rightarrow> 'r option run) \<Rightarrow> ('f, 'a) threadpool_job_t \<Rightarrow> 'r option \<Rightarrow> bool" where
  "work_value call j v \<longleftrightarrow> (case job_function j of None \<Rightarrow> v = None | Some f \<Rightarrow> call f (job_arg j) = ret v)"

lemma work_value_payload: "payload k = payload j \<Longrightarrow> work_value call k v = work_value call j v"
  by (auto simp: payload_def work_value_def split: option.split)

definition answered :: "('f \<Rightarrow> 'a \<Rightarrow> 'r option run) \<Rightarrow> ('f, 'a, 'r) job_state \<Rightarrow> nat \<Rightarrow> bool" where
  "answered call js a \<longleftrightarrow> (\<exists>j r x. cells (jobs js) a = Some j \<and> job_jres j = Some r
     \<and> cells (results js) r = Some x \<and> jr_done x \<le> 0 \<and> work_value call j (jr_res x))"

definition answers_inv :: "('f \<Rightarrow> 'a \<Rightarrow> 'r option run) \<Rightarrow> ('f, 'a, 'r) pool_run \<Rightarrow> bool" where
  "answers_inv call s \<longleftrightarrow> (\<forall>w a. Finished w a \<in> set (history s) \<longrightarrow> answered call (run_jobs s) a)"

lemma answered_same:
  assumes "same_jobs js js'" and "answered call js a"
  shows "answered call js' a"
proof -
  obtain j r x where j: "cells (jobs js) a = Some j" "job_jres j = Some r" "cells (results js) r = Some x" "jr_done x \<le> 0"
    "work_value call j (jr_res x)" using assms(2) by (auto simp: answered_def)
  have same: "map_option payload (cells (jobs js') a) = map_option payload (cells (jobs js) a)"
    and res: "results js' = results js" using assms(1) by (simp_all add: same_jobs_def)
  obtain k where k: "cells (jobs js') a = Some k" "payload k = payload j" using same j(1) by auto
  with j(2) have "job_jres k = Some r" by (simp add: payload_def)
  with j k res work_value_payload [OF k(2)] show ?thesis unfolding answered_def by metis
qed

lemma exec_writes:
  assumes ok: "jobs_ok js" and j: "cells (jobs js) a = Some j"
    and run: "threadpool_job_exec call (Some a) js = ret (v, js')"
  shows "\<exists>r y. job_jres j = Some r \<and> js' = js\<lparr>results := (results js)\<lparr>cells := (cells (results js))(r \<mapsto> y)\<rparr>\<rparr>
    \<and> jr_done y \<le> 0 \<and> work_value call j (jr_res y)"
proof -
  obtain r x where rx: "job_jres j = Some r" "cells (results js) r = Some x" "\<not> jr_mutex x"
    and null: "job_function j = None \<longrightarrow> jr_res x = None" using ok j unfolding jobs_ok_def by blast
  show ?thesis
  proof (cases "job_function j")
    case None
    with run null rx(1) show ?thesis unfolding exec_outcome [OF j rx]
      by (intro exI [of _ r] exI [of _ "x\<lparr>jr_done := -1, jr_mutex := False\<rparr>"]) (auto simp: work_value_def ret_def)
  next
    case (Some f)
    with run rx(1) show ?thesis unfolding exec_outcome [OF j rx]
      by (intro exI [of _ r] exI [of _ "x\<lparr>jr_res := v, jr_done := 0, jr_mutex := False\<rparr>"])
        (auto simp: work_value_def bindX_ret_iff ret_def)
  qed
qed

lemma answered_exec:
  assumes ok: "jobs_ok js" and j: "cells (jobs js) a = Some j"
    and run: "threadpool_job_exec call (Some a) js = ret (v, js')"
  shows "answered call js' a \<and> (\<forall>b. answered call js b \<longrightarrow> answered call js' b)"
proof -
  from exec_writes [OF assms] obtain r y where r: "job_jres j = Some r"
    and js': "js' = js\<lparr>results := (results js)\<lparr>cells := (cells (results js))(r \<mapsto> y)\<rparr>\<rparr>"
    and y: "jr_done y \<le> 0" "work_value call j (jr_res y)" by blast
  with j have a: "answered call js' a" by (auto simp: answered_def)
  have "answered call js' b" if b: "answered call js b" "b \<noteq> a" for b
  proof -
    obtain k z u where k: "cells (jobs js) b = Some k" "job_jres k = Some z" "cells (results js) z = Some u" "jr_done u \<le> 0"
      "work_value call k (jr_res u)" using b(1) by (auto simp: answered_def)
    have "z \<noteq> r" using ok j k(1,2) r b(2) by (auto simp: jobs_ok_def own_results_def)
    with k js' show ?thesis by (auto simp: answered_def)
  qed
  with a show ?thesis by blast
qed

lemma answered_new:
  assumes "jobs_ok js" and "threadpool_job_new True True f x js = (r, ev, js')" and "answered call js b"
  shows "answered call js' b"
proof -
  from job_new_outcome [OF assms(1,2)] obtain a j y n where
    "cells (jobs js) a = None" "cells (jobs js') = (cells (jobs js))(a \<mapsto> j)"
    "cells (results js) y = None" "cells (results js') = (cells (results js))(y \<mapsto> n)" by blast
  with assms(3) show ?thesis unfolding answered_def by (metis fun_upd_other option.distinct(1))
qed

lemma pop_same_jobs:
  assumes "queue_at q js as" and "threadpool_job_queue_pop_job (Some q) js = ret (r, js')"
  shows "same_jobs js js'"
  using assms pop_job_empty [of q js] pop_job_at [of q js] by (cases as) (fastforce simp: ret_def)+

lemma taken_live:
  assumes "pool_inv q s" and "a \<in> set (in_hand (worker_at s w))"
  shows "\<exists>j. cells (jobs (run_jobs s)) a = Some j"
proof -
  have "a \<in> set (worker_taken w (history s))" using assms by (simp add: pool_inv_def hands_inv_def)
  then have "a \<in> set (taken_in (history s))" by (auto simp: history_defs split: pool_event.splits if_splits)
  with assms(1) show ?thesis unfolding pool_inv_def jobs_inv_def using queue_inv_live(2) by blast
qed

lemma client_addable: "clients_inv js h as cl \<Longrightarrow> client_job (cl c) = Some a \<Longrightarrow> a \<in> addable_jobs js as"
  by (simp add: clients_inv_def)

lemma answers_step:
  assumes inv: "pool_inv q s" and ans: "answers_inv call s" and step: "pool_step n call q s t"
  shows "answers_inv call t"
proof -
  obtain as where as: "queue_at q (run_jobs s) as" "jobs_ok (run_jobs s)"
    and cl: "clients_inv (run_jobs s) (history s) as (client_at s)"
    using inv by (auto simp: pool_inv_def jobs_inv_def queue_inv_def)
  from step show ?thesis
  proof cases
    case (worker w)
    from worker(2) show ?thesis
    proof cases
      case (w_pop a js)
      then show ?thesis using ans answered_same [OF pop_same_jobs [OF as(1) w_pop(3)]]
        by (auto simp: answers_inv_def)
    next
      case (w_pop_none js)
      then show ?thesis using ans answered_same [OF pop_same_jobs [OF as(1) w_pop_none(3)]]
        by (auto simp: answers_inv_def)
    next
      case (w_pop_again r js)
      then show ?thesis using ans answered_same [OF pop_same_jobs [OF as(1) w_pop_again(3)]]
        by (auto simp: answers_inv_def taken_by_def split: option.splits)
    next
      case (w_run a ev js)
      obtain v where v: "threadpool_job_exec call (Some a) (run_jobs s) = ret (v, js)" using run_job_exec [OF w_run(3)] by blast
      obtain j where "cells (jobs (run_jobs s)) a = Some j" using taken_live [OF inv, of a w] w_run(2) by auto
      from answered_exec [OF as(2) this v] w_run(1) ans show ?thesis by (auto simp: answers_inv_def)
    qed (use ans in \<open>auto simp: answers_inv_def\<close>)
  next
    case (client c)
    then show ?thesis
    proof cases
      case (c_add a js)
      then have "a \<in> addable_jobs (run_jobs s) as" by (intro client_addable [OF cl, of c]) simp
      from add_job_at [OF as(1) this] c_add(3) have "same_jobs (run_jobs s) js" by (auto simp: ret_def)
      from answered_same [OF this] c_add(1) ans show ?thesis by (auto simp: answers_inv_def)
    qed (use ans in \<open>auto simp: answers_inv_def\<close>)
  next
    case (starts c)
    then show ?thesis using answered_new [OF as(2)] ans by cases (auto simp: answers_inv_def)
  next
    case (cancels w)
    from cancels(2) ans show ?thesis by cases (auto simp: answers_inv_def)
  next
    case (spurious w)
    with ans show ?thesis by (simp add: answers_inv_def)
  qed
qed

subsection \<open>No result before its time, and none but the value\<close>

definition values_ok :: "('f \<Rightarrow> 'a \<Rightarrow> 'r option run) \<Rightarrow> ('f, 'a, 'r) job_state \<Rightarrow> bool" where
  "values_ok call js \<longleftrightarrow> (\<forall>a j r x. cells (jobs js) a = Some j \<longrightarrow> job_jres j = Some r
     \<longrightarrow> cells (results js) r = Some x \<longrightarrow> jr_done x \<le> 0 \<longrightarrow> work_value call j (jr_res x))"

lemma values_same:
  assumes "same_jobs js js'" and "values_ok call js"
  shows "values_ok call js'"
  unfolding values_ok_def
proof (intro allI impI)
  fix a j r x
  assume j: "cells (jobs js') a = Some j" "job_jres j = Some r" "cells (results js') r = Some x" "jr_done x \<le> 0"
  have same: "map_option payload (cells (jobs js') a) = map_option payload (cells (jobs js) a)"
    and res: "results js' = results js" using assms(1) by (simp_all add: same_jobs_def)
  obtain k where k: "cells (jobs js) a = Some k" "payload k = payload j" using same j(1) by (cases "cells (jobs js) a") auto
  with j(2) have "job_jres k = Some r" by (simp add: payload_def)
  with k j(3,4) res assms(2) have "work_value call k (jr_res x)" unfolding values_ok_def by metis
  then show "work_value call j (jr_res x)" unfolding work_value_payload [OF k(2)] .
qed

lemma values_exec:
  assumes ok: "jobs_ok js" and j: "cells (jobs js) a = Some j"
    and run: "threadpool_job_exec call (Some a) js = ret (v, js')" and vals: "values_ok call js"
  shows "values_ok call js'"
  unfolding values_ok_def
proof (intro allI impI)
  fix b k z u
  assume k: "cells (jobs js') b = Some k" "job_jres k = Some z" "cells (results js') z = Some u" "jr_done u \<le> 0"
  from exec_writes [OF ok j run] obtain r y where js': "job_jres j = Some r"
    "js' = js\<lparr>results := (results js)\<lparr>cells := (cells (results js))(r \<mapsto> y)\<rparr>\<rparr>" "work_value call j (jr_res y)" by blast
  show "work_value call k (jr_res u)"
  proof (cases "z = r")
    case True
    with ok j js' k have "b = a" by (auto simp: jobs_ok_def own_results_def)
    with True j js' k show ?thesis by auto
  next
    case False
    with js' k have "cells (jobs js) b = Some k" "cells (results js) z = Some u" by simp_all
    with vals k(2,4) show ?thesis unfolding values_ok_def by blast
  qed
qed

lemma values_new:
  assumes ok: "jobs_ok js" and new: "threadpool_job_new True True f x js = (r, ev, js')" and vals: "values_ok call js"
  shows "values_ok call js'"
proof -
  from job_new_outcome [OF ok new] obtain a j y n where n:
    "cells (jobs js) a = None" "cells (jobs js') = (cells (jobs js))(a \<mapsto> j)" "job_jres j = Some y"
    "cells (results js) y = None" "cells (results js') = (cells (results js))(y \<mapsto> n)" "jr_done n = 1" by fastforce
  have "job_jres k \<noteq> Some y" if k: "cells (jobs js) b = Some k" for b k
  proof -
    obtain z u where "job_jres k = Some z" "cells (results js) z = Some u" using ok k unfolding jobs_ok_def by blast
    with n(4) show ?thesis by auto
  qed
  with n vals show ?thesis unfolding values_ok_def by (auto split: if_splits)
qed

lemma values_step:
  assumes inv: "pool_inv q s" and vals: "values_ok call (run_jobs s)" and step: "pool_step n call q s t"
  shows "values_ok call (run_jobs t)"
proof -
  obtain as where as: "queue_at q (run_jobs s) as" "jobs_ok (run_jobs s)"
    and cl: "clients_inv (run_jobs s) (history s) as (client_at s)"
    using inv by (auto simp: pool_inv_def jobs_inv_def queue_inv_def)
  have pop: "values_ok call js" if "threadpool_job_queue_pop_job (Some q) (run_jobs s) = ret (r, js)" for r js
    using values_same [OF pop_same_jobs [OF as(1) that] vals] .
  from step show ?thesis
  proof cases
    case (worker w)
    from worker(2) show ?thesis
    proof cases
      case (w_run a ev js)
      obtain v where v: "threadpool_job_exec call (Some a) (run_jobs s) = ret (v, js)" using run_job_exec [OF w_run(3)] by blast
      obtain j where "cells (jobs (run_jobs s)) a = Some j" using taken_live [OF inv, of a w] w_run(2) by auto
      from values_exec [OF as(2) this v vals] w_run(1) show ?thesis by simp
    qed (use vals pop in simp_all)
  next
    case (client c)
    then show ?thesis
    proof cases
      case (c_add a js)
      then have "a \<in> addable_jobs (run_jobs s) as" by (intro client_addable [OF cl, of c]) simp
      from add_job_at [OF as(1) this] c_add(3) have "same_jobs (run_jobs s) js" by (auto simp: ret_def)
      from values_same [OF this vals] c_add(1) show ?thesis by simp
    qed (use vals in simp_all)
  next
    case (starts c)
    then show ?thesis using values_new [OF as(2) _ vals] by cases simp
  next
    case (cancels w)
    from cancels(2) vals show ?thesis by cases simp_all
  next
    case (spurious w)
    with vals show ?thesis by simp
  qed
qed

subsection \<open>A job keeps its work\<close>

definition payload_at :: "('f, 'a, 'r) job_state \<Rightarrow> nat \<Rightarrow> ('f option \<times> 'a \<times> ref) option" where
  "payload_at js a = map_option payload (cells (jobs js) a)"

lemma same_jobs_payload: "same_jobs js js' \<Longrightarrow> payload_at js' a = payload_at js a"
  by (simp add: same_jobs_def payload_at_def)

text \<open>Steps of workers and clients under way change no job and make none; a new call makes one.\<close>

lemma worker_payload:
  assumes inv: "pool_inv q s" and step: "worker_step call q w s t"
  shows "payload_at (run_jobs t) a = payload_at (run_jobs s) a"
proof -
  obtain as where as: "queue_at q (run_jobs s) as" "jobs_ok (run_jobs s)"
    using inv by (auto simp: pool_inv_def jobs_inv_def queue_inv_def)
  note pop = same_jobs_payload [OF pop_same_jobs [OF as(1)]]
  from step show ?thesis
  proof cases
    case (w_pop b js)
    then show ?thesis using pop by simp
  next
    case (w_pop_none js)
    then show ?thesis using pop by simp
  next
    case (w_pop_again r js)
    then show ?thesis using pop by simp
  next
    case (w_run b ev js)
    obtain v where v: "threadpool_job_exec call (Some b) (run_jobs s) = ret (v, js)" using run_job_exec [OF w_run(3)] by blast
    obtain j where "cells (jobs (run_jobs s)) b = Some j" using taken_live [OF inv, of b w] w_run(2) by auto
    from exec_keeps [OF as(2) this v] w_run(1) show ?thesis by (simp add: payload_at_def)
  qed simp_all
qed

lemma client_payload:
  assumes inv: "pool_inv q s" and step: "client_step n q c s t"
  shows "payload_at (run_jobs t) a = payload_at (run_jobs s) a"
proof -
  obtain as where as: "queue_at q (run_jobs s) as" and cl: "clients_inv (run_jobs s) (history s) as (client_at s)"
    using inv by (auto simp: pool_inv_def jobs_inv_def queue_inv_def)
  from step show ?thesis
  proof cases
    case (c_add b js)
    then have "b \<in> addable_jobs (run_jobs s) as" by (intro client_addable [OF cl, of c]) simp
    from add_job_at [OF as this] c_add(3) have "same_jobs (run_jobs s) js" by (auto simp: ret_def)
    from same_jobs_payload [OF this] c_add(1) show ?thesis by simp
  qed simp_all
qed

lemma pool_payload:
  assumes inv: "pool_inv q s" and step: "pool_step n call q s t" and live: "payload_at (run_jobs s) a \<noteq> None"
  shows "payload_at (run_jobs t) a = payload_at (run_jobs s) a"
  using step
proof cases
  case (worker w)
  then show ?thesis using worker_payload [OF inv] by blast
next
  case (client c)
  then show ?thesis using client_payload [OF inv] by blast
next
  case (starts c)
  then show ?thesis
  proof cases
    case (c_new f x b ev js)
    have "jobs_ok (run_jobs s)" using inv by (auto simp: pool_inv_def jobs_inv_def queue_inv_def)
    from job_new_outcome [OF this c_new(3)] live c_new(1) show ?thesis by (auto simp: payload_at_def)
  qed
next
  case (cancels w)
  from cancels(2) show ?thesis by cases simp_all
next
  case (spurious w)
  then show ?thesis by simp
qed

text \<open>A job is stuck when its work does not return.\<close>

definition stuck :: "('f \<Rightarrow> 'a \<Rightarrow> 'r option run) \<Rightarrow> ('f, 'a, 'r) job_state \<Rightarrow> nat \<Rightarrow> bool" where
  "stuck call js a \<longleftrightarrow> (\<exists>f x r. payload_at js a = Some (Some f, x, r) \<and> \<not> (\<exists>v. call f x = ret v))"

definition jobs_return :: "('f \<Rightarrow> 'a \<Rightarrow> 'r option run) \<Rightarrow> ('f, 'a, 'r) job_state \<Rightarrow> bool" where
  "jobs_return call js \<longleftrightarrow> (\<forall>a f x r. payload_at js a = Some (Some f, x, r) \<longrightarrow> (\<exists>v. call f x = ret v))"

lemma returning_not_stuck: "jobs_return call js \<Longrightarrow> \<not> stuck call js a"
  unfolding jobs_return_def stuck_def by blast

subsection \<open>When nothing moves\<close>

definition at_rest :: "nat \<Rightarrow> ('f \<Rightarrow> 'a \<Rightarrow> 'r option run) \<Rightarrow> nat \<Rightarrow> ('f, 'a, 'r) pool_run \<Rightarrow> bool" where
  "at_rest n call q s \<longleftrightarrow> (\<forall>w < n. \<forall>t. \<not> worker_step call q w s t) \<and> (\<forall>c t. \<not> client_step n q c s t)"

lemma pop_returns:
  assumes "queue_at q js as"
  shows "\<exists>r js'. threadpool_job_queue_pop_job (Some q) js = ret (r, js')"
  using assms pop_job_empty [of q js] pop_job_at [of q js] by (cases as) blast+

lemma exec_returns:
  assumes "jobs_ok js" and "cells (jobs js) a = Some j" and "\<not> stuck call js a"
  shows "\<exists>v js'. threadpool_job_exec call (Some a) js = ret (v, js')"
proof -
  obtain r x where rx: "job_jres j = Some r" "cells (results js) r = Some x" "\<not> jr_mutex x"
    using assms(1,2) unfolding jobs_ok_def by blast
  show ?thesis
  proof (cases "job_function j")
    case None
    then show ?thesis using exec_outcome [OF assms(2) rx, of call] by auto
  next
    case (Some f)
    then have "payload_at js a = Some (Some f, job_arg j, job_jres j)" using assms(2) by (simp add: payload_at_def payload_def)
    with assms(3) obtain v where "call f (job_arg j) = ret v" unfolding stuck_def by blast
    then show ?thesis using exec_outcome [OF assms(2) rx, of call] Some by (auto simp: ret_def)
  qed
qed

lemma run_job_returns:
  assumes "jobs_ok js" and "cells (jobs js) a = Some j" and "\<not> stuck call js a"
  shows "\<exists>ev js'. run_job call w a js = ret (ev, js')"
proof -
  from exec_returns [OF assms] obtain v js1 where
    run: "threadpool_job_exec call (Some a) js = ret (v, js1)" by blast
  from exec_keeps [OF assms(1,2) run] assms(2) have "jobs_ok js1" "cells (jobs js1) a = Some j" by auto
  moreover from this obtain r x where "job_jres j = Some r" "cells (results js1) r = Some x"
    unfolding jobs_ok_def by blast
  ultimately show ?thesis using run by (simp add: run_job_def heap_simps ret_def)
qed

lemma rest_workers:
  assumes inv: "pool_inv q s" and rest: "at_rest n call q s" and cancel: "cancelled s = {}"
    and w: "w < n" and alive: "worker_at s w \<noteq> WDead"
  shows "\<not> worker_holds (worker_at s w)
    \<and> (mutex_holder s = None \<longrightarrow> worker_at s w = WAsleep \<or> (\<exists>a. worker_at s w = WRun a \<and> stuck call (run_jobs s) a))"
proof -
  have no: "\<not> worker_step call q w s t" for t using rest w by (auto simp: at_rest_def)
  obtain as where as: "queue_at q (run_jobs s) as" "jobs_ok (run_jobs s)"
    using inv by (auto simp: pool_inv_def jobs_inv_def queue_inv_def)
  obtain r js where pop: "threadpool_job_queue_pop_job (Some q) (run_jobs s) = ret (r, js)"
    using pop_returns [OF as(1)] by blast
  have 1: "worker_at s w \<noteq> WPop" using no w_pop w_pop_none pop by (cases r) blast+
  have 2: "worker_at s w \<noteq> WPopAgain" using no w_pop_again pop by blast
  have 3: "worker_at s w \<noteq> WWait" using no w_sleep cancel by (metis empty_iff)
  have 4: "worker_at s w \<noteq> WUnlock x" for x using no w_unlock w_unlock_none by (cases x) blast+
  have 5: "stuck call (run_jobs s) a" if a: "worker_at s w = WRun a" for a
  proof (rule ccontr)
    assume "\<not> stuck call (run_jobs s) a"
    moreover from a obtain j where "cells (jobs (run_jobs s)) a = Some j" using taken_live [OF inv, of a w] by auto
    ultimately obtain ev js' where "run_job call w a (run_jobs s) = ret (ev, js')" using run_job_returns [OF as(2)] by blast
    from w_run [OF a this] no show False by blast
  qed
  have "worker_at s w \<noteq> WLock" "worker_at s w \<noteq> WWoken" if "mutex_holder s = None"
    using no w_lock [OF _ that] w_relock [OF _ that] by blast+
  with 1 2 3 4 5 alive show ?thesis by (cases "worker_at s w") auto
qed

lemma rest_clients:
  assumes inv: "pool_inv q s" and rest: "at_rest n call q s"
  shows "\<not> client_holds (client_at s c) \<and> (mutex_holder s = None \<longrightarrow> client_at s c = CIdle)"
proof -
  have no: "\<not> client_step n q c s t" for t using rest by (auto simp: at_rest_def)
  obtain as where as: "queue_at q (run_jobs s) as" and cl: "clients_inv (run_jobs s) (history s) as (client_at s)"
    using inv by (auto simp: pool_inv_def jobs_inv_def queue_inv_def)
  have 1: "client_at s c \<noteq> CAdd a" for a
  proof
    assume a: "client_at s c = CAdd a"
    then have "a \<in> addable_jobs (run_jobs s) as" by (intro client_addable [OF cl, of c]) simp
    from add_job_at [OF as this] obtain js where
      "threadpool_job_queue_add_job (Some q) (Some a) (run_jobs s) = ret js" by blast
    from c_add [OF a this] no show False by blast
  qed
  have 2: "client_at s c \<noteq> CSignal"
    using no c_signal [of s c _ n q] c_signal_nobody [of s c n q] by blast
  have 3: "client_at s c \<noteq> CUnlock" using no c_unlock by blast
  have "client_at s c = CIdle" if "mutex_holder s = None"
  proof -
    have "client_at s c \<noteq> CLock a" for a using no c_lock [OF _ that] by blast
    with 1 2 3 show ?thesis by (cases "client_at s c") auto
  qed
  with 1 2 3 show ?thesis by (cases "client_at s c") auto
qed

text \<open>A worker dies only after it was cancelled.\<close>

definition deaths_inv :: "nat \<Rightarrow> ('f, 'a, 'r) pool_run \<Rightarrow> bool" where
  "deaths_inv n s \<longleftrightarrow> (\<forall>w. (worker_at s w = WDead \<longrightarrow> w \<in> cancelled s) \<and> (worker_holds (worker_at s w) \<longrightarrow> w < n))"

lemma deaths_step: "deaths_inv n s \<Longrightarrow> pool_step n call q s t \<Longrightarrow> deaths_inv n t"
  by (erule pool_stepE; (elim worker_stepE client_stepE begin_stepE cancel_stepE)?)
    (auto simp: deaths_inv_def)

lemma deaths_start: "deaths_inv n (pool_start js)"
  by (simp add: deaths_inv_def pool_start_def)

lemma rest_free:
  assumes inv: "pool_inv q s" and rest: "at_rest n call q s" and cancel: "cancelled s = {}" and deaths: "deaths_inv n s"
  shows "mutex_holder s = None"
proof (rule ccontr)
  assume "mutex_holder s \<noteq> None"
  then obtain a where a: "mutex_holder s = Some a" by blast
  have mutex: "mutex_inv s" using inv by (simp add: pool_inv_def)
  show False
  proof (cases a)
    case (PWorker w)
    with a mutex have holds: "worker_holds (worker_at s w)" by (simp add: mutex_inv_def)
    with deaths have "w < n" "worker_at s w \<noteq> WDead" using cancel by (auto simp: deaths_inv_def)
    with rest_workers [OF inv rest cancel] holds show False by blast
  next
    case (PClient c)
    with a mutex have "client_holds (client_at s c)" by (simp add: mutex_inv_def)
    with rest_clients [OF inv rest] show False by blast
  qed
qed

lemma taken_by_workers: "set (taken_in h) = (\<Union>w. set (worker_taken w h))"
  by (auto simp: history_defs split: pool_event.splits if_splits)

text \<open>Where nothing moves, every worker sleeps or has a stuck job; if one sleeps, all other jobs are done.\<close>

lemma rest_held:
  assumes inv: "pool_inv q s" and wake: "wake_inv n s" and ans: "answers_inv call s" and deaths: "deaths_inv n s"
    and rest: "at_rest n call q s" and cancel: "cancelled s = {}" and outside: "\<forall>w \<ge> n. in_hand (worker_at s w) = []"
  shows "(\<forall>c. client_at s c = CIdle)
    \<and> (\<forall>w < n. worker_at s w = WAsleep \<or> (\<exists>a. worker_at s w = WRun a \<and> stuck call (run_jobs s) a))
    \<and> ((\<exists>w < n. worker_at s w = WAsleep) \<longrightarrow> queue_at q (run_jobs s) [] \<and> (\<forall>a \<in> set (added_in (history s)).
        (\<exists>w. Finished w a \<in> set (history s)) \<and> answered call (run_jobs s) a \<or> (\<exists>w < n. worker_at s w = WRun a)))"
proof (intro conjI allI impI)
  note free = rest_free [OF inv rest cancel deaths]
  have dead: "worker_at s w \<noteq> WDead" for w using deaths cancel by (auto simp: deaths_inv_def)
  show idle: "client_at s c = CIdle" for c using rest_clients [OF inv rest] free by blast
  show still: "worker_at s w = WAsleep \<or> (\<exists>a. worker_at s w = WRun a \<and> stuck call (run_jobs s) a)" if "w < n" for w
    using rest_workers [OF inv rest cancel that dead] free by blast
  obtain as where as: "jobs_inv q s as" using inv by (auto simp: pool_inv_def)
  assume asleep: "\<exists>w < n. worker_at s w = WAsleep"
  have "wakes (worker_at s w) = 0" if "w < n" for w using still [OF that] by auto
  then have "waking n (worker_at s) = 0" "signals (client_at s) = 0"
    using idle by (auto simp: waking_def signals_def)
  then have "backlog s = 0" using wake cancel asleep by (auto simp: wake_inv_def)
  then have nil: "as = []" using backlog_jobs [OF as] by simp
  then show "queue_at q (run_jobs s) []" using as by (simp add: jobs_inv_def queue_inv_def)
  show "\<forall>a \<in> set (added_in (history s)).
      (\<exists>w. Finished w a \<in> set (history s)) \<and> answered call (run_jobs s) a \<or> (\<exists>w < n. worker_at s w = WRun a)"
  proof
    fix a assume "a \<in> set (added_in (history s))"
    then have "a \<in> set (taken_in (history s))" using as nil by (simp add: jobs_inv_def queue_inv_def)
    then obtain w where w: "a \<in> set (worker_taken w (history s))" using taken_by_workers by blast
    have "worker_taken w (history s) = worker_finished w (history s) @ in_hand (worker_at s w)"
      using inv by (simp add: pool_inv_def hands_inv_def)
    with w consider "a \<in> set (worker_finished w (history s))" | "a \<in> set (in_hand (worker_at s w))" by auto
    then show "(\<exists>w. Finished w a \<in> set (history s)) \<and> answered call (run_jobs s) a \<or> (\<exists>w < n. worker_at s w = WRun a)"
    proof cases
      case 1
      then have "Finished w a \<in> set (history s)" by (auto simp: history_defs split: pool_event.splits if_splits)
      with ans show ?thesis unfolding answers_inv_def by blast
    next
      case 2
      then have "w < n" using outside by (cases "w < n") auto
      with still [OF this] 2 show ?thesis by auto
    qed
  qed
qed

lemma rest_outcome:
  assumes inv: "pool_inv q s" and wake: "wake_inv n s" and ans: "answers_inv call s" and deaths: "deaths_inv n s"
    and rest: "at_rest n call q s" and cancel: "cancelled s = {}" and n: "0 < n"
    and total: "jobs_return call (run_jobs s)" and outside: "\<forall>w \<ge> n. in_hand (worker_at s w) = []"
  shows "queue_at q (run_jobs s) [] \<and> (\<forall>w < n. worker_at s w = WAsleep) \<and> (\<forall>c. client_at s c = CIdle)
    \<and> (\<forall>a \<in> set (added_in (history s)). (\<exists>w. Finished w a \<in> set (history s)) \<and> answered call (run_jobs s) a)"
proof -
  note held = rest_held [OF inv wake ans deaths rest cancel outside]
  then have asleep: "\<forall>w < n. worker_at s w = WAsleep" using returning_not_stuck [OF total] by blast
  with n have "\<exists>w < n. worker_at s w = WAsleep" "\<And>a. \<not> (\<exists>w < n. worker_at s w = WRun a)" by auto
  with held asleep show ?thesis by blast
qed

lemma outside_step:
  "\<forall>w \<ge> n. worker_at s w = WLock \<Longrightarrow> pool_step n call q s t \<Longrightarrow> \<forall>w \<ge> n. worker_at t w = WLock"
  by (erule pool_stepE; (elim worker_stepE client_stepE begin_stepE cancel_stepE)?) auto

lemma pool_steps_all:
  assumes "pool_steps n call q (pool_start js) s" and "queue_at q js []" and "jobs_ok js"
  shows "pool_inv q s \<and> wake_inv n s \<and> answers_inv call s \<and> deaths_inv n s \<and> (\<forall>w \<ge> n. worker_at s w = WLock)"
proof -
  let ?P = "\<lambda>s. pool_inv q s \<and> wake_inv n s \<and> answers_inv call s \<and> deaths_inv n s \<and> (\<forall>w \<ge> n. worker_at s w = WLock)"
  have start: "pool_inv q (pool_start js)" using assms(2,3) by (rule pool_inv_start)
  have "?P (pool_start js)"
    using start deaths_start by (auto simp: wake_inv_def answers_inv_def pool_start_def backlog_def)
  moreover have "?P y" if "?P x" "pool_step n call q x y" for x y
    using that(1) pool_inv_step [OF _ that(2)] wake_step [OF _ _ that(2)] answers_step [OF _ _ that(2)]
      deaths_step [OF _ that(2)] outside_step [OF _ that(2)] by blast
  ultimately show ?thesis using pool_steps_keep [OF assms(1) start, of ?P] by blast
qed

end
