(* ===== verification/PoolProps.thy ===== *)
theory PoolProps
  imports PoolRest
begin

section \<open>The pool: properties\<close>

text \<open>
  The theorems about pools, each from the invariants of the previous theories, and executable
  runs of a pool (\<open>pool_moves\<close>) for the witnesses.
\<close>

subsection \<open>Executing a schedule\<close>

text \<open>\<open>MSignal c w\<close>: the signal of client \<open>c\<close> wakes worker \<open>w\<close>.\<close>

datatype ('f, 'a) pool_move = MWorker nat | MClient nat | MSignal nat nat | MNew nat "'f option" 'a
  | MCancel nat | MDie nat

definition worker_next :: "('f \<Rightarrow> 'a \<Rightarrow> 'r option run) \<Rightarrow> nat \<Rightarrow> nat \<Rightarrow> ('f, 'a, 'r) pool_run
    \<Rightarrow> ('f, 'a, 'r) pool_run option" where
  "worker_next call q w s = (case worker_at s w of
     WLock \<Rightarrow> if mutex_holder s = None then Some (move_worker w WPop (s\<lparr>mutex_holder := Some (PWorker w)\<rparr>)) else None
   | WPop \<Rightarrow> (case threadpool_job_queue_pop_job (Some q) (run_jobs s) of
       Some (Inr (r, js)) \<Rightarrow> Some (case r of None \<Rightarrow> move_worker w WWait (s\<lparr>run_jobs := js\<rparr>)
         | Some a \<Rightarrow> move_worker w (WUnlock (Some a)) (s\<lparr>run_jobs := js, history := history s @ [Taken w a]\<rparr>))
     | _ \<Rightarrow> None)
   | WWait \<Rightarrow> if w \<in> cancelled s then None else Some (move_worker w WAsleep (s\<lparr>mutex_holder := None\<rparr>))
   | WWoken \<Rightarrow> if mutex_holder s = None then Some (move_worker w WPopAgain (s\<lparr>mutex_holder := Some (PWorker w)\<rparr>)) else None
   | WPopAgain \<Rightarrow> (case threadpool_job_queue_pop_job (Some q) (run_jobs s) of
       Some (Inr (r, js)) \<Rightarrow> Some (move_worker w (WUnlock r) (s\<lparr>run_jobs := js, history := history s @ taken_by w r\<rparr>))
     | _ \<Rightarrow> None)
   | WUnlock r \<Rightarrow> Some (move_worker w (case r of None \<Rightarrow> WLock | Some a \<Rightarrow> WRun a) (s\<lparr>mutex_holder := None\<rparr>))
   | WRun a \<Rightarrow> (case run_job call w a (run_jobs s) of
       Some (Inr (ev, js)) \<Rightarrow> Some (move_worker w WLock (s\<lparr>run_jobs := js, history := history s @ [Finished w a],
         pool_log := pool_log s @ ev\<rparr>))
     | _ \<Rightarrow> None)
   | _ \<Rightarrow> None)"

definition client_next :: "nat \<Rightarrow> nat \<Rightarrow> nat \<Rightarrow> ('f, 'a, 'r) pool_run \<Rightarrow> ('f, 'a, 'r) pool_run option" where
  "client_next n q c s = (case client_at s c of
     CLock a \<Rightarrow> if mutex_holder s = None then Some (move_client c (CAdd a) (s\<lparr>mutex_holder := Some (PClient c)\<rparr>)) else None
   | CAdd a \<Rightarrow> (case threadpool_job_queue_add_job (Some q) (Some a) (run_jobs s) of
       Some (Inr js) \<Rightarrow> Some (move_client c CSignal (s\<lparr>run_jobs := js, history := history s @ [Added a]\<rparr>))
     | _ \<Rightarrow> None)
   | CSignal \<Rightarrow> if list_all (\<lambda>w. worker_at s w \<noteq> WAsleep) [0..<n] then Some (move_client c CUnlock s) else None
   | CUnlock \<Rightarrow> Some (move_client c CIdle (s\<lparr>mutex_holder := None\<rparr>))
   | CIdle \<Rightarrow> None)"

fun move_pool :: "nat \<Rightarrow> ('f \<Rightarrow> 'a \<Rightarrow> 'r option run) \<Rightarrow> nat \<Rightarrow> ('f, 'a) pool_move
    \<Rightarrow> ('f, 'a, 'r) pool_run \<Rightarrow> ('f, 'a, 'r) pool_run option" where
  "move_pool n call q (MWorker w) s = (if w < n then worker_next call q w s else None)"
| "move_pool n call q (MClient c) s = client_next n q c s"
| "move_pool n call q (MSignal c w) s =
     (if w < n \<and> client_at s c = CSignal \<and> worker_at s w = WAsleep
      then Some (move_client c CUnlock (move_worker w WWoken s)) else None)"
| "move_pool n call q (MNew c f x) s =
     (case threadpool_job_new True True f x (run_jobs s) of
       (Some a, ev, js) \<Rightarrow> if client_at s c = CIdle then Some (move_client c (CLock a) (s\<lparr>run_jobs := js\<rparr>)) else None
     | _ \<Rightarrow> None)"
| "move_pool n call q (MCancel w) s = (if w < n then Some (s\<lparr>cancelled := insert w (cancelled s)\<rparr>) else None)"
| "move_pool n call q (MDie w) s =
     (if w < n \<and> worker_at s w \<in> {WAsleep, WWoken} \<and> w \<in> cancelled s \<and> mutex_holder s = None
      then Some (move_worker w WDead (s\<lparr>mutex_holder := Some (PWorker w)\<rparr>)) else None)"

fun pool_moves :: "nat \<Rightarrow> ('f \<Rightarrow> 'a \<Rightarrow> 'r option run) \<Rightarrow> nat \<Rightarrow> ('f, 'a) pool_move list
    \<Rightarrow> ('f, 'a, 'r) pool_run \<Rightarrow> ('f, 'a, 'r) pool_run option" where
  "pool_moves n call q [] s = Some s"
| "pool_moves n call q (m # ms) s = Option.bind (move_pool n call q m s) (pool_moves n call q ms)"

lemma map_option_SomeE: "map_option f x = Some y \<Longrightarrow> (\<And>z. x = Some z \<Longrightarrow> f z = y \<Longrightarrow> P) \<Longrightarrow> P"
  by (cases x) auto

lemma worker_next_step: "worker_next call q w s = Some t \<Longrightarrow> worker_step call q w s t"
  by (auto simp: worker_next_def ret_def worker_step.simps split: worker_pc.splits if_splits option.splits sum.splits)

lemma client_next_step: "client_next n q c s = Some t \<Longrightarrow> client_step n q c s t"
  by (auto simp: client_next_def ret_def client_step.simps list_all_iff split: client_pc.splits if_splits option.splits sum.splits)

lemma pool_move_step: "move_pool n call q m s = Some t \<Longrightarrow> pool_step n call q s t"
proof (cases m)
  case (MNew c f x)
  assume "move_pool n call q m s = Some t"
  with MNew obtain a ev js where new: "threadpool_job_new True True f x (run_jobs s) = (Some a, ev, js)"
      "client_at s c = CIdle" "t = move_client c (CLock a) (s\<lparr>run_jobs := js\<rparr>)"
    by (auto split: prod.splits option.splits if_splits)
  have "begin_step c s t" unfolding new(3) by (rule c_new [OF new(2,1)])
  then show ?thesis by (rule starts)
next
  case (MSignal c w)
  assume "move_pool n call q m s = Some t"
  with MSignal have "client_step n q c s t" by (auto simp: client_step.simps split: if_splits)
  then show ?thesis by (rule client)
qed (auto split: if_splits intro: worker client cancels worker_next_step client_next_step simp: cancel_step.simps)

lemma pool_moves_steps: "pool_moves n call q ms s = Some t \<Longrightarrow> pool_steps n call q s t"
proof (induction ms arbitrary: s)
  case (Cons m ms)
  then obtain u where u: "move_pool n call q m s = Some u" "pool_moves n call q ms u = Some t"
    by (auto simp: bind_eq_Some_conv)
  from u(1) have "pool_steps n call q s u" by (intro ps.steps_one pool_move_step)
  then show ?case using Cons.IH [OF u(2)] by (rule ps.steps_compose)
qed (auto intro: pool_refl)

text \<open>Clients that do not occur in a schedule stay idle.\<close>

fun mover :: "('f, 'a) pool_move \<Rightarrow> nat" where
  "mover (MClient c) = c"
| "mover (MSignal c w) = c"
| "mover (MNew c f x) = c"
| "mover _ = 0"

lemma move_pool_idle:
  "move_pool n call q m s = Some t \<Longrightarrow> c \<noteq> mover m \<Longrightarrow> client_at t c = client_at s c"
  by (cases m) (auto simp: worker_next_def client_next_def split: worker_pc.splits client_pc.splits if_splits
      option.splits sum.splits prod.splits)

lemma pool_moves_idle:
  "pool_moves n call q ms s = Some t \<Longrightarrow> c \<notin> mover ` set ms \<Longrightarrow> client_at t c = client_at s c"
  by (induction ms arbitrary: s) (auto simp: bind_eq_Some_conv dest: move_pool_idle)

lemma asleep_at_rest:
  "\<forall>w < n. worker_at s w = WAsleep \<Longrightarrow> \<forall>c. client_at s c = CIdle \<Longrightarrow> at_rest n call q s"
  by (auto simp: at_rest_def worker_step.simps client_step.simps)

text \<open>A pool of two workers with an empty queue; the client adds two jobs.\<close>

definition jobs_start :: "(nat, nat, nat) job_state" where
  "jobs_start = snd (threadpool_job_queue_new empty_jobs)"

definition add_moves :: "nat option \<Rightarrow> nat \<Rightarrow> (nat, nat) pool_move list" where
  "add_moves f x = [MNew 0 f x, MClient 0, MClient 0]"

definition plus_one :: "nat \<Rightarrow> nat \<Rightarrow> nat option run" where
  "plus_one f x = ret (Some (x + f + 1))"

text \<open>Both workers go to sleep.\<close>

definition sleepy_moves :: "(nat, nat) pool_move list" where
  "sleepy_moves = replicate 3 (MWorker 0) @ replicate 3 (MWorker 1)"

lemma jobs_start_ok: "queue_at 0 jobs_start []" "jobs_ok jobs_start"
proof -
  show "queue_at 0 jobs_start []"
    by (auto simp: jobs_start_def threadpool_job_queue_new_def alloc_def empty_jobs_def empty_store_def queue_at_def)
  show "jobs_ok jobs_start"
    using jobs_ok_empty [where ?'a = nat and ?'b = nat and ?'c = nat]
    by (simp add: jobs_start_def threadpool_job_queue_new_def alloc_def jobs_ok_def)
qed

definition shown :: "nat \<Rightarrow> (nat, nat, nat) pool_run \<Rightarrow> worker_pc list \<times> client_pc list \<times> pool_event list \<times> pool_agent option" where
  "shown n s = (map (worker_at s) [0..<n], map (client_at s) [0, 1], history s, mutex_holder s)"

text \<open>Two jobs are added and wake both workers, who then run them and go to sleep again.\<close>

definition busy_moves :: "(nat, nat) pool_move list" where
  "busy_moves = sleepy_moves @ add_moves (Some 0) 10 @ [MSignal 0 1, MClient 0]
     @ add_moves None 20 @ [MSignal 0 0, MClient 0]"

definition work_moves :: "(nat, nat) pool_move list" where
  "work_moves = replicate 4 (MWorker 0) @ replicate 4 (MWorker 1) @ replicate 3 (MWorker 0) @ replicate 3 (MWorker 1)"

lemma full_run:
  "\<exists>s t. pool_moves 2 plus_one 0 busy_moves (pool_start jobs_start) = Some s \<and> cancelled s = {}
    \<and> shown 2 s = ([WWoken, WWoken], [CIdle, CIdle], [Added 0, Added 1], None)
    \<and> pool_moves 2 plus_one 0 work_moves s = Some t \<and> at_rest 2 plus_one 0 t \<and> cancelled t = {}
    \<and> history t = [Added 0, Added 1, Taken 0 0, Finished 0 0, Taken 1 1, Finished 1 1]"
proof -
  have "map_option (\<lambda>s. (cancelled s, shown 2 s, map_option (\<lambda>t. (shown 2 t, cancelled t)) (pool_moves 2 plus_one 0 work_moves s)))
      (pool_moves 2 plus_one 0 busy_moves (pool_start jobs_start)) = Some ({},
        ([WWoken, WWoken], [CIdle, CIdle], [Added 0, Added 1], None),
        Some (([WAsleep, WAsleep], [CIdle, CIdle],
          [Added 0, Added 1, Taken 0 0, Finished 0 0, Taken 1 1, Finished 1 1], None), {}))"
    by code_simp
  then obtain s t where s: "pool_moves 2 plus_one 0 busy_moves (pool_start jobs_start) = Some s" "cancelled s = {}"
      "shown 2 s = ([WWoken, WWoken], [CIdle, CIdle], [Added 0, Added 1], None)"
    and t: "pool_moves 2 plus_one 0 work_moves s = Some t" "cancelled t = {}"
      "shown 2 t = ([WAsleep, WAsleep], [CIdle, CIdle],
        [Added 0, Added 1, Taken 0 0, Finished 0 0, Taken 1 1, Finished 1 1], None)"
    by (elim map_option_SomeE Pair_inject) (rule that)
  have "client_at t c = CIdle" for c
  proof (cases "c = 0")
    case False
    have sub: "mover ` set busy_moves \<subseteq> {0}" "mover ` set work_moves \<subseteq> {0}" by code_simp+
    have "c \<notin> mover ` set busy_moves" "c \<notin> mover ` set work_moves" using False sub by (meson singletonD subsetD)+
    then have "client_at t c = client_at (pool_start jobs_start) c"
      using pool_moves_idle [OF s(1)] pool_moves_idle [OF t(1)] by simp
    then show ?thesis by (simp only: pool_start_def pool_run.simps)
  qed (use t(3) in \<open>simp add: shown_def\<close>)
  moreover have "\<forall>w < 2. worker_at t w = WAsleep" using t(3) by (auto simp: shown_def upt_rec less_2_cases_iff)
  ultimately have "at_rest 2 plus_one 0 t" by (intro asleep_at_rest) auto
  moreover have "history t = [Added 0, Added 1, Taken 0 0, Finished 0 0, Taken 1 1, Finished 1 1]"
    using t(3) by (simp add: shown_def)
  ultimately show ?thesis using s t(1,2) by (intro exI conjI)
qed

text \<open>A dead worker keeps the mutex, so nothing that needs it happens.\<close>

lemma dead_step:
  assumes inv: "mutex_inv s" and dead: "worker_at s w = WDead" and step: "pool_step n call q s t"
  shows "worker_at t w = WDead \<and> added_in (history t) = added_in (history s) \<and> taken_in (history t) = taken_in (history s)"
proof -
  have "worker_holds (worker_at s w)" using dead by simp
  then have h: "mutex_holder s = Some (PWorker w)" using inv by (simp add: mutex_inv_def)
  have others: "\<not> worker_holds (worker_at s v)" if "v \<noteq> w" for v using inv h that by (simp add: mutex_inv_def)
  have clients: "\<not> client_holds (client_at s c)" for c using inv h by (simp add: mutex_inv_def)
  from step show ?thesis
  proof cases
    case (worker v)
    have "v = w \<or> \<not> worker_holds (worker_at s v)" using others by blast
    with worker(2) dead show ?thesis by cases auto
  next
    case (client c)
    then show ?thesis using dead clients [of c] by cases auto
  next
    case (starts c)
    then show ?thesis using dead by cases auto
  next
    case (cancels v)
    from cancels(2) show ?thesis using dead by cases auto
  qed (use dead in auto)
qed

subsection \<open>Properties\<close>

text \<open>
  C13: the mutex of the pool excludes: two different threads are never both inside the sections
  of \<open>threadpool_worker_func\<close> and \<open>threadpool_add_work\<close> that it guards, whatever the threads, the
  signals, spurious wake-ups and cancellations do.
\<close>

theorem pool_mutual_exclusion:
  assumes "pool_steps n call q (pool_start js) s"
  shows "(worker_holds (worker_at s v) \<longrightarrow> worker_holds (worker_at s w) \<longrightarrow> v = w)
    \<and> (client_holds (client_at s c) \<longrightarrow> client_holds (client_at s d) \<longrightarrow> c = d)
    \<and> \<not> (worker_holds (worker_at s w) \<and> client_holds (client_at s c))"
proof -
  have "mutex_inv s" using mutex_steps [OF assms mutex_start] .
  then show ?thesis by (auto simp: mutex_inv_def)
qed

theorem pool_mutual_exclusion_witness:
  "\<exists>s. worker_at s 0 = WPop \<and> \<not> worker_holds (worker_at (s :: (nat, nat, nat) pool_run) 1)"
proof -
  have "map_option (\<lambda>s. worker_at s 0) (pool_moves 2 plus_one 0 [MWorker 0] (pool_start jobs_start)) = Some WPop"
    by code_simp
  then obtain s where s: "pool_moves 2 plus_one 0 [MWorker 0] (pool_start jobs_start) = Some s" "worker_at s 0 = WPop"
    by auto
  from pool_mutual_exclusion [OF pool_moves_steps [OF s(1)], of 0 1] s(2) show ?thesis by fastforce
qed

text \<open>
  C10: no job is lost, run twice, or run out of order: at every moment the jobs that were added
  are, in order, those that were taken followed by those in the queue; they are all different;
  and what each worker took is what it finished, in order, followed by the job in its hands.
\<close>

theorem jobs_taken_in_order:
  assumes "pool_steps n call q (pool_start js) s" and "queue_at q js []" and "jobs_ok js"
  shows "\<exists>as. queue_at q (run_jobs s) as \<and> added_in (history s) = taken_in (history s) @ as
    \<and> distinct (added_in (history s))
    \<and> (\<forall>w. worker_taken w (history s) = worker_finished w (history s) @ in_hand (worker_at s w))"
proof -
  have "pool_inv q s" using pool_steps_all [OF assms] by blast
  then show ?thesis by (auto simp: pool_inv_def jobs_inv_def queue_inv_def hands_inv_def)
qed

theorem jobs_taken_in_order_witness:
  "\<exists>s. added_in (history s) = [0, 1] \<and> queue_at 0 (run_jobs (s :: (nat, nat, nat) pool_run)) []
    \<and> worker_taken 1 (history s) = [1]"
proof -
  obtain r t where r: "pool_moves 2 plus_one 0 busy_moves (pool_start jobs_start) = Some r"
      "pool_moves 2 plus_one 0 work_moves r = Some t"
    and h: "history t = [Added 0, Added 1, Taken 0 0, Finished 0 0, Taken 1 1, Finished 1 1]"
    using full_run by (elim exE conjE) (rule that)
  have run: "pool_steps 2 plus_one 0 (pool_start jobs_start) t" using r [THEN pool_moves_steps] by (rule ps.steps_compose)
  have "added_in (history t) = [0, 1]" "taken_in (history t) = [0, 1]" "worker_taken 1 (history t) = [1]"
    unfolding h by code_simp+
  with jobs_taken_in_order [OF run jobs_start_ok] show ?thesis by auto
qed

text \<open>
  C12: no wake-up is lost: while nobody is cancelled and a worker sleeps, every queued job has a
  worker of its own that has been woken and is on its way to the queue, or a client about to
  send the signal for it.
\<close>

theorem no_lost_wakeup:
  assumes "pool_steps n call q (pool_start js) s" and "queue_at q js []" and "jobs_ok js"
    and "cancelled s = {}" and "w < n" and "worker_at s w = WAsleep" and "queue_at q (run_jobs s) as"
  shows "length as \<le> waking n (worker_at s) + signals (client_at s)"
proof -
  have s: "pool_inv q s" "wake_inv n s" using pool_steps_all [OF assms(1-3)] by blast+
  then obtain bs where bs: "jobs_inv q s bs" by (auto simp: pool_inv_def)
  with assms(7) have "as = bs" by (auto simp: jobs_inv_def queue_inv_def queue_at_def dest: linked_det)
  moreover have "backlog s \<le> waking n (worker_at s) + signals (client_at s)"
    using s(2) assms(4-6) by (auto simp: wake_inv_def)
  ultimately show ?thesis using backlog_jobs [OF bs] by simp
qed

theorem no_lost_wakeup_witness:
  "\<exists>s. worker_at s 0 = WAsleep \<and> worker_at s 1 = WWoken \<and> queue_at 0 (run_jobs (s :: (nat, nat, nat) pool_run)) [0]
    \<and> length [0 :: nat] \<le> waking 2 (worker_at s) + signals (client_at s)"
proof -
  let ?ms = "sleepy_moves @ add_moves (Some 0) 10 @ [MSignal 0 1]"
  have "map_option (\<lambda>s. (map (worker_at s) [0, 1], cancelled s = {}, history s))
      (pool_moves 2 plus_one 0 ?ms (pool_start jobs_start)) = Some ([WAsleep, WWoken], True, [Added 0])"
    by code_simp
  then obtain s where s: "pool_moves 2 plus_one 0 ?ms (pool_start jobs_start) = Some s" "worker_at s 0 = WAsleep"
      "worker_at s 1 = WWoken" "cancelled s = {}" "history s = [Added 0]" by auto
  note run = pool_moves_steps [OF s(1)]
  have "added_in (history s) = [0]" "taken_in (history s) = []" unfolding s(5) by code_simp+
  then have q: "queue_at 0 (run_jobs s) [0]" using jobs_taken_in_order [OF run jobs_start_ok] by auto
  from no_lost_wakeup [OF run jobs_start_ok s(4) _ s(2) q] s q show ?thesis by auto
qed

lemma answered_await:
  assumes inv: "pool_inv q s" and ans: "answered call (run_jobs s) a"
  shows "\<exists>j v. cells (jobs (run_jobs s)) a = Some j
    \<and> threadpool_job_result_await (job_jres j) (run_jobs s) = ret v \<and> work_value call j v"
proof -
  obtain j r x where j: "cells (jobs (run_jobs s)) a = Some j" "job_jres j = Some r"
      "cells (results (run_jobs s)) r = Some x" "jr_done x \<le> 0" "work_value call j (jr_res x)"
    using ans by (auto simp: answered_def)
  moreover have "jobs_ok (run_jobs s)" using inv by (auto simp: pool_inv_def jobs_inv_def queue_inv_def)
  then have "\<not> jr_mutex x" using j(1-3) unfolding jobs_ok_def by fastforce
  ultimately show ?thesis using await_outcome [OF j(3)] by auto
qed

text \<open>
  When the work of every job returns and nobody is cancelled, a state in which no thread can move has an
  empty queue, all workers asleep and all clients back; every job that was ever added has been
  finished by a worker, and awaiting its result returns the value of its function.
\<close>

lemma pool_rest_done:
  assumes "pool_steps n call q (pool_start js) s" and "queue_at q js []" and "jobs_ok js"
    and "at_rest n call q s" and "cancelled s = {}" and "0 < n" and "jobs_return call (run_jobs s)"
  shows "queue_at q (run_jobs s) [] \<and> (\<forall>w < n. worker_at s w = WAsleep) \<and> (\<forall>c. client_at s c = CIdle)
    \<and> (\<forall>a \<in> set (added_in (history s)). (\<exists>w. Finished w a \<in> set (history s))
        \<and> (\<exists>j v. cells (jobs (run_jobs s)) a = Some j
              \<and> threadpool_job_result_await (job_jres j) (run_jobs s) = ret v \<and> work_value call j v))"
proof -
  have inv: "pool_inv q s" and inv': "wake_inv n s" "answers_inv call s" "deaths_inv n s"
    and out: "\<forall>w \<ge> n. worker_at s w = WLock"
    using pool_steps_all [OF assms(1-3)] by blast+
  have "\<forall>w \<ge> n. in_hand (worker_at s w) = []" using out by simp
  from rest_outcome [OF inv inv' assms(4-7) this] answered_await [OF inv] show ?thesis by blast
qed

text \<open>
  C8: whatever the threads do, spurious wake-ups and cancellation included: when awaiting the
  result of a job returns, it returns the value of the job's function on its argument (\<open>NULL\<close>
  for a job without a function), never the \<open>NULL\<close> the result was made with and never the value
  of another job.
\<close>

theorem awaited_value:
  assumes "pool_steps n call q (pool_start js) s" and "queue_at q js []" and "jobs_ok js" and "values_ok call js"
    and "cells (jobs (run_jobs s)) a = Some j" and "threadpool_job_result_await (job_jres j) (run_jobs s) = ret v"
  shows "work_value call j v"
proof -
  have inv: "pool_inv q (pool_start js)" using assms(2,3) by (rule pool_inv_start)
  have "values_ok call (run_jobs s)"
    by (rule pool_steps_keep [OF assms(1) inv]) (use assms(4) values_step in \<open>auto simp: pool_start_def\<close>)
  moreover have "jobs_ok (run_jobs s)"
    using pool_steps_all [OF assms(1-3)] by (auto simp: pool_inv_def jobs_inv_def queue_inv_def)
  then obtain r x where r: "job_jres j = Some r" "cells (results (run_jobs s)) r = Some x" "\<not> jr_mutex x"
    using assms(5) unfolding jobs_ok_def by blast
  then have "jr_done x \<le> 0" "v = jr_res x"
    using assms(6) await_outcome [OF r(2,3)] by (auto simp: ret_def split: if_splits)
  ultimately show ?thesis using assms(5) r unfolding values_ok_def by blast
qed

theorem awaited_value_witness:
  "\<exists>s j. cells (jobs (run_jobs (s :: (nat, nat, nat) pool_run))) 0 = Some j \<and> job_function j = Some 0 \<and> job_arg j = 10
    \<and> threadpool_job_result_await (job_jres j) (run_jobs s) = ret (Some 11)"
proof -
  have "map_option (\<lambda>s. map_option (\<lambda>j. (job_function j, job_arg j, threadpool_job_result_await (job_jres j) (run_jobs s) \<noteq> None))
      (cells (jobs (run_jobs s)) 0)) (pool_moves 2 plus_one 0 (busy_moves @ work_moves) (pool_start jobs_start))
    = Some (Some (Some 0, 10, True))" by code_simp
  then obtain s j where s: "pool_moves 2 plus_one 0 (busy_moves @ work_moves) (pool_start jobs_start) = Some s"
    "cells (jobs (run_jobs s)) 0 = Some j" "job_function j = Some 0" "job_arg j = 10"
    "threadpool_job_result_await (job_jres j) (run_jobs s) \<noteq> None" by auto
  have "values_ok plus_one jobs_start"
    by (simp add: values_ok_def jobs_start_def threadpool_job_queue_new_def alloc_def empty_jobs_def empty_store_def)
  note val = awaited_value [OF pool_moves_steps [OF s(1)] jobs_start_ok this s(2)]
  have "jobs_ok (run_jobs s)"
    using pool_steps_all [OF pool_moves_steps [OF s(1)] jobs_start_ok] by (auto simp: pool_inv_def jobs_inv_def queue_inv_def)
  then obtain r x where "job_jres j = Some r" "cells (results (run_jobs s)) r = Some x" "\<not> jr_mutex x"
    using s(2) unfolding jobs_ok_def by blast
  with s(5) obtain v where v: "threadpool_job_result_await (job_jres j) (run_jobs s) = ret v"
    using await_outcome [of "run_jobs s" r x] by (auto split: if_splits)
  from val [OF v] s(3,4) have "v = Some 11" by (auto simp: work_value_def plus_one_def ret_def)
  with s v show ?thesis by blast
qed

text \<open>
  C38: a worker that is cancelled while it waits dies with the mutex of the pool in its hands:
  from then on no job is ever added or taken again, whatever the other threads do.
\<close>

theorem cancelled_worker_blocks_pool:
  assumes "pool_steps n call q (pool_start js) s" and "worker_at s w = WDead" and "pool_steps n call q s t"
  shows "mutex_holder t = Some (PWorker w) \<and> added_in (history t) = added_in (history s)
    \<and> taken_in (history t) = taken_in (history s)"
proof -
  let ?P = "\<lambda>t. worker_at t w = WDead \<and> added_in (history t) = added_in (history s)
    \<and> taken_in (history t) = taken_in (history s)"
  have "mutex_inv s" using mutex_steps [OF assms(1) mutex_start] .
  have "?P t \<and> mutex_inv t"
  proof (rule ps.steps_keep [where I = mutex_inv and P = ?P, OF assms(3) \<open>mutex_inv s\<close>])
    show "?P s" using assms(2) by simp
  qed (use mutex_step dead_step in metis)+
  then show ?thesis by (auto simp: mutex_inv_def dest: spec [of _ w])
qed

theorem cancelled_worker_blocks_pool_witness:
  "\<exists>s t. pool_steps 2 plus_one 0 s t \<and> worker_at s 0 = WDead \<and> client_at t 0 = CLock 0
    \<and> mutex_holder t = Some (PWorker 0)"
proof -
  let ?ms = "sleepy_moves @ [MCancel 0, MDie 0]" and ?ns = "[MNew 0 (Some 0) 10] :: (nat, nat) pool_move list"
  have "map_option (\<lambda>s. (worker_at s 0, map_option (\<lambda>t. client_at t 0) (pool_moves 2 plus_one 0 ?ns s)))
      (pool_moves 2 plus_one 0 ?ms (pool_start jobs_start)) = Some (WDead, Some (CLock 0))"
    by code_simp
  then obtain s t where st: "pool_moves 2 plus_one 0 ?ms (pool_start jobs_start) = Some s" "worker_at s 0 = WDead"
      "pool_moves 2 plus_one 0 ?ns s = Some t" "client_at t 0 = CLock 0" by auto
  from cancelled_worker_blocks_pool [OF pool_moves_steps [OF st(1)] st(2) pool_moves_steps [OF st(3)]]
  show ?thesis using st pool_moves_steps [OF st(3)] by blast
qed

text \<open>
  \<open>threadpool_ensure_jobs_done\<close> returns exactly when one of its readings of the queue's size
  is zero.
\<close>

lemma wait_for_zero_iff: "(\<exists>k. wait_for_zero sizes i = Some k) \<longleftrightarrow> (\<exists>k \<ge> i. sizes k = 0)"
proof
  assume "\<exists>k. wait_for_zero sizes i = Some k"
  then obtain k where "wait_for_zero sizes i = Some k" by blast
  then have "k \<ge> i \<and> sizes k = 0"
  proof (induction rule: wait_for_zero.raw_induct [rotated, consumes 1, case_names step])
    case (step f i k)
    then show ?case by (fastforce split: if_splits)
  qed
  then show "\<exists>k \<ge> i. sizes k = 0" by blast
next
  assume "\<exists>k \<ge> i. sizes k = 0"
  then obtain k where "k \<ge> i" "sizes k = 0" by blast
  then show "\<exists>k. wait_for_zero sizes i = Some k"
    by (induction "k - i" arbitrary: i) (auto simp: wait_for_zero.simps [of sizes])
qed

end
