(* ===== verification/PoolProgress.thy ===== *)
theory PoolProgress
  imports PoolProps
begin

section \<open>The pool always comes to rest\<close>

text \<open>
  Progress of a pool once its clients start no further calls: each step of a worker or a client
  then decreases a measure, whatever the scheduler does, so that every run is finite; and where
  it ends every job is done.
\<close>

inductive work_step :: "nat \<Rightarrow> ('f \<Rightarrow> 'a \<Rightarrow> 'r option run) \<Rightarrow> nat
    \<Rightarrow> ('f, 'a, 'r) pool_run \<Rightarrow> ('f, 'a, 'r) pool_run \<Rightarrow> bool" for n call q where
  worker_works: "w < n \<Longrightarrow> worker_step call q w s t \<Longrightarrow> work_step n call q s t"
| client_works: "client_step n q c s t \<Longrightarrow> work_step n call q s t"

inductive work_steps :: "nat \<Rightarrow> ('f \<Rightarrow> 'a \<Rightarrow> 'r option run) \<Rightarrow> nat
    \<Rightarrow> ('f, 'a, 'r) pool_run \<Rightarrow> ('f, 'a, 'r) pool_run \<Rightarrow> bool" for n call q where
  work_refl: "work_steps n call q s s"
| work_trans: "work_steps n call q s t \<Longrightarrow> work_step n call q t u \<Longrightarrow> work_steps n call q s u"

lemma work_steps_induct:
  "work_steps n call q s t \<Longrightarrow> P s \<Longrightarrow> (\<And>x y. P x \<Longrightarrow> work_step n call q x y \<Longrightarrow> P y) \<Longrightarrow> P t"
  by (induction rule: work_steps.induct) auto

interpretation ws: transitions "work_step n call q" "work_steps n call q" for n call q
  by unfold_locales (fact work_refl, fact work_trans, rule work_steps_induct)

inductive_cases work_stepE: "work_step n call q s t"

lemma work_pool_step: "work_step n call q s t \<Longrightarrow> pool_step n call q s t"
  by (erule work_stepE) (auto intro: worker client)

lemma work_pool_steps: "work_steps n call q s t \<Longrightarrow> pool_steps n call q s t"
  by (erule ws.steps_induct) (auto intro: pool_refl pool_trans work_pool_step)

lemma at_rest_iff: "at_rest n call q s \<longleftrightarrow> (\<forall>t. \<not> work_step n call q s t)"
  by (auto simp: at_rest_def intro: worker_works client_works elim: work_stepE)

lemma work_keeps_cancelled: "work_step n call q s t \<Longrightarrow> cancelled t = cancelled s"
  by (erule work_stepE; elim worker_stepE client_stepE) auto

subsection \<open>The measure\<close>

text \<open>
  How far a worker is from sleep, and a client from the end of its call. A queued job counts
  four, the steps of running it; the signal of a client counts more than the steps of the
  worker it may wake.
\<close>

fun worker_rank :: "worker_pc \<Rightarrow> nat" where
  "worker_rank WWait = 1"
| "worker_rank WPop = 2"
| "worker_rank WLock = 3"
| "worker_rank (WUnlock None) = 4"
| "worker_rank (WRun a) = 4"
| "worker_rank (WUnlock (Some a)) = 5"
| "worker_rank WPopAgain = 5"
| "worker_rank WWoken = 6"
| "worker_rank _ = 0"

fun client_rank :: "client_pc \<Rightarrow> nat" where
  "client_rank CIdle = 0"
| "client_rank CUnlock = 1"
| "client_rank CSignal = 8"
| "client_rank (CAdd a) = 13"
| "client_rank (CLock a) = 14"

definition calling :: "(nat \<Rightarrow> client_pc) \<Rightarrow> nat set" where
  "calling at = {c. at c \<noteq> CIdle}"

definition workers_rank :: "nat \<Rightarrow> (nat \<Rightarrow> worker_pc) \<Rightarrow> nat" where
  "workers_rank n at = (\<Sum>w<n. worker_rank (at w))"

definition clients_rank :: "(nat \<Rightarrow> client_pc) \<Rightarrow> nat" where
  "clients_rank at = (\<Sum>c \<in> calling at. client_rank (at c))"

definition pool_rank :: "nat \<Rightarrow> ('f, 'a, 'r) pool_run \<Rightarrow> nat" where
  "pool_rank n s = workers_rank n (worker_at s) + 4 * backlog s + clients_rank (client_at s)"

lemma worker_rank_move:
  "w < n \<Longrightarrow> workers_rank n (at(w := pc)) + worker_rank (at w) = workers_rank n at + worker_rank pc"
  by (simp add: workers_rank_def sum.remove [of "{..<n}" w])

lemma calling_move:
  assumes "finite (calling at)"
  shows "finite (calling (at(c := pc)))"
proof -
  have "calling (at(c := pc)) \<subseteq> insert c (calling at)" by (auto simp: calling_def)
  with assms show ?thesis by (simp add: finite_subset)
qed

lemma clients_rank_sum:
  assumes "finite A" and "calling at \<subseteq> A"
  shows "clients_rank at = (\<Sum>c \<in> A. client_rank (at c))"
  unfolding clients_rank_def using assms by (intro sum.mono_neutral_left) (auto simp: calling_def)

lemma client_rank_move:
  assumes fin: "finite (calling at)"
  shows "clients_rank (at(c := pc)) + client_rank (at c) = clients_rank at + client_rank pc"
proof -
  let ?A = "insert c (calling at)"
  have "finite ?A" "c \<in> ?A" using fin by auto
  have "calling (at(c := pc)) \<subseteq> ?A" "calling at \<subseteq> ?A" by (auto simp: calling_def)
  note ranks = this [THEN clients_rank_sum [OF \<open>finite ?A\<close>]]
  have "(\<Sum>d \<in> ?A - {c}. client_rank ((at(c := pc)) d)) = (\<Sum>d \<in> ?A - {c}. client_rank (at d))"
    by (rule sum.cong) auto
  then show ?thesis unfolding ranks
    by (simp only: sum.remove [OF \<open>finite ?A\<close> \<open>c \<in> ?A\<close>] fun_upd_same)
qed

lemma worker_rank_less:
  "w < n \<Longrightarrow> worker_rank pc < worker_rank (at w) \<Longrightarrow> workers_rank n (at(w := pc)) < workers_rank n at"
  using worker_rank_move [of w n at pc] by linarith

lemma client_rank_less:
  "finite (calling at) \<Longrightarrow> client_rank pc < client_rank (at c) \<Longrightarrow> clients_rank (at(c := pc)) < clients_rank at"
  using client_rank_move [of at c pc] by linarith

lemma calling_start: "calling (client_at (pool_start js)) = {}"
  by (simp add: calling_def pool_start_def)

lemma calling_step: "pool_step n call q s t \<Longrightarrow> finite (calling (client_at s)) \<Longrightarrow> finite (calling (client_at t))"
  by (erule pool_stepE; (elim worker_stepE client_stepE begin_stepE cancel_stepE)?) (auto simp: calling_move)

lemma calling_steps: "pool_steps n call q (pool_start js) s \<Longrightarrow> finite (calling (client_at s))"
  by (erule ps.steps_induct) (auto simp: calling_start intro: calling_step)

lemma rank_worker:
  assumes inv: "jobs_inv q s as" and w: "w < n" and step: "worker_step call q w s t"
  shows "pool_rank n t < pool_rank n s"
  using step
proof cases
  case (w_pop a js)
  then have t: "history t = history s @ taken_by w (Some a)" by (simp add: taken_by_def)
  have "0 < backlog s" using jobs_pop [OF inv w_pop(3), of w] backlog_jobs [OF inv] by auto
  with backlog_pop(1) [OF inv w_pop(3) t] worker_rank_move [OF w, of "worker_at s" "WUnlock (Some a)"] w_pop(1,2)
  show ?thesis by (simp add: pool_rank_def)
next
  case (w_pop_again r js)
  then have t: "history t = history s @ taken_by w r" by simp
  have "r = None \<or> 0 < backlog s" using jobs_pop [OF inv w_pop_again(3), of w] backlog_jobs [OF inv] by (cases r) auto
  with backlog_pop(1) [OF inv w_pop_again(3) t] worker_rank_move [OF w, of "worker_at s" "WUnlock r"] w_pop_again(1,2)
  show ?thesis by (cases r) (auto simp: pool_rank_def)
qed (use w in \<open>simp_all add: pool_rank_def backlog_def worker_rank_less\<close>)

lemma rank_client:
  assumes fin: "finite (calling (client_at s))" and step: "client_step n q c s t"
  shows "pool_rank n t < pool_rank n s"
  using step
proof cases
  case (c_add a js)
  have "backlog t \<le> Suc (backlog s)" using c_add(1) by (simp add: backlog_def)
  with client_rank_move [OF fin, of c CSignal] c_add(1,2) show ?thesis by (simp add: pool_rank_def)
next
  case (c_signal w)
  with client_rank_move [OF fin, of c CUnlock] worker_rank_move [OF c_signal(3), of "worker_at s" WWoken]
  show ?thesis by (simp add: pool_rank_def backlog_def)
qed (use fin in \<open>simp_all add: pool_rank_def backlog_def client_rank_less\<close>)

lemma rank_work:
  assumes "pool_inv q s" and "finite (calling (client_at s))" and "work_step n call q s t"
  shows "pool_rank n t < pool_rank n s"
  using assms(3)
proof cases
  case (worker_works w)
  then show ?thesis using assms(1) rank_worker by (auto simp: pool_inv_def)
next
  case (client_works c)
  then show ?thesis using assms(2) rank_client by blast
qed

subsection \<open>Runs of work\<close>

text \<open>The moves of a schedule that are steps of workers and clients.\<close>

fun works :: "('f, 'a) pool_move \<Rightarrow> bool" where
  "works (MWorker w) = True"
| "works (MClient c) = True"
| "works (MSignal c w) = True"
| "works _ = False"

lemma move_works: "move_pool n call q m s = Some t \<Longrightarrow> works m \<Longrightarrow> work_step n call q s t"
proof (cases m)
  case (MSignal c w)
  assume "move_pool n call q m s = Some t"
  with MSignal have "client_step n q c s t" by (auto simp: client_step.simps split: if_splits)
  then show ?thesis by (rule client_works)
qed (auto split: if_splits intro: worker_works client_works worker_next_step client_next_step)

lemma moves_work: "pool_moves n call q ms s = Some t \<Longrightarrow> \<forall>m \<in> set ms. works m \<Longrightarrow> work_steps n call q s t"
proof (induction ms arbitrary: s)
  case (Cons m ms)
  then obtain u where u: "move_pool n call q m s = Some u" "pool_moves n call q ms u = Some t"
    by (auto simp: bind_eq_Some_conv)
  with Cons have "work_steps n call q s u" "work_steps n call q u t" by (auto intro: ws.steps_one move_works)
  then show ?case by (rule ws.steps_compose)
qed (auto intro: work_refl)

lemma work_payload: "work_step n call q s t \<Longrightarrow> pool_inv q s \<Longrightarrow> payload_at (run_jobs t) a = payload_at (run_jobs s) a"
  by (erule work_stepE) (auto intro: worker_payload client_payload)

lemma work_steps_payload:
  assumes "work_steps n call q s t" and "pool_inv q s"
  shows "payload_at (run_jobs t) a = payload_at (run_jobs s) a \<and> pool_inv q t"
  by (rule ws.steps_keep [where I = "pool_inv q" and P = "\<lambda>t. payload_at (run_jobs t) a = payload_at (run_jobs s) a", OF assms])
    (use work_payload pool_inv_step work_pool_step in \<open>metis+\<close>)

lemma work_jobs_return:
  assumes "work_steps n call q s t" and "pool_inv q s" and "jobs_return call (run_jobs s)"
  shows "jobs_return call (run_jobs t)"
  using assms(3) work_steps_payload [OF assms(1,2)] by (simp add: jobs_return_def)

lemma pool_runs_end:
  assumes "pool_steps n call q (pool_start js) s" and "queue_at q js []" and "jobs_ok js"
  shows "\<not> (\<exists>f. f 0 = s \<and> (\<forall>i. work_step n call q (f i) (f (Suc i))))"
proof (rule ws.no_infinite_run [where I = "\<lambda>s. pool_inv q s \<and> finite (calling (client_at s))" and m = "pool_rank n"])
  show "pool_inv q s \<and> finite (calling (client_at s))"
    using pool_steps_all [OF assms] calling_steps [OF assms(1)] by blast
qed (use pool_inv_step calling_step work_pool_step rank_work in blast)+

lemma runs_end_done:
  assumes "pool_steps n call q (pool_start js) s" and "queue_at q js []" and "jobs_ok js"
    and "cancelled s = {}" and "0 < n" and "jobs_return call (run_jobs s)" and st: "work_steps n call q s t"
  shows "(\<exists>u. work_step n call q t u)
        \<or> queue_at q (run_jobs t) [] \<and> (\<forall>w < n. worker_at t w = WAsleep) \<and> (\<forall>c. client_at t c = CIdle)
          \<and> (\<forall>a \<in> set (added_in (history t)). (\<exists>w. Finished w a \<in> set (history t))
              \<and> (\<exists>j v. cells (jobs (run_jobs t)) a = Some j
                    \<and> threadpool_job_result_await (job_jres j) (run_jobs t) = ret v \<and> work_value call j v))"
proof -
  have run: "pool_steps n call q (pool_start js) t" using assms(1) work_pool_steps [OF st] by (rule ps.steps_compose)
  have idle: "cancelled t = {}" using st by (rule ws.steps_induct) (use assms(4) work_keeps_cancelled in metis)+
  have inv: "pool_inv q s" using pool_steps_all [OF assms(1-3)] by blast
  show ?thesis
    using pool_rest_done [OF run assms(2,3) _ idle assms(5)] work_jobs_return [OF st inv assms(6)] by (auto simp: at_rest_iff)
qed

text \<open>The same when the work of some jobs does not return.\<close>

lemma runs_end_held:
  assumes "pool_steps n call q (pool_start js) s" and "queue_at q js []" and "jobs_ok js"
    and "cancelled s = {}" and st: "work_steps n call q s t" and rest: "\<not> (\<exists>u. work_step n call q t u)"
  shows "(\<forall>c. client_at t c = CIdle)
    \<and> (\<forall>w < n. worker_at t w = WAsleep \<or> (\<exists>a. worker_at t w = WRun a \<and> stuck call (run_jobs t) a))
    \<and> ((\<exists>w < n. worker_at t w = WAsleep) \<longrightarrow> queue_at q (run_jobs t) [] \<and> (\<forall>a \<in> set (added_in (history t)).
        (\<exists>w. Finished w a \<in> set (history t)) \<or> (\<exists>w < n. worker_at t w = WRun a)))"
proof -
  have run: "pool_steps n call q (pool_start js) t" using assms(1) work_pool_steps [OF st] by (rule ps.steps_compose)
  have idle: "cancelled t = {}" using st by (rule ws.steps_induct) (use assms(4) work_keeps_cancelled in metis)+
  have inv: "pool_inv q t" "wake_inv n t" "answers_inv call t" "deaths_inv n t" "\<forall>w \<ge> n. worker_at t w = WLock"
    using pool_steps_all [OF run assms(2,3)] by blast+
  have "at_rest n call q t" using rest by (simp add: at_rest_iff)
  moreover have "\<forall>w \<ge> n. in_hand (worker_at t w) = []" using inv(5) by simp
  ultimately show ?thesis using rest_held [OF inv(1-4) _ idle] by blast
qed

text \<open>
  C7: the pool does its work: when the work of every job returns and nobody is cancelled, from every
  reachable state on every run of the workers and the clients that are under way is finite, in
  whatever order the scheduler runs them; and where it cannot go on, the queue is empty, all
  workers sleep, all clients are back, every job that was ever added has been finished by a
  worker, and awaiting its result returns the value of its function on its argument.
\<close>

theorem pool_finishes_jobs:
  assumes "pool_steps n call q (pool_start js) s" and "queue_at q js []" and "jobs_ok js"
    and "cancelled s = {}" and "0 < n" and "jobs_return call (run_jobs s)"
  shows "\<not> (\<exists>f. f 0 = s \<and> (\<forall>i. work_step n call q (f i) (f (Suc i))))
    \<and> (\<forall>t. work_steps n call q s t \<longrightarrow> (\<exists>u. work_step n call q t u)
        \<or> queue_at q (run_jobs t) [] \<and> (\<forall>w < n. worker_at t w = WAsleep) \<and> (\<forall>c. client_at t c = CIdle)
          \<and> (\<forall>a \<in> set (added_in (history t)). (\<exists>w. Finished w a \<in> set (history t))
              \<and> (\<exists>j v. cells (jobs (run_jobs t)) a = Some j
                    \<and> threadpool_job_result_await (job_jres j) (run_jobs t) = ret v \<and> work_value call j v)))"
  using pool_runs_end [OF assms(1-3)] runs_end_done [OF assms] by blast

theorem pool_finishes_jobs_witness:
  "\<exists>s t j v. shown 2 s = ([WWoken, WWoken], [CIdle, CIdle], [Added 0, Added 1], None)
    \<and> \<not> (\<exists>f. f 0 = s \<and> (\<forall>i. work_step 2 plus_one 0 (f i) (f (Suc i))))
    \<and> work_steps 2 plus_one 0 s t \<and> cells (jobs (run_jobs t)) 1 = Some j
    \<and> threadpool_job_result_await (job_jres j) (run_jobs t) = ret v \<and> work_value plus_one j v"
proof -
  obtain s t where s: "pool_moves 2 plus_one 0 busy_moves (pool_start jobs_start) = Some s" "cancelled s = {}"
      "shown 2 s = ([WWoken, WWoken], [CIdle, CIdle], [Added 0, Added 1], None)"
    and t: "pool_moves 2 plus_one 0 work_moves s = Some t" "at_rest 2 plus_one 0 t"
      "history t = [Added 0, Added 1, Taken 0 0, Finished 0 0, Taken 1 1, Finished 1 1]"
    using full_run by (elim exE conjE) (rule that)
  have a: "1 \<in> set (added_in (history t))" unfolding t(3) by code_simp
  have work: "work_steps 2 plus_one 0 s t" by (rule moves_work [OF t(1)]) code_simp
  have "jobs_return plus_one (run_jobs s)" by (auto simp: jobs_return_def plus_one_def ret_def)
  note all = pool_finishes_jobs [OF pool_moves_steps [OF s(1)] jobs_start_ok s(2) zero_less_numeral this]
  have "\<not> (\<exists>u. work_step 2 plus_one 0 t u)" using t(2) by (simp add: at_rest_iff)
  with all [THEN conjunct2, rule_format, OF work] a obtain j v where "cells (jobs (run_jobs t)) 1 = Some j"
      "threadpool_job_result_await (job_jres j) (run_jobs t) = ret v" "work_value plus_one j v" by blast
  with all s(3) work show ?thesis by (intro exI conjI) simp_all
qed

end
