(* ===== verification/PoolSpec.thy ===== *)
theory PoolSpec
  imports PoolProgress
begin

section \<open>What a pool promises\<close>

text \<open>
  The abstract pool: jobs wait in a line, a free worker takes the first, and finishes it. There
  is no mutex, no condition variable and no cancellation in it. The step relation of \<open>PoolSteps\<close>
  implements it, so what holds of the abstract pool holds of the code's.
\<close>

record job_server =
  waiting :: "nat list"
  running :: "nat \<Rightarrow> nat option"
  finished :: "nat set"

definition known :: "job_server \<Rightarrow> nat set" where
  "known s = set (waiting s) \<union> ran (running s) \<union> finished s"

definition no_jobs :: job_server where
  "no_jobs = \<lparr>waiting = [], running = (\<lambda>_. None), finished = {}\<rparr>"

inductive serve_step :: "nat \<Rightarrow> job_server \<Rightarrow> job_server \<Rightarrow> bool" for n where
  submit: "a \<notin> known s \<Longrightarrow> serve_step n s (s\<lparr>waiting := waiting s @ [a]\<rparr>)"
| take_first: "w < n \<Longrightarrow> waiting s = a # as \<Longrightarrow> running s w = None \<Longrightarrow>
    serve_step n s (s\<lparr>waiting := as, running := (running s)(w \<mapsto> a)\<rparr>)"
| finish: "w < n \<Longrightarrow> running s w = Some a \<Longrightarrow>
    serve_step n s (s\<lparr>running := (running s)(w := None), finished := insert a (finished s)\<rparr>)"

inductive serve_steps :: "nat \<Rightarrow> job_server \<Rightarrow> job_server \<Rightarrow> bool" for n where
  serve_refl: "serve_steps n s s"
| serve_trans: "serve_steps n s t \<Longrightarrow> serve_step n t u \<Longrightarrow> serve_steps n s u"

lemma serve_steps_induct:
  "serve_steps n s t \<Longrightarrow> P s \<Longrightarrow> (\<And>x y. P x \<Longrightarrow> serve_step n x y \<Longrightarrow> P y) \<Longrightarrow> P t"
  by (induction rule: serve_steps.induct) auto

text \<open>In the abstract pool a job is in one place only, and with one worker only.\<close>

definition one_place :: "job_server \<Rightarrow> bool" where
  "one_place s \<longleftrightarrow> distinct (waiting s) \<and> set (waiting s) \<inter> ran (running s) = {}
     \<and> (set (waiting s) \<union> ran (running s)) \<inter> finished s = {} \<and> inj_on (running s) (dom (running s))"

lemma one_place_start: "one_place no_jobs"
  by (simp add: one_place_def no_jobs_def)

lemma one_place_step:
  assumes "one_place s" and "serve_step n s t"
  shows "one_place t"
  using assms(2)
proof cases
  case (submit a)
  with assms(1) show ?thesis by (auto simp: one_place_def known_def)
next
  case (take_first w a as)
  with assms(1) have "a \<notin> ran (running s)" "a \<notin> set as" "a \<notin> finished s" by (auto simp: one_place_def)
  with take_first assms(1) show ?thesis
    by (auto simp: one_place_def inj_on_def ran_def split: if_splits)
next
  case (finish w a)
  have "running s v \<noteq> Some a" if "v \<noteq> w" for v
    using assms(1) finish(3) that unfolding one_place_def by (metis domI inj_onD)
  with finish assms(1) show ?thesis
    by (auto simp: one_place_def inj_on_def ran_def split: if_splits)
qed

subsection \<open>The abstraction\<close>

definition pool_abs :: "('f, 'a, 'r) pool_run \<Rightarrow> job_server" where
  "pool_abs s = \<lparr>waiting = drop (length (taken_in (history s))) (added_in (history s)),
     running = (\<lambda>w. case in_hand (worker_at s w) of [] \<Rightarrow> None | a # _ \<Rightarrow> Some a),
     finished = {a. \<exists>w. Finished w a \<in> set (history s)}\<rparr>"

lemma pool_abs_start: "pool_abs (pool_start js) = no_jobs"
  by (simp add: pool_abs_def pool_start_def no_jobs_def)

lemma waiting_jobs: "jobs_inv q s as \<Longrightarrow> waiting (pool_abs s) = as"
  by (simp add: jobs_inv_def queue_inv_def pool_abs_def)

lemma running_abs: "running (pool_abs s) w = Some a \<longleftrightarrow> in_hand (worker_at s w) = [a]"
  by (cases "worker_at s w" rule: in_hand.cases) (auto simp: pool_abs_def)

lemma finished_worker: "Finished w a \<in> set h \<longleftrightarrow> a \<in> set (worker_finished w h)"
  by (auto simp: history_defs split: pool_event.splits if_splits)

lemma known_added:
  assumes inv: "pool_inv q s"
  shows "known (pool_abs s) \<subseteq> set (added_in (history s))"
proof -
  obtain as where as: "added_in (history s) = taken_in (history s) @ as" using inv
    by (auto simp: pool_inv_def jobs_inv_def queue_inv_def)
  have hands: "worker_taken w (history s) = worker_finished w (history s) @ in_hand (worker_at s w)" for w
    using inv by (simp add: pool_inv_def hands_inv_def)
  have sub: "set (worker_finished w (history s)) \<union> set (in_hand (worker_at s w)) \<subseteq> set (taken_in (history s))" for w
  proof -
    have "set (worker_finished w (history s)) \<union> set (in_hand (worker_at s w)) = set (worker_taken w (history s))"
      unfolding hands by simp
    then show ?thesis unfolding taken_by_workers by blast
  qed
  have "ran (running (pool_abs s)) \<union> finished (pool_abs s) \<subseteq> set (taken_in (history s))"
  proof (intro Un_least subsetI)
    fix a assume "a \<in> ran (running (pool_abs s))"
    then obtain w where "in_hand (worker_at s w) = [a]" by (auto simp: ran_def running_abs)
    with sub [of w] show "a \<in> set (taken_in (history s))" by simp
  next
    fix a assume "a \<in> finished (pool_abs s)"
    then obtain w where "a \<in> set (worker_finished w (history s))" by (auto simp: pool_abs_def finished_worker)
    with sub [of w] show "a \<in> set (taken_in (history s))" by blast
  qed
  moreover have "set (waiting (pool_abs s)) \<subseteq> set (added_in (history s))"
    by (simp add: pool_abs_def set_drop_subset)
  ultimately show ?thesis unfolding known_def as by auto
qed

subsection \<open>The simulation\<close>

lemma pool_abs_same:
  "history t = history s \<Longrightarrow> (\<And>w. in_hand (worker_at t w) = in_hand (worker_at s w)) \<Longrightarrow> pool_abs t = pool_abs s"
  by (simp add: pool_abs_def)

lemma taken_simulated:
  assumes inv: "jobs_inv q s as" and w: "w < n" and free: "in_hand (worker_at s w) = []"
    and pop: "threadpool_job_queue_pop_job (Some q) (run_jobs s) = ret (Some a, js)"
    and t: "history t = history s @ [Taken w a]" "worker_at t = (worker_at s)(w := WUnlock (Some a))"
  shows "serve_step n (pool_abs s) (pool_abs t)"
proof -
  obtain bs where as: "as = a # bs" using jobs_pop [OF inv pop, of w] by auto
  have added: "added_in (history s) = taken_in (history s) @ a # bs"
    using inv unfolding as by (simp add: jobs_inv_def queue_inv_def)
  have "pool_abs t = (pool_abs s)\<lparr>waiting := bs, running := (running (pool_abs s))(w \<mapsto> a)\<rparr>"
    using added t by (auto simp: pool_abs_def fun_eq_iff)
  moreover have "waiting (pool_abs s) = a # bs" using waiting_jobs [OF inv] as by simp
  moreover have "running (pool_abs s) w = None" using free by (simp add: pool_abs_def)
  ultimately show ?thesis using w by (simp only: take_first)
qed

lemma worker_simulated:
  assumes inv: "jobs_inv q s as" and w: "w < n" and step: "worker_step call q w s t"
  shows "pool_abs t = pool_abs s \<or> serve_step n (pool_abs s) (pool_abs t)"
  using step
proof cases
  case (w_pop a js)
  then show ?thesis using taken_simulated [OF inv w _ w_pop(3), of t] by simp
next
  case (w_pop_again r js)
  then show ?thesis using taken_simulated [OF inv w, of _ js t]
    by (cases r) (auto simp: taken_by_def intro: pool_abs_same)
next
  case (w_run a ev js)
  have "pool_abs t = (pool_abs s)\<lparr>running := (running (pool_abs s))(w := None), finished := insert a (finished (pool_abs s))\<rparr>"
    using w_run(1) by (auto simp: pool_abs_def fun_eq_iff)
  moreover have "running (pool_abs s) w = Some a" using w_run(2) by (simp add: running_abs)
  ultimately show ?thesis using finish [OF w, of "pool_abs s" a] by simp
qed (auto intro: pool_abs_same)

lemma client_simulated:
  assumes inv: "pool_inv q s" and step: "client_step n q c s t"
  shows "pool_abs t = pool_abs s \<or> serve_step m (pool_abs s) (pool_abs t)"
  using step
proof cases
  case (c_add a js)
  obtain as where as: "jobs_inv q s as" using inv by (auto simp: pool_inv_def)
  then have added: "added_in (history s) = taken_in (history s) @ as" by (simp add: jobs_inv_def queue_inv_def)
  have "client_job (client_at s c) = Some a" using c_add(2) by simp
  with as have "a \<notin> set (added_in (history s))" unfolding jobs_inv_def clients_inv_def by blast
  then have "a \<notin> known (pool_abs s)" using known_added [OF inv] by blast
  moreover have "pool_abs t = (pool_abs s)\<lparr>waiting := waiting (pool_abs s) @ [a]\<rparr>"
    using c_add(1) added by (simp add: pool_abs_def)
  ultimately show ?thesis using submit [of a "pool_abs s" m] by simp
next
  case (c_signal w)
  then show ?thesis by (intro disjI1 pool_abs_same) auto
qed (auto intro: pool_abs_same)

lemma pool_simulated:
  assumes inv: "pool_inv q s" and step: "pool_step n call q s t"
  shows "pool_abs t = pool_abs s \<or> serve_step n (pool_abs s) (pool_abs t)"
  using step
proof cases
  case (worker w)
  obtain as where "jobs_inv q s as" using inv by (auto simp: pool_inv_def)
  from worker_simulated [OF this worker] show ?thesis .
next
  case (client c)
  then show ?thesis using client_simulated [OF inv] by blast
next
  case (starts c)
  then show ?thesis by cases (auto intro: pool_abs_same)
next
  case (cancels w)
  from cancels(2) show ?thesis by cases (auto intro!: pool_abs_same)
next
  case (spurious w)
  then show ?thesis by (auto intro!: pool_abs_same)
qed

interpretation sp: simulation "pool_step n call q" "pool_steps n call q" "serve_step n" "serve_steps n" "pool_inv q" pool_abs
  for n call q
  by unfold_locales (fact serve_refl, fact serve_trans, fact serve_steps_induct, fact pool_inv_step, fact pool_simulated)

subsection \<open>Properties\<close>

text \<open>
  C9: the pool of the code implements the abstract pool: whatever the threads do, spurious
  wake-ups and cancellation included, the abstract state is one that the abstract pool reaches,
  each further step is a step of it or changes nothing, and the queue in memory is its line.
\<close>

theorem pool_refines_job_server:
  assumes "pool_steps n call q (pool_start js) s" and "queue_at q js []" and "jobs_ok js"
  shows "serve_steps n no_jobs (pool_abs s) \<and> queue_at q (run_jobs s) (waiting (pool_abs s))
    \<and> (\<forall>t. pool_step n call q s t \<longrightarrow> pool_abs t = pool_abs s \<or> serve_step n (pool_abs s) (pool_abs t))"
proof -
  have start: "pool_inv q (pool_start js)" using assms(2,3) by (rule pool_inv_start)
  from sp.runs_simulated [OF assms(1) this] have run: "serve_steps n no_jobs (pool_abs s)" "pool_inv q s"
    by (simp_all add: pool_abs_start)
  obtain as where as: "jobs_inv q s as" using run(2) by (auto simp: pool_inv_def)
  then have "queue_at q (run_jobs s) as" by (simp add: jobs_inv_def queue_inv_def)
  with run pool_simulated [OF run(2)] waiting_jobs [OF as] show ?thesis by auto
qed

theorem pool_refines_job_server_witness:
  "\<exists>s. serve_steps 2 no_jobs (pool_abs s) \<and> waiting (pool_abs s) = [0, 1]
    \<and> queue_at 0 (run_jobs (s :: (nat, nat, nat) pool_run)) [0, 1]"
proof -
  obtain s where s: "pool_moves 2 plus_one 0 busy_moves (pool_start jobs_start) = Some s"
      "shown 2 s = ([WWoken, WWoken], [CIdle, CIdle], [Added 0, Added 1], None)"
    using full_run by (elim exE conjE) (rule that)
  then have "waiting (pool_abs s) = [0, 1]" by (simp add: pool_abs_def shown_def history_defs)
  with pool_refines_job_server [OF pool_moves_steps [OF s(1)] jobs_start_ok] show ?thesis by auto
qed

lemma pool_one_place:
  assumes "pool_steps n call q (pool_start js) s" and "queue_at q js []" and "jobs_ok js"
  shows "one_place (pool_abs s)"
  using assms(1) pool_inv_start [OF assms(2,3)]
  by (rule sp.transfers) (use one_place_start one_place_step in \<open>auto simp: pool_abs_start\<close>)

text \<open>
  a job is in one place: waiting once, or with one worker, or finished; this holds in the
  abstract pool and so in the code's.
\<close>

theorem job_in_one_place:
  assumes "pool_steps n call q (pool_start js) s" and "queue_at q js []" and "jobs_ok js"
  shows "distinct (waiting (pool_abs s)) \<and> (in_hand (worker_at s v) = [a] \<and> in_hand (worker_at s w) = [a] \<longrightarrow> v = w)
    \<and> (in_hand (worker_at s w) = [a] \<longrightarrow> a \<notin> set (waiting (pool_abs s)) \<and> Finished v a \<notin> set (history s))"
proof -
  have "one_place (pool_abs s)" using assms by (rule pool_one_place)
  moreover have "running (pool_abs s) w = Some a" if "in_hand (worker_at s w) = [a]" for w using that by (simp add: running_abs)
  moreover have "a \<in> finished (pool_abs s)" if "Finished v a \<in> set (history s)" for v using that by (auto simp: pool_abs_def)
  ultimately show ?thesis unfolding one_place_def by (metis IntI UnI2 domI empty_iff inj_onD ranI)
qed

theorem job_in_one_place_witness:
  "\<exists>s. worker_at (s :: (nat, nat, nat) pool_run) 0 = WUnlock (Some 0) \<and> in_hand (worker_at s 1) \<noteq> [0]"
proof -
  let ?ms = "busy_moves @ replicate 2 (MWorker 0)"
  have "map_option (\<lambda>s. worker_at s 0) (pool_moves 2 plus_one 0 ?ms (pool_start jobs_start)) = Some (WUnlock (Some 0))"
    by code_simp
  then obtain s where s: "pool_moves 2 plus_one 0 ?ms (pool_start jobs_start) = Some s" "worker_at s 0 = WUnlock (Some 0)"
    by (elim map_option_SomeE) (rule that)
  from job_in_one_place [OF pool_moves_steps [OF s(1)] jobs_start_ok, of 0 0 1] s(2) show ?thesis
    by (intro exI [of _ s]) auto
qed

end
