(* ===== verification/Server.thy ===== *)
theory Server
  imports Worker Threadpool
begin

section \<open>The life of a server (include/net/server.h, src/net/server.c)\<close>

text \<open>
  The life cycle of a server: it is made for an address, may be given a certificate, a router
  and a resource loader, and runs its accept loop until it is told to stop. The answers of the
  system are the record \<open>system\<close>; the connections that arrive are the argument of
  \<open>accept_loop\<close>, each with the moment at which a signal stops the server, if one does.
\<close>

subsection \<open>Data\<close>

datatype httpserv_httpserver_addr_kind_t =
    HTTPSERV_HTTPSERVER_ADDR_KIND_IPv4
  | HTTPSERV_HTTPSERVER_ADDR_KIND_IPv6

text \<open>A socket address: the address as \<open>inet_pton\<close> reads it, and the port.\<close>

datatype httpserv_httpserver_addr_t =
    SockaddrIn nat "16 word"
  | SockaddrIn6 nat "16 word"

record httpserv_httpserver_t =
  sv_conn :: httpserv_net_connector_t
  sv_ckind :: httpserv_net_connector_kind_t
  sv_addr :: httpserv_httpserver_addr_t
  sv_akind :: httpserv_httpserver_addr_kind_t
  sv_tp :: ref
  alive :: bool
  keep_alive :: bool
  sv_ip :: string
  sv_port :: "16 word"
  sv_router :: ref
  sv_resload :: ref

text \<open>The only function the server gives to the pool; it always returns \<open>NULL\<close>.\<close>

datatype work = Httpserv_worker

type_synonym server_pool = "(work, worker_data, unit) tp_state"

record server_world =
  s_net :: net
  s_pool :: server_pool

text \<open>What the system answers; a failed call sets the error text.\<close>

record system =
  inet_pton :: "httpserv_httpserver_addr_kind_t \<Rightarrow> string \<Rightarrow> nat option"
  new_socket :: "httpserv_httpserver_addr_kind_t \<Rightarrow> int"
  can_bind :: "int \<Rightarrow> httpserv_httpserver_addr_t \<Rightarrow> bool"
  can_listen :: "int \<Rightarrow> bool"
  error_text :: string
  can_spawn :: "nat \<Rightarrow> bool"

definition sockaddr :: "httpserv_httpserver_addr_kind_t \<Rightarrow> nat \<Rightarrow> 16 word \<Rightarrow> httpserv_httpserver_addr_t" where
  "sockaddr akind a port = (case akind of
     HTTPSERV_HTTPSERVER_ADDR_KIND_IPv4 \<Rightarrow> SockaddrIn a port
   | HTTPSERV_HTTPSERVER_ADDR_KIND_IPv6 \<Rightarrow> SockaddrIn6 a port)"

subsection \<open>Destroying a server\<close>

text \<open>It first waits for the server to stop running.\<close>

definition httpserv_httpserver_destroy :: "httpserv_httpserver_t option \<Rightarrow> server_world \<Rightarrow> server_world run" where
  "httpserv_httpserver_destroy server w = (case server of
     None \<Rightarrow> ret w
   | Some s \<Rightarrow>
       if alive s then None
       else
         bindX (lift_res (httpserv_net_connector_destroy (sv_conn s) (sv_ckind s) (s_net w))) (\<lambda>n.
         bindX (if sv_tp s \<noteq> None then threadpool_destroy (sv_tp s) (s_pool w) else ret (s_pool w)) (\<lambda>p.
           ret (w\<lparr>s_net := n, s_pool := p\<rparr>))))"

subsection \<open>Making a server\<close>

definition httpserv_httpserver_new :: "system \<Rightarrow> string \<Rightarrow> 16 word \<Rightarrow> httpserv_httpserver_addr_kind_t
    \<Rightarrow> server_world \<Rightarrow> (httpserv_httpserver_t option \<times> log_event list \<times> server_world) run" where
  "httpserv_httpserver_new sys ipaddr port akind w =
     (case inet_pton sys akind ipaddr of
       None \<Rightarrow> ret (None, [(ERR, ''failed to parse ip address: '' @ ipaddr)], w)
     | Some a \<Rightarrow>
         (let sck = new_socket sys akind;
              serv = \<lparr>sv_conn = SckConn sck, sv_ckind = HTTPSERV_NET_CONNECTOR_SCK, sv_addr = sockaddr akind a port,
                sv_akind = akind, sv_tp = None, alive = False, keep_alive = False, sv_ip = ipaddr, sv_port = port,
                sv_router = None, sv_resload = None\<rparr>
          in if sck < 0 then ret (None, [(ERR, ''failed to create socket: '' @ error_text sys)], w)
             else if \<not> can_bind sys sck (sv_addr serv) then
               bindX (httpserv_httpserver_destroy (Some serv) w) (\<lambda>w'.
                 ret (None, [(ERR, ''failed to bind socket: '' @ error_text sys)], w'))
             else ret (Some serv, [], w\<lparr>s_net := emit [Bound sck port] (s_net w)\<rparr>)))"

definition httpserv_httpserver_use_ssl :: "openssl \<Rightarrow> httpserv_httpserver_t option \<Rightarrow> string option \<Rightarrow> string option
    \<Rightarrow> net \<Rightarrow> (httpserv_httpserver_t option \<times> log_event list \<times> net) res" where
  "httpserv_httpserver_use_ssl lib srv privkeyfile certfile w = (case srv of
     None \<Rightarrow> Inr (None, [], w)
   | Some s \<Rightarrow>
       bindR (sck_conn (sv_conn s)) (\<lambda>sck.
       bindR (httpserv_ssl_init lib privkeyfile certfile w) (\<lambda>(r, ev, w1).
       bindR (conn_ssl (SslConn r)) (\<lambda>h.
         Inr (Some (s\<lparr>sv_ckind := HTTPSERV_NET_CONNECTOR_SSL, sv_conn := SslConn r\<rparr>), ev, SSL_set_fd h sck w1)))))"

definition httpserv_httpserver_add_router :: "httpserv_httpserver_t option \<Rightarrow> ref \<Rightarrow> httpserv_httpserver_t option" where
  "httpserv_httpserver_add_router srv r = map_option (\<lambda>s. s\<lparr>sv_router := r\<rparr>) srv"

definition httpserv_httpserver_add_resource_loader :: "httpserv_httpserver_t option \<Rightarrow> ref
    \<Rightarrow> httpserv_httpserver_t option" where
  "httpserv_httpserver_add_resource_loader srv l = map_option (\<lambda>s. s\<lparr>sv_resload := l\<rparr>) srv"

subsection \<open>Running a server\<close>

text \<open>
  Each call of \<open>accept\<close> returns a descriptor, or \<open>-1\<close>, which is not looked at. The signal
  handler clears \<open>keep_alive\<close>; what matters is whether it ran before the test behind
  \<open>accept\<close> or between that test and the loop's own. When no further connection comes,
  \<open>accept\<close> does not return.
\<close>

datatype interrupt = NoSignal | DuringAccept | AfterQueueing

definition accepted_conn :: "httpserv_httpserver_t \<Rightarrow> int \<Rightarrow> net \<Rightarrow> (httpserv_net_connector_t \<times> net) res" where
  "accepted_conn s sck n = (case sv_ckind s of
     HTTPSERV_NET_CONNECTOR_SCK \<Rightarrow> Inr (SckConn sck, n)
   | HTTPSERV_NET_CONNECTOR_SSL \<Rightarrow>
       bindR (ssl_conn (sv_conn s)) (\<lambda>p. bindR (deref p) (\<lambda>l.
         let (c, n1) = httpserv_ssl_init_conn (ssl_ctx l) sck n in Inr (SslConn (Some c), n1))))"

definition connection_data :: "httpserv_httpserver_t \<Rightarrow> httpserv_net_connector_t \<Rightarrow> worker_data" where
  "connection_data s conn = \<lparr>w_conn = Some conn, w_ckind = sv_ckind s, w_router = sv_router s, w_resload = sv_resload s\<rparr>"

fun accept_loop :: "(int \<times> interrupt) list \<Rightarrow> httpserv_httpserver_t \<Rightarrow> server_world
    \<Rightarrow> (httpserv_httpserver_t \<times> server_world) run" where
  "accept_loop [] s w = None"
| "accept_loop ((sck, sig) # rest) s w =
     bindX (lift_res (accepted_conn s sck (s_net w))) (\<lambda>(conn, n).
     if sig \<noteq> DuringAccept then
       bindX (threadpool_add_work True True (sv_tp s) (Some Httpserv_worker) (connection_data s conn) (s_pool w))
         (\<lambda>(_, _, p).
           if sig = AfterQueueing then ret (s\<lparr>keep_alive := False\<rparr>, w\<lparr>s_net := n, s_pool := p\<rparr>)
           else accept_loop rest s (w\<lparr>s_net := n, s_pool := p\<rparr>))
     else
       bindX (lift_res (httpserv_net_connector_destroy_connection conn (sv_ckind s) n)) (\<lambda>n1.
         ret (s\<lparr>keep_alive := False\<rparr>, w\<lparr>s_net := n1\<rparr>)))"

definition start_msg :: "httpserv_net_connector_kind_t \<Rightarrow> log_event" where
  "start_msg k = (case k of
     HTTPSERV_NET_CONNECTOR_SCK \<Rightarrow> (LOG, ''starting server...'')
   | HTTPSERV_NET_CONNECTOR_SSL \<Rightarrow> (LOG, ''starting server (SSL enabled)...''))"

definition httpserv_httpserver_run :: "system \<Rightarrow> (int \<times> interrupt) list \<Rightarrow> httpserv_httpserver_t \<Rightarrow> nat
    \<Rightarrow> server_world \<Rightarrow> (int \<times> log_event list \<times> httpserv_httpserver_t \<times> server_world) run" where
  "httpserv_httpserver_run sys conns s n w =
     bindX (lift_res (threadpool_new (can_spawn sys) n (s_pool w))) (\<lambda>(tp, p).
     bindX (lift_res (httpserv_net_connector_get_fd (sv_conn s) (sv_ckind s) (s_net w))) (\<lambda>srvfd.
     let s1 = s\<lparr>sv_tp := tp\<rparr>; w1 = w\<lparr>s_pool := p\<rparr> in
     if \<not> can_listen sys srvfd then
       ret (-1, [start_msg (sv_ckind s), (ERR, ''failed to listen on socket: '' @ error_text sys)], s1, w1)
     else
       bindX (accept_loop conns (s1\<lparr>keep_alive := True, alive := True\<rparr>)
           (w1\<lparr>s_net := emit [Listening srvfd] (s_net w1)\<rparr>)) (\<lambda>(s2, w2).
         ret (0, [start_msg (sv_ckind s), (LOG, ''server listening on '' @ sv_ip s @ '':'' @ dec (unat (sv_port s)))],
           s2\<lparr>alive := False\<rparr>, w2))))"

end
