(* ===== verification/ServerPool.thy ===== *)
theory ServerPool
  imports PoolSpec WorkerSpec Server
begin

section \<open>The workers of a server in its pool\<close>

text \<open>
  The pool of a server runs \<open>httpserv_httpserver_worker\<close>. Together: connections that can be
  settled are all settled as long as fewer clients hang than there are workers, and as many
  clients that hang hold the workers for ever. \<open>view d\<close> is the state that the worker of connection \<open>d\<close> finds: the router, the
  loader, and what arrives on the connection.
\<close>

definition server_call :: "'p worker_env \<Rightarrow> string \<Rightarrow> (worker_data \<Rightarrow> 'p world) \<Rightarrow> work \<Rightarrow> worker_data \<Rightarrow> unit option run" where
  "server_call env strerror view f d = (case f of Httpserv_worker \<Rightarrow>
     bindX (httpserv_httpserver_worker env d strerror (view d)) (\<lambda>_. ret None))"

subsection \<open>Connections that are answered\<close>

text \<open>A connection on which the contract of the worker promises the answer \<open>a\<close>.\<close>

definition promised :: "'p worker_env \<Rightarrow> worker_data \<Rightarrow> 'p world \<Rightarrow> channel \<Rightarrow> answer \<Rightarrow> bool" where
  "promised env d v ch a \<longleftrightarrow> (\<exists>es rt as. ready d v ch es rt as \<and> handshake (env_ssl_accept env) ch
     \<and> whole_mappings (env_files env) (w_resources v) as \<and> env_junk env = []
     \<and> a = answer_to env es rt (w_resources v) as (concat (arrivals (w_net v))) \<and> answer_fits env a)"

lemma promised_done:
  "promised env d v ch a \<Longrightarrow> carries_out ch strerror (w_net v) a (httpserv_httpserver_worker env d strerror v)"
  unfolding promised_def by (elim exE conjE) (simp add: worker_answers)

text \<open>A file, a new place, or a dropped connection; not undefined behaviour.\<close>

definition answerable :: "'p worker_env \<Rightarrow> worker_data \<Rightarrow> 'p world \<Rightarrow> bool" where
  "answerable env d v \<longleftrightarrow> (\<exists>ch a. promised env d v ch a \<and> settled a)"

lemma answerable_answer:
  "answerable env d v \<Longrightarrow> \<exists>ch a. promised env d v ch a \<and> settled a
    \<and> carries_out ch strerror (w_net v) a (httpserv_httpserver_worker env d strerror v)"
  using promised_done unfolding answerable_def by blast

lemma answerable_returns: "answerable env d (view d) \<Longrightarrow> server_call env strerror view f d = ret None"
  using answerable_answer [of env d "view d" strerror] settled_returns
  by (cases f) (fastforce simp: server_call_def ret_def)

text \<open>The connections of all jobs there are.\<close>

definition connections :: "(work, worker_data, 'r) job_state \<Rightarrow> worker_data set" where
  "connections js = {d. \<exists>a f r. payload_at js a = Some (Some f, d, r)}"

subsection \<open>Clients that hang\<close>

text \<open>
  The client stops, or closes the connection, in the middle of its request; or there is a NUL
  byte in it.
\<close>

definition hangs :: "'p worker_env \<Rightarrow> worker_data \<Rightarrow> 'p world \<Rightarrow> bool" where
  "hangs env d v \<longleftrightarrow> (\<exists>conn ch. w_conn d = Some conn \<and> channel_of conn (w_ckind d) = Some ch
     \<and> handshake (env_ssl_accept env) ch \<and> endless (concat (arrivals (w_net v))))"

lemma hangs_blocks: "hangs env d (view d) \<Longrightarrow> server_call env strerror view f d = None"
  using worker_no_blank [of d _ _ env "view d" strerror] by (cases f) (auto simp: hangs_def server_call_def endless_def)

lemma hangs_not_answerable: "hangs env d (view d) \<Longrightarrow> \<not> answerable env d (view d)"
  using hangs_blocks [of env d view "[]" Httpserv_worker] answerable_returns [of env d view "[]" Httpserv_worker]
  by (auto simp: ret_def)

text \<open>The jobs whose client hangs.\<close>

definition hung_jobs :: "'p worker_env \<Rightarrow> (worker_data \<Rightarrow> 'p world) \<Rightarrow> (work, worker_data, 'r) job_state \<Rightarrow> nat set" where
  "hung_jobs env view js = {a. \<exists>f d r. payload_at js a = Some (Some f, d, r) \<and> hangs env d (view d)}"

lemma finite_hung: "jobs_ok js \<Longrightarrow> finite (hung_jobs env view js)"
  by (rule finite_subset [of _ "{..<fresh (jobs js)}"])
    (auto simp: hung_jobs_def payload_at_def jobs_ok_def wf_store_def)

lemma stuck_hangs:
  assumes "\<forall>d \<in> connections js. answerable env d (view d) \<or> hangs env d (view d)"
    and "stuck (server_call env strerror view) js a"
  shows "a \<in> hung_jobs env view js"
proof -
  obtain f d r where d: "payload_at js a = Some (Some f, d, r)" "\<not> (\<exists>v. server_call env strerror view f d = ret v)"
    using assms(2) by (auto simp: stuck_def)
  then have "\<not> answerable env d (view d)" using answerable_returns [of env d view strerror f] by blast
  with assms(1) d(1) show ?thesis unfolding hung_jobs_def connections_def by blast
qed

text \<open>Each worker that is stuck has a job of its own.\<close>

lemma not_all_stuck:
  assumes place: "one_place (pool_abs s)" and stuck: "\<forall>w < n. \<exists>a \<in> H. worker_at s w = WRun a"
    and fin: "finite H" and few: "card H < n"
  shows False
proof -
  obtain a where a: "a w \<in> H \<and> worker_at s w = WRun (a w)" if "w < n" for w using stuck by metis
  have "running (pool_abs s) w = Some (a w)" if "w < n" for w using a [OF that] by (simp add: running_abs)
  with place have "inj_on a {..<n}" unfolding one_place_def inj_on_def by (metis domI lessThan_iff)
  then have "n = card (a ` {..<n})" by (simp add: card_image)
  also have "\<dots> \<le> card H" using a by (intro card_mono [OF fin]) auto
  finally show False using few by simp
qed

text \<open>Where a run ends while fewer clients hang than there are workers, one worker is asleep.\<close>

lemma rest_serves_others:
  assumes "pool_steps n (server_call env strerror view) q (pool_start js) s" and "queue_at q js []" and "jobs_ok js"
    and "cancelled s = {}"
    and "\<forall>d \<in> connections (run_jobs s). answerable env d (view d) \<or> hangs env d (view d)"
    and "card (hung_jobs env view (run_jobs s)) < n" and "work_steps n (server_call env strerror view) q s t"
    and rest: "\<not> (\<exists>u. work_step n (server_call env strerror view) q t u)"
  shows "queue_at q (run_jobs t) []
    \<and> (\<forall>a f d r. a \<in> set (added_in (history t)) \<and> payload_at (run_jobs t) a = Some (Some f, d, r)
        \<and> answerable env d (view d) \<longrightarrow> (\<exists>w. Finished w a \<in> set (history t)))"
proof -
  let ?call = "server_call env strerror view"
  have inv: "pool_inv q s" using pool_steps_all [OF assms(1-3)] by blast
  have same: "payload_at (run_jobs t) a = payload_at (run_jobs s) a" for a
    using work_steps_payload [OF assms(7) inv] by blast
  then have conns: "connections (run_jobs t) = connections (run_jobs s)"
    and hung: "hung_jobs env view (run_jobs t) = hung_jobs env view (run_jobs s)"
    by (simp_all add: hung_jobs_def connections_def)
  have ok: "jobs_ok (run_jobs s)" using inv by (auto simp: pool_inv_def jobs_inv_def queue_inv_def)
  have "pool_steps n ?call q (pool_start js) t" using assms(1) work_pool_steps [OF assms(7)] by (rule ps.steps_compose)
  then have place: "one_place (pool_abs t)" using pool_one_place assms(2,3) by blast
  have stuck: "a \<in> hung_jobs env view (run_jobs s)" if "stuck ?call (run_jobs t) a" for a
    using stuck_hangs [OF _ that] assms(5) unfolding hung conns by blast
  note held = runs_end_held [OF assms(1-4,7) rest]
  have asleep: "\<exists>w < n. worker_at t w = WAsleep"
  proof (rule ccontr)
    assume "\<not> (\<exists>w < n. worker_at t w = WAsleep)"
    with held stuck have "\<forall>w < n. \<exists>a \<in> hung_jobs env view (run_jobs s). worker_at t w = WRun a" by blast
    from not_all_stuck [OF place this finite_hung [OF ok] assms(6)] show False .
  qed
  have "\<exists>w. Finished w a \<in> set (history t)" if a: "a \<in> set (added_in (history t))"
    "payload_at (run_jobs t) a = Some (Some f, d, r)" "answerable env d (view d)" for a f d r
  proof (rule ccontr)
    assume "\<not> (\<exists>w. Finished w a \<in> set (history t))"
    with held asleep a(1) obtain w where "w < n" "worker_at t w = WRun a" by blast
    with held have "stuck ?call (run_jobs t) a" by fastforce
    then have "hangs env d (view d)" using stuck a(2) same unfolding hung_jobs_def by fastforce
    with hangs_not_answerable a(3) show False by blast
  qed
  with held asleep show "queue_at q (run_jobs t) []
    \<and> (\<forall>a f d r. a \<in> set (added_in (history t)) \<and> payload_at (run_jobs t) a = Some (Some f, d, r)
        \<and> answerable env d (view d) \<longrightarrow> (\<exists>w. Finished w a \<in> set (history t)))" by blast
qed

subsection \<open>Workers that are held\<close>

text \<open>A worker is held when the work of its job never returns.\<close>

definition held :: "('f \<Rightarrow> 'a \<Rightarrow> 'r option run) \<Rightarrow> ('f, 'a, 'r) pool_run \<Rightarrow> nat \<Rightarrow> nat \<Rightarrow> bool" where
  "held call s w a \<longleftrightarrow> worker_at s w = WRun a
     \<and> (\<exists>f x r. payload_at (run_jobs s) a = Some (Some f, x, r) \<and> call f x = None)"

lemma held_cannot_run:
  assumes ok: "jobs_ok (run_jobs s)" and held: "held call s w a"
  shows "run_job call w a (run_jobs s) = None"
proof -
  obtain f x r j where j: "cells (jobs (run_jobs s)) a = Some j" "job_function j = Some f" "call f (job_arg j) = None"
    using held by (auto simp: held_def payload_at_def payload_def)
  obtain y z where yz: "job_jres j = Some y" "cells (results (run_jobs s)) y = Some z" "\<not> jr_mutex z"
    using ok j(1) unfolding jobs_ok_def by blast
  have "threadpool_job_exec call (Some a) (run_jobs s) = None" using exec_outcome [OF j(1) yz, of call] j(2,3) by simp
  then show ?thesis by (simp add: run_job_def)
qed

lemma held_stays:
  assumes inv: "pool_inv q s" and held: "held call s w a" and step: "pool_step n call q s t"
  shows "held call t w a"
proof -
  have at: "worker_at s w = WRun a" and live: "payload_at (run_jobs s) a \<noteq> None" using held by (auto simp: held_def)
  have "jobs_ok (run_jobs s)" using inv by (auto simp: pool_inv_def jobs_inv_def queue_inv_def)
  note stuck = held_cannot_run [OF this held]
  from step have "worker_at t w = WRun a"
    by (rule pool_stepE; (elim worker_stepE client_stepE begin_stepE cancel_stepE)?) (use at stuck in \<open>auto simp: ret_def\<close>)
  with held pool_payload [OF inv step live] show ?thesis by (simp add: held_def)
qed

text \<open>When all workers are held, jobs are only added.\<close>

lemma all_held_step:
  assumes inv: "pool_inv q s" and held: "\<forall>w < n. \<exists>a. held call s w a" and step: "pool_step n call q s t"
  shows "taken_in (history t) = taken_in (history s) \<and> (\<forall>w. worker_finished w (history t) = worker_finished w (history s))"
proof -
  have ok: "jobs_ok (run_jobs s)" using inv by (auto simp: pool_inv_def jobs_inv_def queue_inv_def)
  have run: "\<exists>a. worker_at s w = WRun a \<and> run_job call w a (run_jobs s) = None" if "w < n" for w
    using held that held_cannot_run [OF ok] by (auto simp: held_def)
  from step show ?thesis
  proof cases
    case (worker w)
    from run [OF worker(1)] obtain a where "worker_at s w = WRun a" "run_job call w a (run_jobs s) = None" by blast
    with worker(2) show ?thesis by cases (auto simp: ret_def)
  next
    case (client c)
    then show ?thesis by cases auto
  next
    case (starts c)
    then show ?thesis by cases auto
  next
    case (cancels w)
    from cancels(2) show ?thesis by cases auto
  qed auto
qed

lemma all_held_steps:
  assumes run: "pool_steps n call q s t" and inv: "pool_inv q s" and held: "\<forall>w < n. held call s w (a w)"
  shows "(\<forall>w < n. held call t w (a w)) \<and> taken_in (history t) = taken_in (history s)
    \<and> (\<forall>w. worker_finished w (history t) = worker_finished w (history s))"
proof (rule pool_steps_keep [OF run inv])
  fix x y assume inv: "pool_inv q x" and x: "(\<forall>w < n. held call x w (a w)) \<and> taken_in (history x) = taken_in (history s)
    \<and> (\<forall>w. worker_finished w (history x) = worker_finished w (history s))" and step: "pool_step n call q x y"
  have "\<forall>w < n. \<exists>b. held call x w b" using x by blast
  from all_held_step [OF inv this step] held_stays [OF inv _ step] x
  show "(\<forall>w < n. held call y w (a w)) \<and> taken_in (history y) = taken_in (history s)
    \<and> (\<forall>w. worker_finished w (history y) = worker_finished w (history s))" by simp
qed (use held in simp)

subsection \<open>Examples\<close>

text \<open>One worker takes the job that one client adds.\<close>

definition single_moves :: "'f \<Rightarrow> 'a \<Rightarrow> ('f, 'a) pool_move list" where
  "single_moves f x = [MNew 0 (Some f) x, MClient 0, MClient 0, MClient 0, MClient 0, MWorker 0, MWorker 0, MWorker 0]"

definition new_queue :: "('f, 'a, 'r) job_state" where
  "new_queue = snd (threadpool_job_queue_new \<lparr>jobs = empty_store, results = empty_store, queues = empty_store\<rparr>)"

lemma new_queue_ok: "queue_at 0 (new_queue :: ('f, 'a, 'r) job_state) []" "jobs_ok (new_queue :: ('f, 'a, 'r) job_state)"
proof -
  show "queue_at 0 (new_queue :: ('f, 'a, 'r) job_state) []"
    by (auto simp: new_queue_def threadpool_job_queue_new_def alloc_def empty_store_def queue_at_def)
  show "jobs_ok (new_queue :: ('f, 'a, 'r) job_state)"
    by (simp add: new_queue_def threadpool_job_queue_new_def alloc_def jobs_ok_def own_results_def empty_store_def wf_store_def)
qed

lemma single_run:
  "\<exists>s. pool_moves 1 call 0 (single_moves f x) (pool_start (new_queue :: ('f, 'a, 'r) job_state)) = Some s
    \<and> worker_at s 0 = WRun 0 \<and> payload_at (run_jobs s) 0 = Some (Some f, x, Some 0) \<and> cancelled s = {}
    \<and> (\<forall>a. a \<noteq> 0 \<longrightarrow> payload_at (run_jobs s) a = None)"
  by (simp add: single_moves_def new_queue_def pool_start_def empty_store_def threadpool_job_queue_new_def
      threadpool_job_new_def threadpool_job_result_new_def client_next_def worker_next_def alloc_def heap_simps
      threadpool_job_queue_add_job_def threadpool_job_queue_pop_job_def payload_at_def payload_def ret_def lock_def unlock_def)

text \<open>Two jobs are in the queue, and no worker has moved.\<close>

definition double_moves :: "'f \<Rightarrow> 'a \<Rightarrow> 'a \<Rightarrow> ('f, 'a) pool_move list" where
  "double_moves f x y = MNew 0 (Some f) x # replicate 4 (MClient 0) @ MNew 0 (Some f) y # replicate 4 (MClient 0)"

lemma double_run:
  "\<exists>s. pool_moves 2 call 0 (double_moves f x y) (pool_start (new_queue :: ('f, 'a, 'r) job_state)) = Some s
    \<and> payload_at (run_jobs s) 0 = Some (Some f, x, Some 0) \<and> payload_at (run_jobs s) 1 = Some (Some f, y, Some 1)
    \<and> cancelled s = {} \<and> (\<forall>a. a \<noteq> 0 \<and> a \<noteq> 1 \<longrightarrow> payload_at (run_jobs s) a = None)"
  by (simp add: double_moves_def numeral_eq_Suc new_queue_def pool_start_def empty_store_def threadpool_job_queue_new_def
      threadpool_job_new_def threadpool_job_result_new_def client_next_def alloc_def heap_simps
      threadpool_job_queue_add_job_def payload_at_def payload_def ret_def lock_def unlock_def)

definition hung_data :: worker_data where
  "hung_data = example_data\<lparr>w_conn := Some (SckConn 6)\<rparr>"

lemma half_request: "endless ''GET / HTT''"
  by code_simp

lemma hello_answerable:
  assumes "router_has 0 rs []"
  shows "answerable (example_env hello_files) example_data (example_world rs hello_input)"
proof -
  have "promised (example_env hello_files) example_data (example_world rs hello_input) (Plain 5)
      (Served [(LOG, ''request: GET /a'')] ''hello'')"
    unfolding promised_def using example_ready [OF assms] hello_answer
    by (intro exI [of _ "[]"] exI [of _ "''.''"] conjI) simp_all
  then show ?thesis unfolding answerable_def by (intro exI conjI) (assumption, simp)
qed

subsection \<open>Properties\<close>

text \<open>
  C16: a server with \<open>n\<close> threads serves all others as long as fewer than \<open>n\<close> clients hang: when
  every connection either hangs or carries input whose answer is not undefined behaviour, and
  fewer than \<open>n\<close> hang, every run of the workers is finite whatever the scheduler does, and where
  it ends no connection is waiting and each answerable one has been handled by a worker, which
  carried out the answer promised for it.
\<close>

theorem served_despite_hung_clients:
  assumes "pool_steps n (server_call env strerror view) q (pool_start js) s" and "queue_at q js []" and "jobs_ok js"
    and "cancelled s = {}"
    and "\<forall>d \<in> connections (run_jobs s). answerable env d (view d) \<or> hangs env d (view d)"
    and "card (hung_jobs env view (run_jobs s)) < n"
  shows "\<not> (\<exists>f. f 0 = s \<and> (\<forall>i. work_step n (server_call env strerror view) q (f i) (f (Suc i))))
    \<and> (\<forall>t. work_steps n (server_call env strerror view) q s t \<longrightarrow> (\<exists>u. work_step n (server_call env strerror view) q t u)
        \<or> queue_at q (run_jobs t) [] \<and> (\<forall>a f d r. a \<in> set (added_in (history t)) \<and> payload_at (run_jobs t) a = Some (Some f, d, r)
            \<and> answerable env d (view d) \<longrightarrow> (\<exists>w. Finished w a \<in> set (history t))
          \<and> (\<exists>ch b. promised env d (view d) ch b \<and> settled b
              \<and> carries_out ch strerror (w_net (view d)) b (httpserv_httpserver_worker env d strerror (view d)))))"
proof (intro conjI allI impI)
  let ?call = "server_call env strerror view"
  show "\<not> (\<exists>f. f 0 = s \<and> (\<forall>i. work_step n ?call q (f i) (f (Suc i))))" by (rule pool_runs_end [OF assms(1-3)])
  fix t assume "work_steps n ?call q s t"
  from rest_serves_others [OF assms this] answerable_answer [of env _ "view _" strerror]
  show "(\<exists>u. work_step n ?call q t u) \<or> queue_at q (run_jobs t) []
      \<and> (\<forall>a f d r. a \<in> set (added_in (history t)) \<and> payload_at (run_jobs t) a = Some (Some f, d, r)
            \<and> answerable env d (view d) \<longrightarrow> (\<exists>w. Finished w a \<in> set (history t))
          \<and> (\<exists>ch b. promised env d (view d) ch b \<and> settled b
              \<and> carries_out ch strerror (w_net (view d)) b (httpserv_httpserver_worker env d strerror (view d))))" by blast
qed

theorem served_despite_hung_clients_witness:
  "\<exists>rs view s v'. payload_at (run_jobs s) 0 = Some (Some Httpserv_worker, example_data, Some 0)
    \<and> payload_at (run_jobs s) 1 = Some (Some Httpserv_worker, hung_data, Some 1)
    \<and> view example_data = example_world rs hello_input \<and> view hung_data = example_world rs [''GET / HTT'']
    \<and> (\<forall>t. work_steps 2 (server_call (example_env hello_files) [] view) 0 s t
        \<longrightarrow> \<not> (\<exists>u. work_step 2 (server_call (example_env hello_files) [] view) 0 t u)
        \<longrightarrow> 0 \<in> set (added_in (history t)) \<longrightarrow> (\<exists>w. Finished w 0 \<in> set (history t)))
    \<and> httpserv_httpserver_worker (example_env hello_files) example_data [] (view example_data) = ret v'"
proof -
  obtain rs :: "string router_state" where rs: "router_has 0 rs []" using no_routes by blast
  define view where "view = (\<lambda>d. if d = hung_data then example_world rs [''GET / HTT''] else example_world rs hello_input)"
  let ?env = "example_env hello_files" and ?call = "server_call (example_env hello_files) [] view"
  have views: "view hung_data = example_world rs [''GET / HTT'']" "view example_data = example_world rs hello_input"
    by (simp_all add: view_def hung_data_def example_data_def)
  have yes: "answerable ?env example_data (view example_data)" unfolding views
    by (rule hello_answerable [OF rs])
  have no: "hangs ?env hung_data (view hung_data)" unfolding views
    by (simp add: hangs_def hung_data_def example_data_def half_request example_env_def exI [of _ "Plain 6"])
  obtain s where s: "pool_moves 2 ?call 0 (double_moves Httpserv_worker example_data hung_data)
      (pool_start (new_queue :: (work, worker_data, unit) job_state)) = Some s"
    "payload_at (run_jobs s) 0 = Some (Some Httpserv_worker, example_data, Some 0)"
    "payload_at (run_jobs s) 1 = Some (Some Httpserv_worker, hung_data, Some 1)" "cancelled s = {}"
    "\<forall>a. a \<noteq> 0 \<and> a \<noteq> 1 \<longrightarrow> payload_at (run_jobs s) a = None"
    using double_run [of ?call Httpserv_worker example_data hung_data] by (elim exE conjE) (rule that)
  have jobs: "(a, d) \<in> {(0, example_data), (1, hung_data)}" if "payload_at (run_jobs s) a = Some (Some f, d, r)" for a f d r
    using that s(2,3,5) by (cases "a = 0"; cases "a = 1") auto
  have 1: "\<forall>d \<in> connections (run_jobs s). answerable ?env d (view d) \<or> hangs ?env d (view d)"
    using jobs yes no unfolding connections_def by blast
  have sub: "hung_jobs ?env view (run_jobs s) \<subseteq> {1}"
    using jobs yes hangs_not_answerable [of ?env example_data view] unfolding hung_jobs_def by blast
  have 2: "card (hung_jobs ?env view (run_jobs s)) < 2" using card_mono [OF _ sub] by simp
  note main = served_despite_hung_clients [OF pool_moves_steps [OF s(1)] new_queue_ok s(4) 1 2, THEN conjunct2, THEN spec, THEN mp]
  have inv: "pool_inv 0 s" using pool_steps_all [OF pool_moves_steps [OF s(1)] new_queue_ok] by blast
  have "\<exists>w. Finished w 0 \<in> set (history t)" if t: "work_steps 2 ?call 0 s t" "\<not> (\<exists>u. work_step 2 ?call 0 t u)"
    "0 \<in> set (added_in (history t))" for t
  proof -
    have "payload_at (run_jobs t) 0 = Some (Some Httpserv_worker, example_data, Some 0)"
      using work_steps_payload [OF t(1) inv] s(2) by simp
    with main [OF t(1)] t(2,3) yes show ?thesis by blast
  qed
  moreover obtain v' where "httpserv_httpserver_worker ?env example_data [] (view example_data) = ret v'"
    using answerable_answer [OF yes] settled_returns by blast
  ultimately show ?thesis using s(2,3) views
    by (intro exI [of _ rs] exI [of _ view] exI [of _ s] exI [of _ v'] conjI) simp_all
qed

text \<open>
  C17: when every worker handles a connection that was closed in the middle of its request, or
  one with a NUL byte in it, the server is held for ever: whatever the threads do, the workers stay where they are, and no
  connection is taken or finished any more.
\<close>

theorem closed_connections_hold_server:
  assumes "pool_steps n (server_call env strerror view) q (pool_start js) s" and "queue_at q js []" and "jobs_ok js"
    and "\<forall>w < n. \<exists>a d r. worker_at s w = WRun a \<and> payload_at (run_jobs s) a = Some (Some Httpserv_worker, d, r)
      \<and> hangs env d (view d)"
    and "pool_steps n (server_call env strerror view) q s t"
  shows "(\<forall>w < n. worker_at t w = worker_at s w) \<and> taken_in (history t) = taken_in (history s)
    \<and> (\<forall>w. worker_finished w (history t) = worker_finished w (history s))"
proof -
  have "\<exists>a. held (server_call env strerror view) s w a" if "w < n" for w
  proof -
    from assms(4) that obtain a d r where d: "worker_at s w = WRun a"
      "payload_at (run_jobs s) a = Some (Some Httpserv_worker, d, r)" "hangs env d (view d)" by blast
    have "server_call env strerror view Httpserv_worker d = None" using d(3) by (rule hangs_blocks)
    with d(1,2) show ?thesis unfolding held_def by blast
  qed
  then obtain a where a: "\<forall>w < n. held (server_call env strerror view) s w (a w)" by metis
  have "pool_inv q s" using pool_steps_all [OF assms(1-3)] by blast
  from all_held_steps [OF assms(5) this a] a show ?thesis by (simp add: held_def)
qed

theorem closed_connections_hold_server_witness:
  "\<exists>s. worker_at s 0 = WRun 0 \<and> (\<forall>t. pool_steps 1 (server_call (example_env hello_files) []
      (\<lambda>_. example_world empty_router_state [''GET / HTT''])) 0 s t \<longrightarrow> worker_at t 0 = WRun 0)"
proof -
  let ?v = "example_world empty_router_state [''GET / HTT'']"
  let ?call = "server_call (example_env hello_files) [] (\<lambda>_. ?v)"
  obtain s where s: "pool_moves 1 ?call 0 (single_moves Httpserv_worker example_data)
      (pool_start (new_queue :: (work, worker_data, unit) job_state)) = Some s"
    "worker_at s 0 = WRun 0" "payload_at (run_jobs s) 0 = Some (Some Httpserv_worker, example_data, Some 0)"
    using single_run [of ?call Httpserv_worker example_data] by (elim exE conjE) (rule that)
  have "hangs (example_env hello_files) example_data ?v"
    by (simp add: hangs_def example_data_def half_request example_env_def)
  with s(2,3) have "\<forall>w < 1. \<exists>a d r. worker_at s w = WRun a \<and> payload_at (run_jobs s) a = Some (Some Httpserv_worker, d, r)
      \<and> hangs (example_env hello_files) d ?v" by auto
  from closed_connections_hold_server [OF pool_moves_steps [OF s(1)] new_queue_ok this] s(2) show ?thesis by auto
qed

end
