(* ===== verification/ThreadpoolProps.thy ===== *)
theory ThreadpoolProps
  imports PoolProgress
begin

section \<open>The owner of a pool: properties\<close>

text \<open>
  A pool as its owner sees it: made, given work, and destroyed. The workers of a pool that was
  made are running and detached; its queue holds the work in the order in which it was given.
\<close>

subsection \<open>A pool in the store\<close>

definition worker_up :: "('f, 'a, 'r) tp_state \<Rightarrow> ref \<Rightarrow> bool" where
  "worker_up st w \<longleftrightarrow> (\<exists>b x t th. w = Some b \<and> cells (pool_workers st) b = Some x \<and> wk_thread x = Some t
     \<and> cells (threads st) t = Some th \<and> detached th)"

definition tp_wf :: "('f, 'a, 'r) tp_state \<Rightarrow> bool" where
  "tp_wf st \<longleftrightarrow> wf_store (pool_workers st) \<and> wf_store (threads st) \<and> jobs_ok (tp_jobs st)"

text \<open>A pool with its workers running and the jobs \<open>as\<close> in its queue.\<close>

definition pool_at :: "nat \<Rightarrow> nat \<Rightarrow> ('f, 'a, 'r) tp_state \<Rightarrow> nat list \<Rightarrow> bool" where
  "pool_at p q st as \<longleftrightarrow> (\<exists>x. cells (pools st) p = Some x \<and> \<not> tp_mutex x \<and> tp_queue x = Some q
     \<and> 0 < numthreads x \<and> length (tp_workers x) = numthreads x \<and> (\<forall>w \<in> set (tp_workers x). worker_up st w))
     \<and> queue_at q (tp_jobs st) as \<and> tp_wf st"

lemma worker_new_up:
  assumes wf: "tp_wf st" and i: "spawns i"
  shows "\<exists>w st'. threadpool_worker_new spawns i p st = Inr (w, st') \<and> tp_wf st' \<and> worker_up st' w
    \<and> (\<forall>v. worker_up st v \<longrightarrow> worker_up st' v) \<and> pools st' = pools st \<and> tp_jobs st' = tp_jobs st"
proof -
  obtain w ws where w: "alloc (pool_workers st) \<lparr>wk_id = i, wk_thread = None\<rparr> = (w, ws)" by fastforce
  let ?st = "st\<lparr>pool_workers := ws\<rparr>"
  obtain d ds where d: "alloc (worker_datas st) \<lparr>wd_worker = Some w, wd_pool = p\<rparr> = (d, ds)" by fastforce
  let ?th = "\<lparr>start_arg = Some d, detached = True, cancel_asked = False\<rparr>"
  obtain t ts where t: "alloc (threads st) ?th = (t, ts)" by fastforce
  have ws: "wf_store ws" "cells (pool_workers st) w = None"
      "cells ws = (cells (pool_workers st))(w \<mapsto> \<lparr>wk_id = i, wk_thread = None\<rparr>)"
    using wf_store_alloc [OF _ w] wf by (auto simp: tp_wf_def)
  have ts: "wf_store ts" "cells (threads st) t = None" "cells ts = (cells (threads st))(t \<mapsto> ?th)"
    using wf_store_alloc [OF _ t] wf by (auto simp: tp_wf_def)
  let ?ws = "ws\<lparr>cells := (cells ws)(w \<mapsto> \<lparr>wk_id = i, wk_thread = Some t\<rparr>)\<rparr>"
  let ?st' = "st\<lparr>worker_datas := ds, threads := ts, pool_workers := ?ws\<rparr>"
  have run: "threadpool_worker_new spawns i p st = Inr (Some w, ?st')"
    using i w d t ws(3) by (simp add: threadpool_worker_new_def threadpool_worker_data_new_def heap_simps)
  have "wf_store ?ws" using ws by (intro wf_store_update) auto
  then have "tp_wf ?st'" using wf ts by (simp add: tp_wf_def)
  moreover have "worker_up ?st' (Some w)" using ts by (simp add: worker_up_def)
  moreover have "worker_up ?st' v" if v: "worker_up st v" for v
  proof -
    obtain b x u th where "v = Some b" "cells (pool_workers st) b = Some x" "wk_thread x = Some u"
      "cells (threads st) u = Some th" "detached th" using v by (auto simp: worker_up_def)
    moreover from this have "b \<noteq> w" "u \<noteq> t" using ws(2) ts(2) by auto
    ultimately show ?thesis using ws(3) ts(3) by (simp add: worker_up_def)
  qed
  ultimately show ?thesis using run by fastforce
qed

lemma spawn_workers_up:
  assumes "tp_wf st" and "\<forall>i \<in> set ks. spawns i"
  shows "\<exists>ws st'. spawn_workers spawns p ks st = Inr (ws, st') \<and> tp_wf st' \<and> length ws = length ks
    \<and> (\<forall>w \<in> set ws. worker_up st' w) \<and> (\<forall>v. worker_up st v \<longrightarrow> worker_up st' v)
    \<and> pools st' = pools st \<and> tp_jobs st' = tp_jobs st"
  using assms
proof (induction ks arbitrary: st)
  case (Cons i ks)
  then obtain w st1 where 1: "threadpool_worker_new spawns i p st = Inr (w, st1)" "tp_wf st1" "worker_up st1 w"
      "\<forall>v. worker_up st v \<longrightarrow> worker_up st1 v" "pools st1 = pools st" "tp_jobs st1 = tp_jobs st"
    using worker_new_up [of st spawns i p] by auto
  from Cons.IH [OF 1(2)] Cons.prems(2) obtain ws st2 where 2: "spawn_workers spawns p ks st1 = Inr (ws, st2)"
      "tp_wf st2" "length ws = length ks" "\<forall>w \<in> set ws. worker_up st2 w"
      "\<forall>v. worker_up st1 v \<longrightarrow> worker_up st2 v" "pools st2 = pools st1" "tp_jobs st2 = tp_jobs st1" by auto
  have "spawn_workers spawns p (i # ks) st = Inr (w # ws, st2)" using 1(1) 2(1) by simp
  with 1 2 show ?case by (intro exI [of _ "w # ws"] exI [of _ st2]) auto
qed simp

lemma pool_new_at:
  assumes wf: "tp_wf st" "wf_store (pools st)" and n: "0 < n" and up: "\<forall>i < n. spawns i"
  shows "\<exists>p q st'. threadpool_new spawns n st = Inr (Some p, st') \<and> pool_at p q st' []"
proof -
  obtain r js where q: "threadpool_job_queue_new (tp_jobs st) = (r, js)" by fastforce
  obtain q where r: "r = Some q" "queue_at q js []" "jobs js = jobs (tp_jobs st)" "same_jobs (tp_jobs st) js"
    using queue_new_at [OF q] by blast
  let ?p = "\<lparr>tp_workers = [], numthreads = n, tp_queue = r, tp_mutex = False\<rparr>"
  obtain p ps where p: "alloc (pools st) ?p = (p, ps)" by fastforce
  have ps: "cells ps p = Some ?p" using wf_store_alloc [OF wf(2) p] by simp
  let ?st = "st\<lparr>tp_jobs := js, pools := ps\<rparr>"
  have "tp_wf ?st" using wf(1) same_jobs_ok [OF r(4)] by (simp add: tp_wf_def)
  then obtain ws st1 where ws: "spawn_workers spawns (Some p) [0..<n] ?st = Inr (ws, st1)" "tp_wf st1"
      "length ws = n" "\<forall>w \<in> set ws. worker_up st1 w" "pools st1 = ps" "tp_jobs st1 = js"
    using spawn_workers_up [of ?st "[0..<n]" spawns "Some p"] up by auto
  let ?st' = "st1\<lparr>pools := ps\<lparr>cells := (cells ps)(p \<mapsto> ?p\<lparr>tp_workers := ws\<rparr>)\<rparr>\<rparr>"
  have "threadpool_new spawns n st = Inr (Some p, ?st')"
    using n q p ws(1,5) ps by (simp add: threadpool_new_def heap_simps)
  moreover have "worker_up ?st' w" if "w \<in> set ws" for w using ws(4) that by (simp add: worker_up_def)
  then have "pool_at p q ?st' []" using ws n r by (auto simp: pool_at_def tp_wf_def)
  ultimately show ?thesis by blast
qed

lemma add_work_at:
  assumes at: "pool_at p q st as"
  shows "\<exists>a r j st'. threadpool_add_work True True (Some p) f x st = ret (Some r, [], st')
    \<and> pool_at p q st' (as @ [a]) \<and> pools st' = pools st
    \<and> cells (jobs (tp_jobs st)) a = None
    \<and> cells (jobs (tp_jobs st')) a = Some j \<and> job_function j = f \<and> job_arg j = x \<and> job_jres j = Some r
    \<and> (\<forall>b. b \<noteq> a \<longrightarrow> map_option payload (cells (jobs (tp_jobs st')) b)
         = map_option payload (cells (jobs (tp_jobs st)) b))"
proof -
  obtain y where y: "cells (pools st) p = Some y" "\<not> tp_mutex y" "tp_queue y = Some q" "0 < numthreads y"
      "length (tp_workers y) = numthreads y" "\<forall>w \<in> set (tp_workers y). worker_up st w"
    and q: "queue_at q (tp_jobs st) as" and wf: "tp_wf st" using at by (auto simp: pool_at_def)
  have ok: "jobs_ok (tp_jobs st)" using wf by (simp add: tp_wf_def)
  obtain rj ev js where new: "threadpool_job_new True True f x (tp_jobs st) = (rj, ev, js)" by (metis prod_cases3)
  from job_new_outcome [OF ok new] obtain a j r where a: "rj = Some a" "ev = []" "jobs_ok js"
      "queues js = queues (tp_jobs st)" "cells (jobs (tp_jobs st)) a = None"
      "cells (jobs js) = (cells (jobs (tp_jobs st)))(a \<mapsto> j)" "job_function j = f" "job_arg j = x"
      "job_next j = None" "job_jres j = Some r" by blast
  from queue_at_new_job [OF q a(5,4,6,9)] have qa: "queue_at q js as" "a \<in> addable_jobs js as" by blast+
  from add_job_at [OF qa] obtain js1 where js1: "threadpool_job_queue_add_job (Some q) (Some a) js = ret js1"
      "queue_at q js1 (as @ [a])" "same_jobs js js1" by blast
  have same: "map_option payload (cells (jobs js1) b) = map_option payload (cells (jobs js) b)" for b
    using js1(3) by (simp add: same_jobs_def)
  obtain k where k: "cells (jobs js1) a = Some k" "payload k = payload j"
    using same [of a] a(6) by auto
  let ?st = "st\<lparr>tp_jobs := js1, pools := (pools st)\<lparr>cells := (cells (pools st))(p \<mapsto> y\<lparr>tp_mutex := False\<rparr>)\<rparr>\<rparr>"
  have yy: "y\<lparr>tp_mutex := False\<rparr> = y" using y(2) by simp
  have "(cells (pools st))(p \<mapsto> y) = cells (pools st)" using y(1) by auto
  then have st: "?st = st\<lparr>tp_jobs := js1\<rparr>" by (simp only: yy) simp
  have "threadpool_add_work True True (Some p) f x st = ret (Some r, [], ?st)"
    using new a(1,2) y(1-3) js1(1) k a(10) by (simp add: threadpool_add_work_def heap_simps ret_def payload_def)
  moreover have "pool_at p q (st\<lparr>tp_jobs := js1\<rparr>) (as @ [a])"
    using y js1(2) wf same_jobs_ok [OF js1(3) a(3)] by (auto simp: pool_at_def tp_wf_def worker_up_def)
  ultimately show ?thesis using st same a k
    by (intro exI [of _ a] exI [of _ r] exI [of _ k] exI [of _ "st\<lparr>tp_jobs := js1\<rparr>"]) (auto simp: payload_def)
qed

lemma destroy_at:
  assumes "pool_at p q st as"
  shows "threadpool_destroy (Some p) st = Some (Inl JoinDetached)"
proof -
  obtain y where y: "cells (pools st) p = Some y" "0 < numthreads y"
      "length (tp_workers y) = numthreads y" "\<forall>w \<in> set (tp_workers y). worker_up st w"
    using assms by (auto simp: pool_at_def)
  then obtain w ws where ws: "tp_workers y = w # ws" by (cases "tp_workers y") auto
  then have "take (numthreads y) (tp_workers y) = w # ws" using y(3) by simp
  moreover have "threadpool_worker_stop w st = Inl JoinDetached"
    using y(4) ws by (auto simp: worker_up_def threadpool_worker_stop_def heap_simps)
  ultimately show ?thesis using y(1) by (simp add: threadpool_destroy_def heap_simps)
qed

text \<open>What the jobs at the given addresses run: the function and its argument.\<close>

definition work_of :: "('f, 'a, 'r) tp_state \<Rightarrow> nat \<Rightarrow> ('f option \<times> 'a) option" where
  "work_of st a = map_option (\<lambda>j. (job_function j, job_arg j)) (cells (jobs (tp_jobs st)) a)"

lemma work_of_payload:
  "map_option payload (cells (jobs (tp_jobs st')) b) = map_option payload (cells (jobs (tp_jobs st)) b)
    \<Longrightarrow> work_of st' b = work_of st b"
  by (cases "cells (jobs (tp_jobs st')) b"; cases "cells (jobs (tp_jobs st)) b") (auto simp: work_of_def payload_def)

text \<open>Work that is added joins the end of the queue, and what was queued stays as it is.\<close>

lemma add_work_queue:
  assumes at: "pool_at p q st as"
  shows "\<exists>a r st'. threadpool_add_work True True (Some p) f x st = ret (Some r, [], st')
    \<and> pool_at p q st' (as @ [a]) \<and> map (work_of st') (as @ [a]) = map (work_of st) as @ [Some (f, x)]
    \<and> pools st' = pools st"
proof -
  from add_work_at [OF at, of f x] obtain a r j st' where st':
    "threadpool_add_work True True (Some p) f x st = ret (Some r, [], st')" "pool_at p q st' (as @ [a])"
    "cells (jobs (tp_jobs st)) a = None"
    "cells (jobs (tp_jobs st')) a = Some j" "job_function j = f" "job_arg j = x"
    "pools st' = pools st"
    and other: "\<And>b. b \<noteq> a \<Longrightarrow> map_option payload (cells (jobs (tp_jobs st')) b)
         = map_option payload (cells (jobs (tp_jobs st)) b)" by blast
  have "a \<notin> set as" using at st'(3) queue_at_fresh by (auto simp: pool_at_def)
  have "work_of st' b = work_of st b" if "b \<in> set as" for b
  proof -
    have "b \<noteq> a" using that \<open>a \<notin> set as\<close> by auto
    from other [OF this] show ?thesis by (rule work_of_payload)
  qed
  then have "map (work_of st') as = map (work_of st) as" by simp
  with st' show ?thesis by (auto simp: work_of_def)
qed

fun add_works :: "nat \<Rightarrow> ('f option \<times> 'a) list \<Rightarrow> ('f, 'a, 'r) tp_state \<Rightarrow> ('f, 'a, 'r) tp_state run" where
  "add_works p [] st = ret st"
| "add_works p ((f, x) # xs) st =
     bindX (threadpool_add_work True True (Some p) f x st) (\<lambda>(r, ev, st1). add_works p xs st1)"

lemma add_works_queue:
  assumes "pool_at p q st as"
  shows "\<exists>bs st'. add_works p xs st = ret st' \<and> pool_at p q st' bs
    \<and> map (work_of st') bs = map (work_of st) as @ map Some xs"
  using assms
proof (induction xs arbitrary: st as)
  case (Cons x xs)
  obtain f y where x: "x = (f, y)" by (cases x)
  from add_work_queue [OF Cons.prems, of f y] obtain a r st1 where 1:
    "threadpool_add_work True True (Some p) f y st = ret (Some r, [], st1)" "pool_at p q st1 (as @ [a])"
    "map (work_of st1) (as @ [a]) = map (work_of st) as @ [Some (f, y)]" by blast
  from Cons.IH [OF 1(2)] obtain bs st' where 2: "add_works p xs st1 = ret st'" "pool_at p q st' bs"
    "map (work_of st') bs = map (work_of st1) (as @ [a]) @ map Some xs" by blast
  have "add_works p (x # xs) st = ret st'" using 1(1) 2(1) x by (simp add: ret_def)
  moreover have "map (work_of st') bs = map (work_of st) as @ map Some (x # xs)"
    unfolding 2(3) 1(3) using x by simp
  ultimately show ?case using 2(2) by blast
qed (auto simp: ret_def)

subsection \<open>Properties\<close>

text \<open>
  C37: a pool of no threads is \<open>NULL\<close>. Any other pool takes all work it is given into its queue, in
  order; and it can never be destroyed: \<open>threadpool_destroy\<close> joins its first worker, whose
  thread was detached when it was made.
\<close>

theorem pool_lifecycle:
  assumes "tp_wf st" and "wf_store (pools st)" and "\<forall>i < n. spawns i"
  shows "if n = 0 then threadpool_new spawns n st = Inr (None, st)
    else \<exists>p q st1 as st2. threadpool_new spawns n st = Inr (Some p, st1) \<and> add_works p xs st1 = ret st2
      \<and> queue_at q (tp_jobs st2) as \<and> map (work_of st2) as = map Some xs
      \<and> threadpool_destroy (Some p) st2 = Some (Inl JoinDetached)"
proof (cases "n = 0")
  case True
  then show ?thesis by (simp add: threadpool_new_def)
next
  case False
  then obtain p q st1 where 1: "threadpool_new spawns n st = Inr (Some p, st1)" "pool_at p q st1 []"
    using pool_new_at [OF assms(1,2) _ assms(3)] by auto
  from add_works_queue [OF 1(2), of xs] obtain as st2 where 2: "add_works p xs st1 = ret st2" "pool_at p q st2 as"
    "map (work_of st2) as = map Some xs" by auto
  from destroy_at [OF 2(2)] 1(1) 2 False show ?thesis by (auto simp: pool_at_def)
qed

lemma no_pools_wf: "tp_wf no_pools" "wf_store (pools no_pools)"
  using jobs_ok_empty by (auto simp: tp_wf_def no_pools_def empty_jobs_def)

theorem pool_lifecycle_witness:
  "\<exists>p q as st1 st2. threadpool_new (\<lambda>_. True) 3 (no_pools :: (nat, nat, nat) tp_state) = Inr (Some p, st1)
    \<and> add_works p [(Some 1, 10), (None, 20)] st1 = ret st2 \<and> queue_at q (tp_jobs st2) as \<and> length as = 2
    \<and> threadpool_destroy (Some p) st2 = Some (Inl JoinDetached)"
proof -
  let ?xs = "[(Some 1, 10), (None, 20)] :: (nat option \<times> nat) list"
  obtain p q st1 as st2 where st: "threadpool_new (\<lambda>_. True) 3 (no_pools :: (nat, nat, nat) tp_state) = Inr (Some p, st1)"
    "add_works p ?xs st1 = ret st2" "queue_at q (tp_jobs st2) as" "map (work_of st2) as = map Some ?xs"
    "threadpool_destroy (Some p) st2 = Some (Inl JoinDetached)"
    using pool_lifecycle [OF no_pools_wf, of 3 "\<lambda>_. True" ?xs] unfolding if_not_P [OF zero_neq_numeral [symmetric]] by blast
  have "length as = 2" using arg_cong [OF st(4), of length] by simp
  with st show ?thesis by blast
qed

text \<open>
  \<open>threadpool_ensure_jobs_done\<close> does not do what its name and its comment say: there is a
  state of a running pool in which the queue is empty, so that the function returns at its
  first reading, while a worker holds a job that it has not finished and whose result cannot
  be awaited yet.
\<close>

theorem ensure_jobs_done_early:
  "\<exists>s p st. pool_steps 2 plus_one 0 (pool_start jobs_start) s \<and> worker_at s 1 = WRun 0
    \<and> tp_jobs st = run_jobs s \<and> queue_at 0 (run_jobs s) [] \<and> cells (pools st) p \<noteq> None
    \<and> threadpool_ensure_jobs_done (Some p) (\<lambda>_. 0) st = ret ()
    \<and> threadpool_job_result_await (Some 0) (run_jobs s) = None"
proof -
  let ?ms = "add_moves (Some 0) 10 @ [MClient 0, MClient 0] @ replicate 3 (MWorker 1)"
  have "map_option (\<lambda>s. (worker_at s 1, history s, threadpool_job_result_await (Some 0) (run_jobs s)))
      (pool_moves 2 plus_one 0 ?ms (pool_start jobs_start)) = Some (WRun 0, [Added 0, Taken 1 0], None)"
    by code_simp
  then obtain s where s: "pool_moves 2 plus_one 0 ?ms (pool_start jobs_start) = Some s" "worker_at s 1 = WRun 0"
      "history s = [Added 0, Taken 1 0]" "threadpool_job_result_await (Some 0) (run_jobs s) = None" by auto
  note run = pool_moves_steps [OF s(1)]
  have "added_in (history s) = [0]" "taken_in (history s) = [0]" unfolding s(3) by code_simp+
  moreover obtain as where "queue_at 0 (run_jobs s) as" "added_in (history s) = taken_in (history s) @ as"
    using run jobs_start_ok pool_steps_all [OF run jobs_start_ok] by (auto simp: pool_inv_def jobs_inv_def queue_inv_def)
  ultimately have q: "queue_at 0 (run_jobs s) []" by simp
  let ?p = "\<lparr>tp_workers = [], numthreads = 2, tp_queue = Some 0, tp_mutex = False\<rparr>"
  let ?st = "\<lparr>tp_jobs = run_jobs s, pools = \<lparr>cells = [0 \<mapsto> ?p], fresh = 1\<rparr>, pool_workers = empty_store,
      worker_datas = empty_store, threads = empty_store\<rparr>"
  have "threadpool_ensure_jobs_done (Some 0) (\<lambda>_. 0) ?st = ret ()"
    using q by (auto simp: threadpool_ensure_jobs_done_def heap_simps queue_at_def wait_for_zero.simps ret_def)
  with run s q show ?thesis by (intro exI [of _ s] exI [of _ 0] exI [of _ ?st]) auto
qed

end
