(* ===== verification/AcceptLoop.thy ===== *)
theory AcceptLoop
  imports Server Channel ThreadpoolProps
begin

section \<open>Accepting connections\<close>

text \<open>
  How a server comes about and what its connections are, for plain and SSL servers alike; and
  what a run of the accept loop queues.
\<close>

subsection \<open>The kind tells the member of the union\<close>

text \<open>How a server comes about: made once, then set up.\<close>

inductive built :: "httpserv_httpserver_t \<Rightarrow> bool" where
  built_new: "httpserv_httpserver_new sys ip port akind w = ret (Some s, ev, w') \<Longrightarrow> built s"
| built_ssl: "built s \<Longrightarrow> httpserv_httpserver_use_ssl lib (Some s) k c n = Inr (Some s', ev, n') \<Longrightarrow> built s'"
| built_router: "built s \<Longrightarrow> httpserv_httpserver_add_router (Some s) r = Some s' \<Longrightarrow> built s'"
| built_loader: "built s \<Longrightarrow> httpserv_httpserver_add_resource_loader (Some s) l = Some s' \<Longrightarrow> built s'"

definition server_ok :: "httpserv_httpserver_t \<Rightarrow> bool" where
  "server_ok s \<longleftrightarrow> (case sv_ckind s of
     HTTPSERV_NET_CONNECTOR_SCK \<Rightarrow> \<exists>f. sv_conn s = SckConn f \<and> 0 \<le> f
   | HTTPSERV_NET_CONNECTOR_SSL \<Rightarrow> \<exists>l h c k. sv_conn s = SslConn (Some l) \<and> ssl l = Some h
       \<and> certchains l = Some c \<and> privkey l = Some k)
     \<and> sv_tp s = None \<and> \<not> alive s"

lemma ssl_init_ok:
  "httpserv_ssl_init lib k c w = Inr (r, ev, w') \<Longrightarrow>
    (\<exists>l h c' k'. r = Some l \<and> ssl l = Some h \<and> certchains l = Some c' \<and> privkey l = Some k') \<or> r = None"
  by (auto simp: httpserv_ssl_init_def Let_def bindR_Inr_iff split: option.splits if_splits prod.splits)

lemma server_new_ok:
  "httpserv_httpserver_new sys ip port akind w = ret (Some s, ev, w') \<Longrightarrow> server_ok s"
  by (auto simp: httpserv_httpserver_new_def server_ok_def Let_def ret_def bindX_def
      split: option.splits if_splits sum.splits)

lemma use_ssl_ok:
  assumes "server_ok s" and "httpserv_httpserver_use_ssl lib (Some s) k c n = Inr (Some s', ev, n')"
  shows "server_ok s'"
  using assms ssl_init_ok
  by (fastforce simp: httpserv_httpserver_use_ssl_def bindR_Inr_iff conn_ssl_def deref_def server_ok_def
      split: option.splits prod.splits httpserv_net_connector_kind_t.splits)

lemma built_ok: "built s \<Longrightarrow> server_ok s"
proof (induction rule: built.induct)
  case (built_new sys ip port akind w s ev w')
  then show ?case by (rule server_new_ok)
next
  case (built_ssl s lib k c n s' ev n')
  then show ?case using use_ssl_ok by blast
qed (auto simp: httpserv_httpserver_add_router_def httpserv_httpserver_add_resource_loader_def server_ok_def
      split: httpserv_net_connector_kind_t.splits)

lemma accepted_ok:
  assumes "server_ok s"
  shows "\<exists>conn n'. accepted_conn s connfd n = Inr (conn, n') \<and> (\<exists>ch. channel_of conn (sv_ckind s) = Some ch)
    \<and> httpserv_net_connector_get_fd conn (sv_ckind s) n' = Inr connfd
    \<and> (\<exists>es \<in> {[], [SslFreed (next_obj n)]}.
         httpserv_net_connector_destroy_connection conn (sv_ckind s) n' = Inr (emit (Closed connfd # es) n'))"
  using assms
  by (auto simp: server_ok_def accepted_conn_def httpserv_ssl_init_conn_def SSL_new_def SSL_set_fd_def
      httpserv_net_connector_get_fd_def httpserv_net_connector_destroy_connection_def conn_ssl_def deref_def the_set_def Let_def
      split: httpserv_net_connector_kind_t.splits)

subsection \<open>The connections of a server\<close>

text \<open>The connections made for a sequence of descriptors.\<close>

fun accepted_all :: "httpserv_httpserver_t \<Rightarrow> int list \<Rightarrow> net \<Rightarrow> (httpserv_net_connector_t list \<times> net) res" where
  "accepted_all s [] n = Inr ([], n)"
| "accepted_all s (c # cs) n =
     bindR (accepted_conn s c n) (\<lambda>(k, n1). bindR (accepted_all s cs n1) (\<lambda>(ks, n2). Inr (k # ks, n2)))"

text \<open>A server whose union is well typed; unlike \<open>server_ok\<close> it may be running.\<close>

definition accepts :: "httpserv_httpserver_t \<Rightarrow> bool" where
  "accepts s \<longleftrightarrow> sv_ckind s = HTTPSERV_NET_CONNECTOR_SCK \<or> (\<exists>l. sv_conn s = SslConn (Some l))"

lemma server_ok_accepts: "server_ok s \<Longrightarrow> accepts s"
  by (auto simp: server_ok_def accepts_def split: httpserv_net_connector_kind_t.splits)

text \<open>What accepting leaves alone: the descriptors of the SSL objects made before.\<close>

definition only_new :: "net \<Rightarrow> net \<Rightarrow> bool" where
  "only_new n n' \<longleftrightarrow> io n' = io n \<and> next_obj n \<le> next_obj n' \<and> (\<forall>h < next_obj n. ssl_fd n' h = ssl_fd n h)"

lemma only_new_refl [simp]: "only_new n n"
  by (simp add: only_new_def)

lemma only_new_trans: "only_new n n1 \<Longrightarrow> only_new n1 n2 \<Longrightarrow> only_new n n2"
  by (simp add: only_new_def)

lemma accepted_one:
  assumes "accepts s"
  shows "\<exists>k n' ch. accepted_conn s c n = Inr (k, n') \<and> channel_of k (sv_ckind s) = Some ch \<and> only_new n n'
    \<and> (\<forall>n2. only_new n' n2 \<longrightarrow> httpserv_net_connector_get_fd k (sv_ckind s) n2 = Inr c)"
  using assms
  by (cases "sv_ckind s") (auto simp: accepts_def accepted_conn_def only_new_def httpserv_ssl_init_conn_def SSL_new_def
      SSL_set_fd_def httpserv_net_connector_get_fd_def conn_ssl_def deref_def the_set_def Let_def)

lemma accepted_all_ok:
  assumes "accepts s"
  shows "\<exists>ks n'. accepted_all s cs n = Inr (ks, n') \<and> only_new n n' \<and> list_all (\<lambda>k. channel_of k (sv_ckind s) \<noteq> None) ks
    \<and> (\<forall>n2. only_new n' n2 \<longrightarrow> list_all2 (\<lambda>k c. httpserv_net_connector_get_fd k (sv_ckind s) n2 = Inr c) ks cs)"
proof (induction cs arbitrary: n)
  case (Cons c cs)
  obtain k n1 ch where 1: "accepted_conn s c n = Inr (k, n1)" "channel_of k (sv_ckind s) = Some ch" "only_new n n1"
    "\<And>n2. only_new n1 n2 \<Longrightarrow> httpserv_net_connector_get_fd k (sv_ckind s) n2 = Inr c"
    using accepted_one [OF assms] by blast
  obtain ks n2 where 2: "accepted_all s cs n1 = Inr (ks, n2)" "only_new n1 n2"
    "list_all (\<lambda>k. channel_of k (sv_ckind s) \<noteq> None) ks"
    "\<And>n3. only_new n2 n3 \<Longrightarrow> list_all2 (\<lambda>k c. httpserv_net_connector_get_fd k (sv_ckind s) n3 = Inr c) ks cs"
    using Cons.IH [of n1] by blast
  with 1 show ?case using only_new_trans by (intro exI [of _ "k # ks"] exI [of _ n2]) auto
qed simp

lemma accepted_all_append:
  "accepted_all s (cs @ ds) n = bindR (accepted_all s cs n) (\<lambda>(ks, n1).
     bindR (accepted_all s ds n1) (\<lambda>(ls, n2). Inr (ks @ ls, n2)))"
  by (induction cs arbitrary: n) (auto simp: bindR_def split: sum.splits prod.splits)

text \<open>A descriptor is closed, and then at most SSL objects are freed.\<close>

definition closes :: "int \<Rightarrow> io_event list \<Rightarrow> bool" where
  "closes c es \<longleftrightarrow> (\<exists>fs. es = Closed c # fs \<and> set fs \<subseteq> range SslFreed)"

lemma closing_closes:
  "channel_of k ck = Some ch \<Longrightarrow> httpserv_net_connector_get_fd k ck n = Inr c \<Longrightarrow> closes c (closing (ssl_fd n) ch)"
  by (cases ck) (auto simp: httpserv_net_connector_get_fd_def closes_def)

lemma get_fd_emit [simp]: "httpserv_net_connector_get_fd k ck (emit es n) = httpserv_net_connector_get_fd k ck n"
  by (cases ck) (simp_all add: httpserv_net_connector_get_fd_def)

subsection \<open>The accept loop\<close>

text \<open>The work made for a connection.\<close>

definition job_for :: "httpserv_httpserver_t \<Rightarrow> httpserv_net_connector_t \<Rightarrow> (work option \<times> worker_data) option" where
  "job_for s k = Some (Some Httpserv_worker, connection_data s k)"

text \<open>Connections without a signal are queued, one by one.\<close>

lemma accept_loop_queues:
  assumes "sv_tp s = Some p" and "pool_at p q (s_pool w) as" and "accepted_all s cs (s_net w) = Inr (ks, n')"
  shows "\<exists>bs st. accept_loop (map (\<lambda>c. (c, NoSignal)) cs @ rest) s w
      = accept_loop rest s (w\<lparr>s_net := n', s_pool := st\<rparr>)
    \<and> pool_at p q st bs \<and> map (work_of st) bs = map (work_of (s_pool w)) as @ map (job_for s) ks"
  using assms(2,3)
proof (induction cs arbitrary: w as ks)
  case Nil
  then have "n' = s_net w" "ks = []" by auto
  with Nil(1) show ?case by (intro exI [of _ as] exI [of _ "s_pool w"]) simp
next
  case (Cons c cs)
  from Cons.prems(2) obtain k n1 ks' where acc: "accepted_conn s c (s_net w) = Inr (k, n1)"
      "accepted_all s cs n1 = Inr (ks', n')" "ks = k # ks'"
    by (auto simp: bindR_Inr_iff split: prod.splits)
  from add_work_queue [OF Cons.prems(1), of "Some Httpserv_worker" "connection_data s k"] obtain a r st1 where 1:
    "threadpool_add_work True True (Some p) (Some Httpserv_worker) (connection_data s k) (s_pool w) = ret (Some r, [], st1)"
    "pool_at p q st1 (as @ [a])" "map (work_of st1) (as @ [a]) = map (work_of (s_pool w)) as @ [job_for s k]"
    unfolding job_for_def by blast
  let ?w = "w\<lparr>s_net := n1, s_pool := st1\<rparr>"
  have "pool_at p q (s_pool ?w) (as @ [a])" "accepted_all s cs (s_net ?w) = Inr (ks', n')" using 1(2) acc(2) by simp_all
  from Cons.IH [OF this] obtain bs st where 2:
    "accept_loop (map (\<lambda>c. (c, NoSignal)) cs @ rest) s ?w = accept_loop rest s (?w\<lparr>s_net := n', s_pool := st\<rparr>)"
    "pool_at p q st bs" "map (work_of st) bs = map (work_of st1) (as @ [a]) @ map (job_for s) ks'" by auto
  have "accept_loop (map (\<lambda>c. (c, NoSignal)) (c # cs) @ rest) s w
      = accept_loop (map (\<lambda>c. (c, NoSignal)) cs @ rest) s ?w"
    using 1(1) assms(1) acc(1) by (simp add: ret_def)
  then show ?case using 2 unfolding 1(3) acc(3) by (intro exI [of _ bs] exI [of _ st]) simp
qed

text \<open>The last connection: the one during or after which the server is told to stop.\<close>

lemma accept_loop_last:
  assumes "sv_tp s = Some p" and "pool_at p q (s_pool w) as" and "accepts s" and "sig \<noteq> NoSignal"
  shows "\<exists>bs w' n2 ks es. accept_loop [(c, sig)] s w = ret (s\<lparr>keep_alive := False\<rparr>, w') \<and> pool_at p q (s_pool w') bs
    \<and> map (work_of (s_pool w')) bs = map (work_of (s_pool w)) as @ map (job_for s) ks
    \<and> (if sig = AfterQueueing then accepted_all s [c] (s_net w) = Inr (ks, n2) \<and> es = []
       else ks = [] \<and> closes c es) \<and> only_new (s_net w) n2 \<and> s_net w' = emit es n2"
proof -
  obtain k n2 ch where k: "accepted_conn s c (s_net w) = Inr (k, n2)" "channel_of k (sv_ckind s) = Some ch"
    "only_new (s_net w) n2" "httpserv_net_connector_get_fd k (sv_ckind s) n2 = Inr c"
    using accepted_one [OF assms(3), of c "s_net w"] by auto
  show ?thesis
  proof (cases "sig = DuringAccept")
    case True
    then show ?thesis using assms(1,2) k closing_closes [OF k(2,4)]
      by (intro exI [of _ as] exI [of _ "w\<lparr>s_net := emit (closing (ssl_fd n2) ch) n2\<rparr>"] exI [of _ n2] exI [of _ "[]"]
          exI [of _ "closing (ssl_fd n2) ch"]) (simp add: channel_close [OF k(2)] ret_def)
  next
    case False
    with assms(4) have sig: "sig = AfterQueueing" by (cases sig) auto
    from add_work_queue [OF assms(2), of "Some Httpserv_worker" "connection_data s k"] obtain a r st1 where 1:
      "threadpool_add_work True True (Some p) (Some Httpserv_worker) (connection_data s k) (s_pool w) = ret (Some r, [], st1)"
      "pool_at p q st1 (as @ [a])" "map (work_of st1) (as @ [a]) = map (work_of (s_pool w)) as @ [job_for s k]"
      unfolding job_for_def by blast
    then show ?thesis using assms(1) k(1,3) sig
      by (intro exI [of _ "as @ [a]"] exI [of _ "w\<lparr>s_net := n2, s_pool := st1\<rparr>"] exI [of _ n2] exI [of _ "[k]"]
          exI [of _ "[]"]) (simp add: ret_def emit_def)
  qed
qed

text \<open>
  A whole run: what is queued are connections to the accepted descriptors, in order; a connection
  that is accepted while the signal comes in is closed.
\<close>

definition queued_conns :: "httpserv_httpserver_t \<Rightarrow> net \<Rightarrow> int list \<Rightarrow> httpserv_net_connector_t list \<Rightarrow> bool" where
  "queued_conns s n cs ks \<longleftrightarrow> list_all (\<lambda>k. channel_of k (sv_ckind s) \<noteq> None) ks
     \<and> list_all2 (\<lambda>k c. httpserv_net_connector_get_fd k (sv_ckind s) n = Inr c) ks cs"

lemma net_and_pool: "s_net (w\<lparr>s_net := n, s_pool := st\<rparr>) = n" "s_pool (w\<lparr>s_net := n, s_pool := st\<rparr>) = st"
  by simp_all

lemma accept_loop_outcome:
  assumes "sv_tp s = Some p" and "pool_at p q (s_pool w) []" and "accepts s" and "sig \<noteq> NoSignal"
  shows "\<exists>bs w' ks es. accept_loop (map (\<lambda>c. (c, NoSignal)) cs @ [(c, sig)]) s w = ret (s\<lparr>keep_alive := False\<rparr>, w')
    \<and> pool_at p q (s_pool w') bs \<and> map (work_of (s_pool w')) bs = map (job_for s) ks
    \<and> queued_conns s (s_net w') (cs @ (if sig = AfterQueueing then [c] else [])) ks
    \<and> io (s_net w') = io (s_net w) @ es \<and> (if sig = DuringAccept then closes c es else es = [])"
proof -
  obtain ks n1 where acc: "accepted_all s cs (s_net w) = Inr (ks, n1)" "only_new (s_net w) n1"
    using accepted_all_ok [OF assms(3)] by blast
  from accept_loop_queues [OF assms(1,2) acc(1), of "[(c, sig)]"] obtain as st where 1:
    "accept_loop (map (\<lambda>c. (c, NoSignal)) cs @ [(c, sig)]) s w = accept_loop [(c, sig)] s (w\<lparr>s_net := n1, s_pool := st\<rparr>)"
    "pool_at p q st as" "map (work_of st) as = map (job_for s) ks" by auto
  have "pool_at p q (s_pool (w\<lparr>s_net := n1, s_pool := st\<rparr>)) as" using 1(2) by simp
  note last = accept_loop_last [OF assms(1) this assms(3,4), of c, unfolded net_and_pool]
  from last obtain bs w' n2 ls es where 2:
    "accept_loop [(c, sig)] s (w\<lparr>s_net := n1, s_pool := st\<rparr>) = ret (s\<lparr>keep_alive := False\<rparr>, w')" "pool_at p q (s_pool w') bs"
    "map (work_of (s_pool w')) bs = map (work_of st) as @ map (job_for s) ls"
    "if sig = AfterQueueing then accepted_all s [c] n1 = Inr (ls, n2) \<and> es = [] else ls = [] \<and> closes c es"
    "only_new n1 n2" "s_net w' = emit es n2" by blast
  let ?ds = "cs @ (if sig = AfterQueueing then [c] else [])"
  have "queued_conns s n2 ?ds (ks @ ls)"
  proof (cases "sig = AfterQueueing")
    case True
    then have "accepted_all s ?ds (s_net w) = Inr (ks @ ls, n2)" using acc(1) 2(4) by (simp add: accepted_all_append)
    with accepted_all_ok [OF assms(3), of ?ds "s_net w"] show ?thesis by (auto simp: queued_conns_def)
  next
    case False
    with accepted_all_ok [OF assms(3), of cs "s_net w"] acc(1) 2(4,5) show ?thesis by (auto simp: queued_conns_def)
  qed
  then have "queued_conns s (s_net w') ?ds (ks @ ls)" using 2(6) by (simp add: queued_conns_def)
  moreover have "io (s_net w') = io (s_net w) @ es" using acc(2) 2(5,6) by (simp add: only_new_def)
  moreover have "if sig = DuringAccept then closes c es else es = []" using 2(4) assms(4) by (cases sig) auto
  ultimately show ?thesis using 1 2(1-3) by (intro exI [of _ bs] exI [of _ w'] exI [of _ "ks @ ls"] exI [of _ es]) simp
qed

text \<open>A run that is told to stop.\<close>

lemma server_run_outcome:
  assumes "server_ok s" and "httpserv_net_connector_get_fd (sv_conn s) (sv_ckind s) (s_net w) = Inr f"
    and "tp_wf (s_pool w)" and "wf_store (pools (s_pool w))" and "\<forall>i < n. can_spawn sys i" and "0 < n"
    and "can_listen sys f" and "sig \<noteq> NoSignal"
  shows "\<exists>ev p q bs w' ks es. httpserv_httpserver_run sys (map (\<lambda>c. (c, NoSignal)) cs @ [(c, sig)]) s n w
      = ret (0, ev, s\<lparr>sv_tp := Some p, keep_alive := False, alive := False\<rparr>, w')
    \<and> pool_at p q (s_pool w') bs \<and> map (work_of (s_pool w')) bs = map (job_for s) ks
    \<and> queued_conns s (s_net w') (cs @ (if sig = AfterQueueing then [c] else [])) ks
    \<and> io (s_net w') = io (s_net w) @ [Listening f] @ es \<and> (if sig = DuringAccept then closes c es else es = [])"
proof -
  obtain p q st where new: "threadpool_new (can_spawn sys) n (s_pool w) = Inr (Some p, st)" "pool_at p q st []"
    using pool_new_at [OF assms(3,4,6,5)] by blast
  let ?s = "s\<lparr>sv_tp := Some p, keep_alive := True, alive := True\<rparr>"
  let ?w = "w\<lparr>s_pool := st, s_net := emit [Listening f] (s_net w)\<rparr>"
  have data: "job_for ?s = job_for s" by (simp add: job_for_def connection_data_def fun_eq_iff)
  have conns: "queued_conns ?s = queued_conns s" by (simp add: queued_conns_def fun_eq_iff)
  have "sv_tp ?s = Some p" "pool_at p q (s_pool ?w) []" "accepts ?s"
    using new(2) server_ok_accepts [OF assms(1)] by (simp_all add: accepts_def)
  from accept_loop_outcome [OF this assms(8), of cs c] obtain bs w' ks es where 1:
    "accept_loop (map (\<lambda>c. (c, NoSignal)) cs @ [(c, sig)]) ?s ?w = ret (?s\<lparr>keep_alive := False\<rparr>, w')"
    "pool_at p q (s_pool w') bs" "map (work_of (s_pool w')) bs = map (job_for s) ks"
    "queued_conns s (s_net w') (cs @ (if sig = AfterQueueing then [c] else [])) ks"
    "io (s_net w') = io (s_net ?w) @ es" "if sig = DuringAccept then closes c es else es = []"
    unfolding data conns by blast
  have "httpserv_httpserver_run sys (map (\<lambda>c. (c, NoSignal)) cs @ [(c, sig)]) s n w
      = ret (0, [start_msg (sv_ckind s), (LOG, ''server listening on '' @ sv_ip s @ '':'' @ dec (unat (sv_port s)))],
          s\<lparr>sv_tp := Some p, keep_alive := False, alive := False\<rparr>, w')"
    using new(1) assms(2,7) 1(1) by (simp add: httpserv_httpserver_run_def ret_def)
  with 1(2-6) show ?thesis by (intro exI) auto
qed

end
