(* ===== verification/ServerProps.thy ===== *)
theory ServerProps
  imports AcceptLoop
begin

section \<open>The life of a server: properties\<close>

text \<open>
  The theorems about servers: the union behind their connections, what a run hands to the pool,
  and how SSL is enabled.
\<close>

subsection \<open>Enabling SSL\<close>

lemma use_ssl_cases:
  assumes "sv_conn s = SckConn f"
  shows "httpserv_httpserver_use_ssl lib (Some s) (Some k) (Some c) n =
    (if cert_ok lib c \<and> key_ok lib k \<and> key_fits lib c k
     then Inr (Some (s\<lparr>sv_ckind := HTTPSERV_NET_CONNECTOR_SSL,
            sv_conn := SslConn (Some \<lparr>ssl_ctx = next_obj n, ssl = Some (Suc (next_obj n)),
              certchains = Some c, privkey = Some k\<rparr>)\<rparr>), [],
          n\<lparr>next_obj := next_obj n + 2, ssl_fd := (ssl_fd n)(Suc (next_obj n) := f)\<rparr>)
     else Inl Uninit)"
  using assms
  by (simp add: httpserv_httpserver_use_ssl_def httpserv_ssl_init_def SSL_CTX_new_def SSL_new_def SSL_set_fd_def
      httpserv_ssl_destroy_def conn_ssl_def deref_def the_set_def Let_def)

subsection \<open>After a run\<close>

text \<open>Destroying a server, plain or SSL, that has run and has a pool.\<close>

lemma destroy_served:
  assumes "server_ok s" and "pool_at p q (s_pool w) as"
  shows "httpserv_httpserver_destroy (Some (s\<lparr>sv_tp := Some p, keep_alive := False, alive := False\<rparr>)) w
      = Some (Inl JoinDetached)"
proof -
  obtain n where "httpserv_net_connector_destroy (sv_conn s) (sv_ckind s) (s_net w) = Inr n"
    using assms(1) by (auto simp: server_ok_def httpserv_net_connector_destroy_def httpserv_ssl_destroy_def deref_def
        the_set_def Let_def split: httpserv_net_connector_kind_t.splits)
  then show ?thesis using destroy_at [OF assms(2)] by (simp add: httpserv_httpserver_destroy_def)
qed

subsection \<open>Properties\<close>

text \<open>
  C25: the union behind a connector is always read by the member that was written: whatever
  sequence of calls made and set up a server, each connection it accepts has the member of the
  server's kind, so it can be read, its descriptor is the one accepted, and destroying it
  closes that descriptor, frees the SSL object made for it, and nothing else.
\<close>

theorem connections_well_typed:
  assumes "built s"
  shows "\<exists>conn n'. accepted_conn s connfd n = Inr (conn, n') \<and> (\<exists>ch. channel_of conn (sv_ckind s) = Some ch)
    \<and> httpserv_net_connector_get_fd conn (sv_ckind s) n' = Inr connfd
    \<and> (\<exists>es \<in> {[], [SslFreed (next_obj n)]}.
         httpserv_net_connector_destroy_connection conn (sv_ckind s) n' = Inr (emit (Closed connfd # es) n'))"
  using accepted_ok [OF built_ok [OF assms]] .

definition example_system :: system where
  "example_system = \<lparr>inet_pton = (\<lambda>k a. if a = ''127.0.0.1'' then Some 1 else None), new_socket = (\<lambda>_. 3),
     can_bind = (\<lambda>_ _. True), can_listen = (\<lambda>_. True), error_text = [], can_spawn = (\<lambda>_. True)\<rparr>"

definition example_ssl :: openssl where
  "example_ssl = \<lparr>cert_ok = (\<lambda>c. c = ''cert''), key_ok = (\<lambda>k. k = ''key''), key_fits = (\<lambda>_ _. True)\<rparr>"

definition idle_net :: net where
  "idle_net = \<lparr>io = [], arrivals = [], next_obj = 0, ssl_fd = (\<lambda>_. -1)\<rparr>"

definition idle_world :: server_world where
  "idle_world = \<lparr>s_net = idle_net, s_pool = no_pools\<rparr>"

definition example_server :: httpserv_httpserver_t where
  "example_server = \<lparr>sv_conn = SckConn 3, sv_ckind = HTTPSERV_NET_CONNECTOR_SCK, sv_addr = SockaddrIn 1 8080,
     sv_akind = HTTPSERV_HTTPSERVER_ADDR_KIND_IPv4, sv_tp = None, alive = False, keep_alive = False,
     sv_ip = ''127.0.0.1'', sv_port = 8080, sv_router = None, sv_resload = None\<rparr>"

lemma example_new: "httpserv_httpserver_new example_system ''127.0.0.1'' 8080 HTTPSERV_HTTPSERVER_ADDR_KIND_IPv4 idle_world
    = ret (Some example_server, [], idle_world\<lparr>s_net := emit [Bound 3 8080] idle_net\<rparr>)"
  by (simp add: httpserv_httpserver_new_def example_system_def example_server_def sockaddr_def Let_def idle_world_def)

text \<open>
  C35: SSL is enabled exactly when OpenSSL accepts the certificate, the key and their pair; the
  listening socket stays the same. A rejected file does not lead to an error return: the
  clean-up reads the SSL object before it was made.
\<close>

theorem use_ssl_outcome:
  assumes "sv_conn s = SckConn f"
  shows "httpserv_httpserver_use_ssl lib (Some s) (Some k) (Some c) n =
    (if cert_ok lib c \<and> key_ok lib k \<and> key_fits lib c k
     then Inr (Some (s\<lparr>sv_ckind := HTTPSERV_NET_CONNECTOR_SSL,
            sv_conn := SslConn (Some \<lparr>ssl_ctx = next_obj n, ssl = Some (Suc (next_obj n)),
              certchains = Some c, privkey = Some k\<rparr>)\<rparr>), [],
          n\<lparr>next_obj := next_obj n + 2, ssl_fd := (ssl_fd n)(Suc (next_obj n) := f)\<rparr>)
     else Inl Uninit)"
  using assms by (rule use_ssl_cases)

theorem use_ssl_outcome_witness:
  "httpserv_httpserver_use_ssl example_ssl (Some example_server) (Some ''key'') (Some ''other'') idle_net = Inl Uninit"
  by (subst use_ssl_outcome [of _ 3]) (simp_all add: example_server_def example_ssl_def)

theorem connections_well_typed_witness:
  "\<exists>s conn n'. sv_ckind s = HTTPSERV_NET_CONNECTOR_SSL \<and> accepted_conn s 7 idle_net = Inr (conn, n')
    \<and> httpserv_net_connector_get_fd conn HTTPSERV_NET_CONNECTOR_SSL n' = Inr 7"
proof -
  have "built example_server" using built_new [OF example_new] .
  moreover have "httpserv_httpserver_use_ssl example_ssl (Some example_server) (Some ''key'') (Some ''cert'') idle_net =
      Inr (Some (example_server\<lparr>sv_ckind := HTTPSERV_NET_CONNECTOR_SSL,
            sv_conn := SslConn (Some \<lparr>ssl_ctx = 0, ssl = Some 1, certchains = Some ''cert'', privkey = Some ''key''\<rparr>)\<rparr>), [],
          idle_net\<lparr>next_obj := 2, ssl_fd := (ssl_fd idle_net)(1 := 3)\<rparr>)"
    by (subst use_ssl_cases [of _ 3]) (simp_all add: example_server_def example_ssl_def idle_net_def)
  ultimately have "built (example_server\<lparr>sv_ckind := HTTPSERV_NET_CONNECTOR_SSL,
            sv_conn := SslConn (Some \<lparr>ssl_ctx = 0, ssl = Some 1, certchains = Some ''cert'', privkey = Some ''key''\<rparr>)\<rparr>)"
    by (rule built_ssl)
  from connections_well_typed [OF this, of 7 idle_net] show ?thesis
    by (intro exI [of _ "example_server\<lparr>sv_ckind := HTTPSERV_NET_CONNECTOR_SSL,
            sv_conn := SslConn (Some \<lparr>ssl_ctx = 0, ssl = Some 1, certchains = Some ''cert'', privkey = Some ''key''\<rparr>)\<rparr>"]) auto
qed

text \<open>
  C15: a running server, plain or SSL, hands a connection to each descriptor it accepts to the
  pool, with its router and its loader, in the order of arrival, until the signal handler stops
  it: the descriptor of a connection accepted while the signal came in is closed and not served.
  The run returns 0. Destroying the server afterwards joins detached threads.
\<close>

theorem server_run_dispatches:
  assumes "built s" and "httpserv_net_connector_get_fd (sv_conn s) (sv_ckind s) (s_net w) = Inr f"
    and "tp_wf (s_pool w)" and "wf_store (pools (s_pool w))" and "\<forall>i < n. can_spawn sys i" and "0 < n"
    and "can_listen sys f" and "sig \<noteq> NoSignal"
  shows "\<exists>ev s' q bs w' ks es. httpserv_httpserver_run sys (map (\<lambda>c. (c, NoSignal)) cs @ [(c, sig)]) s n w
      = ret (0, ev, s', w')
    \<and> queue_at q (tp_jobs (s_pool w')) bs
    \<and> map (work_of (s_pool w')) bs = map (\<lambda>k. Some (Some Httpserv_worker, connection_data s k)) ks
    \<and> queued_conns s (s_net w') (cs @ (if sig = AfterQueueing then [c] else [])) ks
    \<and> io (s_net w') = io (s_net w) @ [Listening f] @ es \<and> (if sig = DuringAccept then closes c es else es = [])
    \<and> httpserv_httpserver_destroy (Some s') w' = Some (Inl JoinDetached)"
proof -
  have ok: "server_ok s" using built_ok [OF assms(1)] .
  from server_run_outcome [OF ok assms(2-8), of cs c] obtain ev p q bs w' ks es where 1:
    "httpserv_httpserver_run sys (map (\<lambda>c. (c, NoSignal)) cs @ [(c, sig)]) s n w
      = ret (0, ev, s\<lparr>sv_tp := Some p, keep_alive := False, alive := False\<rparr>, w')"
    "pool_at p q (s_pool w') bs" "map (work_of (s_pool w')) bs = map (job_for s) ks"
    "queued_conns s (s_net w') (cs @ (if sig = AfterQueueing then [c] else [])) ks"
    "io (s_net w') = io (s_net w) @ [Listening f] @ es" "if sig = DuringAccept then closes c es else es = []" by blast
  from 1 destroy_served [OF ok 1(2)] show ?thesis unfolding pool_at_def job_for_def by blast
qed

theorem server_run_dispatches_witness:
  "\<exists>ev s' q bs w' es. httpserv_httpserver_run example_system [(5, NoSignal), (6, DuringAccept)] example_server 10 idle_world
      = ret (0, ev, s', w') \<and> queue_at q (tp_jobs (s_pool w')) bs \<and> length bs = 1
    \<and> io (s_net w') = Listening 3 # Closed 6 # es"
proof -
  have "built example_server" "httpserv_net_connector_get_fd (sv_conn example_server) (sv_ckind example_server) (s_net idle_world) = Inr 3"
    "tp_wf (s_pool idle_world)" "wf_store (pools (s_pool idle_world))" "\<forall>i < 10. can_spawn example_system i"
    "(0 :: nat) < 10" "can_listen example_system 3" "DuringAccept \<noteq> NoSignal"
    using no_pools_wf built_new [OF example_new]
    by (simp_all add: example_server_def example_system_def idle_world_def httpserv_net_connector_get_fd_def)
  from server_run_dispatches [OF this, of "[5]" 6]
  obtain ev s' q bs w' ks es where 1: "httpserv_httpserver_run example_system [(5, NoSignal), (6, DuringAccept)] example_server 10 idle_world
      = ret (0, ev, s', w')" "queue_at q (tp_jobs (s_pool w')) bs"
    "map (work_of (s_pool w')) bs = map (\<lambda>k. Some (Some Httpserv_worker, connection_data example_server k)) ks"
    "queued_conns example_server (s_net w') [5] ks" "io (s_net w') = Listening 3 # es" "closes 6 es"
    by (auto simp: idle_world_def idle_net_def)
  from 1(4) have "length ks = 1" by (auto simp: queued_conns_def dest: list_all2_lengthD)
  with arg_cong [OF 1(3), of length] have "length bs = 1" by simp
  moreover from 1(6) obtain fs where "es = Closed 6 # fs" by (auto simp: closes_def)
  ultimately show ?thesis using 1(1,2,5) by (intro exI conjI) simp_all
qed

text \<open>
  a server that runs with no threads has no pool: it listens, and the first connection that
  it tries to queue dereferences \<open>NULL\<close>.
\<close>

theorem server_without_threads:
  assumes "built s" and "sig \<noteq> DuringAccept" and "\<forall>f. can_listen sys f"
  shows "httpserv_httpserver_run sys ((c, sig) # rest) s 0 w = Some (Inl NullDeref)"
proof -
  have ok: "server_ok s" using built_ok [OF assms(1)] .
  then obtain f where "httpserv_net_connector_get_fd (sv_conn s) (sv_ckind s) (s_net w) = Inr f"
    by (auto simp: server_ok_def httpserv_net_connector_get_fd_def conn_ssl_def deref_def the_set_def
        split: httpserv_net_connector_kind_t.splits)
  moreover have "accepted_conn (s\<lparr>sv_tp := t, keep_alive := k, alive := a\<rparr>) = accepted_conn s" for t k a
    by (cases "sv_ckind s") (simp_all add: accepted_conn_def fun_eq_iff)
  moreover have "threadpool_add_work True True None f x st = Some (Inl NullDeref)" for f x and st :: server_pool
    by (simp add: threadpool_add_work_def heap_simps split: prod.split)
  moreover note accepted_ok [OF ok, of c "emit [Listening f] (s_net w)"]
  ultimately show ?thesis using assms(2,3)
    by (auto simp: httpserv_httpserver_run_def threadpool_new_def)
qed

theorem server_without_threads_witness:
  "httpserv_httpserver_run example_system [(5, NoSignal)] example_server 0 idle_world = Some (Inl NullDeref)"
  by (rule server_without_threads [OF built_new [OF example_new]]) (simp_all add: example_system_def)

end
