(* ===== verification/Cweb.thy ===== *)
theory Cweb
  imports Stringh Config Server
begin

section \<open>The web server program (cweb.c)\<close>

text \<open>
  The program puts the library together: it reads its options and the configuration file,
  opens the log, makes the server with its router and resource loader, and runs it until a
  signal stops it. What the program does to the outside is the state of the components and
  the text on stderr, which is part of the state of the logging module; what it prints on stdout
  (the pid of a detached child) is left out.
\<close>

subsection \<open>Versions and help\<close>

definition CWEB_VERSION :: string where
  "CWEB_VERSION = ''0.1.0''"

definition CWEB_THREADS_DEFAULT :: "32 word" where
  "CWEB_THREADS_DEFAULT = 10"

definition CWEB_DEFAULT_CONF_PATH :: string where
  "CWEB_DEFAULT_CONF_PATH = ''/etc/cweb/cweb.conf''"

definition CWEB_DEFAULT_ROUTE_PATH :: string where
  "CWEB_DEFAULT_ROUTE_PATH = ''/etc/cweb/routes.conf''"

definition CWEB_DEFAULT_LOG_PATH :: string where
  "CWEB_DEFAULT_LOG_PATH = ''/var/log/cweb/cweb.log''"

definition cweb_print_version :: string where
  "cweb_print_version = ''cweb version: '' @ CWEB_VERSION @ [LF] @ ''libhttpserv version: ''
     @ dec httpserv_version_major @ ''.'' @ dec httpserv_version_minor @ ''.'' @ dec httpserv_version_patch @ [LF]"

definition CWEB_HELP_STR :: string where
  "CWEB_HELP_STR = [LF] @ ''OPTIONS'' @ [LF]
     @ ''  -h,--help: print this help and exit'' @ [LF]
     @ ''  -v,--version: print the version number and exit'' @ [LF]
     @ ''  -f,--file <file>: use <file> instead of the default configuration file'' @ [LF]
     @ ''  -d,--detach: fork process to the background'' @ [LF]
     @ ''  -l,--logfile <file>: log to <file>. This will overwrite any setting from the config file'' @ [LF]
     @ ''  -r, --routefile <file>: use <file> as the router config file'' @ [LF]"

subsection \<open>Options\<close>

record options =
  opt_path :: string
  opt_rpath :: string
  opt_logpath :: "string option"
  opt_threads :: "32 word"
  opt_detach :: bool

definition default_options :: options where
  "default_options = \<lparr>opt_path = CWEB_DEFAULT_CONF_PATH, opt_rpath = CWEB_DEFAULT_ROUTE_PATH, opt_logpath = None,
     opt_threads = CWEB_THREADS_DEFAULT, opt_detach = False\<rparr>"

definition is_option :: "string \<Rightarrow> string \<Rightarrow> string \<Rightarrow> bool" where
  "is_option a short long \<longleftrightarrow> httpserv_streq a short = 0 \<or> httpserv_streq a long = 0"

text \<open>The text printed on stderr comes first; \<open>None\<close> is the exit with status 0.\<close>

fun parse_args :: "string list \<Rightarrow> options \<Rightarrow> string \<Rightarrow> string \<times> options option" where
  "parse_args [] opts err = (err, Some opts)"
| "parse_args (a # args) opts err =
     (if is_option a ''-h'' ''--help'' then (err @ CWEB_HELP_STR @ [LF], None)
      else if is_option a ''-v'' ''--version'' then (err @ cweb_print_version, None)
      else if is_option a ''-f'' ''--file'' then
        (case args of
          [] \<Rightarrow> parse_args [] opts (err @ ''no file provided. Using default...'' @ [LF])
        | f # rest \<Rightarrow> parse_args rest (opts\<lparr>opt_path := f\<rparr>) err)
      else if is_option a ''-t'' ''--threads'' then
        (let parsed = to_int (strtol a) in
         if parsed = 0 then
           parse_args args opts (err @ ''invalid format for threads. Using default (10)...'' @ [LF])
         else parse_args args (opts\<lparr>opt_threads := parsed\<rparr>) err)
      else if is_option a ''-d'' ''--detach'' then parse_args args (opts\<lparr>opt_detach := True\<rparr>) err
      else if is_option a ''-l'' ''--logfile'' then
        (case args of
          [] \<Rightarrow> parse_args [] opts (err @ ''no file provided. Using default...'' @ [LF])
        | f # rest \<Rightarrow> parse_args rest (opts\<lparr>opt_logpath := Some f\<rparr>) err)
      else if is_option a ''-r'' ''--routefile'' then
        (case args of
          [] \<Rightarrow> parse_args [] opts (err @ ''no file provided. Using default...'' @ [LF])
        | f # rest \<Rightarrow> parse_args rest (opts\<lparr>opt_rpath := f\<rparr>) err)
      else parse_args args opts err)"

subsection \<open>The surroundings of the program\<close>

text \<open>\<open>fork_results\<close> are what the two calls of \<open>fork\<close> return in this process.\<close>

record ('t, 'p) cweb_env =
  ce_tree :: "'t libtree"
  ce_files :: "string \<Rightarrow> string + string"
  ce_regcomp :: "string \<Rightarrow> 'p option"
  ce_clears :: bool
  ce_can_log :: "string \<Rightarrow> bool"
  ce_now :: tm
  ce_system :: system
  ce_openssl :: openssl
  fork_results :: "int \<times> int"
  ce_conns :: "(int \<times> interrupt) list"

record 'p cweb_world =
  cw_log :: logging
  cw_server :: server_world
  cw_routes :: "'p router_state"
  cw_resources :: resource_state

definition print_err :: "string \<Rightarrow> 'p cweb_world \<Rightarrow> 'p cweb_world" where
  "print_err s w = w\<lparr>cw_log := (cw_log w)\<lparr>stderr_text := stderr_text (cw_log w) @ s\<rparr>\<rparr>"

text \<open>What the components log goes through the logging module.\<close>

definition log_out_all :: "tm \<Rightarrow> log_event list \<Rightarrow> 'p cweb_world \<Rightarrow> 'p cweb_world res" where
  "log_out_all now es w = bindR (log_events_out (map (\<lambda>e. (now, e)) es) (cw_log w)) (\<lambda>lg. Inr (w\<lparr>cw_log := lg\<rparr>))"

subsection \<open>Cleaning up, and the signal handler\<close>

text \<open>
  The release of the configuration tree is that of the tree library and leaves no trace
  here; the log is closed last.
\<close>

definition cweb_cleanup :: "httpserv_httpserver_t option \<Rightarrow> 'p cweb_world \<Rightarrow> 'p cweb_world run" where
  "cweb_cleanup srv w =
     bindX (httpserv_httpserver_destroy srv (cw_server w)) (\<lambda>sw.
     bindX (lift_res (httpserv_logging_destroy (cw_log w))) (\<lambda>lg.
       ret (w\<lparr>cw_server := sw, cw_log := lg\<rparr>)))"

text \<open>
  The handler writes to stdout, and either ends the program (with the status) or stops the
  server.
\<close>

datatype 'p handled = Exits int "'p cweb_world" | Resumes httpserv_httpserver_t

definition handle_sigint :: "httpserv_httpserver_t option \<Rightarrow> 'p cweb_world \<Rightarrow> (string \<times> 'p handled) run" where
  "handle_sigint srv w =
     bindX (lift_res (deref srv)) (\<lambda>s.
     let out = take 11 (''got SIGINT. Stopping server...'' @ [LF]) in
     if \<not> alive s then bindX (cweb_cleanup srv w) (\<lambda>w1. ret (out, Exits 0 w1))
     else ret (out, Resumes (s\<lparr>keep_alive := False\<rparr>)))"

subsection \<open>The settings of the server\<close>

definition log_path :: "'t libtree \<Rightarrow> 't \<Rightarrow> options \<Rightarrow> string option" where
  "log_path lib cfg opts = (case opt_logpath opts of
     Some l \<Rightarrow> Some l
   | None \<Rightarrow> (case tree_get_node lib cfg ''logfile'' of None \<Rightarrow> Some CWEB_DEFAULT_LOG_PATH | Some v \<Rightarrow> v))"

text \<open>
  The address to listen on, or the message that ends the program with status 1. The value of a
  node may be \<open>NULL\<close>: the port is converted here, the address is used later.
\<close>

definition server_address :: "'t libtree \<Rightarrow> 't \<Rightarrow> string
    \<Rightarrow> (string + string option \<times> 16 word \<times> httpserv_httpserver_addr_kind_t) res" where
  "server_address lib cfg conf =
     (let q = [CHR 0x27] in
      case tree_get_node lib cfg ''http.ip'' of
        None \<Rightarrow> Inr (Inl (''no entry '' @ q @ ''http.ip'' @ q @ '' in config file '' @ q @ conf @ q))
      | Some ip \<Rightarrow>
         (case tree_get_node lib cfg ''http.port'' of
           None \<Rightarrow> Inr (Inl (''no entry '' @ q @ ''http.port'' @ q @ '' in config file '' @ q @ conf @ q))
         | Some v \<Rightarrow>
             bindR (deref v) (\<lambda>digits.
              let akind = (if tree_get_node lib cfg ''http.v6'' \<noteq> None
                 then HTTPSERV_HTTPSERVER_ADDR_KIND_IPv6 else HTTPSERV_HTTPSERVER_ADDR_KIND_IPv4);
                  port = to_int (strtol digits)
              in if port = 0 then Inr (Inl (q @ ''http.port'' @ q @ '' is invalid''))
                 else Inr (Inr (ip, to_port port, akind)))))"

definition resource_root :: "'t libtree \<Rightarrow> 't \<Rightarrow> string option" where
  "resource_root lib cfg = (case tree_get_node lib cfg ''resource.root'' of None \<Rightarrow> Some ''.'' | Some r \<Rightarrow> r)"

definition setup_ssl :: "('t, 'p) cweb_env \<Rightarrow> 't \<Rightarrow> httpserv_httpserver_t option \<Rightarrow> net
    \<Rightarrow> (httpserv_httpserver_t option \<times> log_event list \<times> net) res" where
  "setup_ssl env cfg srv n =
     (let get = tree_get_node (ce_tree env) cfg in
      if get ''ssl'' = None then Inr (srv, [], n)
      else (case (get ''ssl.certfile'', get ''ssl.privkeyfile'') of
          (Some c, Some k) \<Rightarrow> httpserv_httpserver_use_ssl (ce_openssl env) srv k c n
        | _ \<Rightarrow> Inr (srv, [(ERR, ''SSL won'' @ [CHR 0x27] @ ''t be enabled because either `ssl.certfile` ''
            @ ''or `ssl.privkeyfile` are missing'')], n)))"

text \<open>\<open>threads\<close> is converted from \<open>int\<close> to \<open>size_t\<close>.\<close>

definition thread_count :: "32 word \<Rightarrow> nat" where
  "thread_count t = unat (scast t :: 64 word)"

subsection \<open>The program\<close>

text \<open>From the address on: make the server, set it up, run it, clean up.\<close>

definition cweb_serve :: "('t, 'p) cweb_env \<Rightarrow> options \<Rightarrow> 't \<Rightarrow> string option \<Rightarrow> 16 word
    \<Rightarrow> httpserv_httpserver_addr_kind_t \<Rightarrow> 'p cweb_world \<Rightarrow> (int \<times> 'p cweb_world) run" where
  "cweb_serve env opts cfg ip port akind w =
     bindX (lift_res (deref ip)) (\<lambda>ipaddr.
     bindX (httpserv_httpserver_new (ce_system env) ipaddr port akind (cw_server w)) (\<lambda>(srv, ev1, sw1).
     bindX (lift_res (log_out_all (ce_now env) ev1 (w\<lparr>cw_server := sw1\<rparr>))) (\<lambda>w1.
     bindX (httpserv_router_parse_from_file (ce_regcomp env) (ce_clears env) True (ce_files env) (opt_rpath opts)
         (cw_routes w1)) (\<lambda>(router, ev2, err, rs).
     bindX (lift_res (log_out_all (ce_now env) ev2 (print_err err (w1\<lparr>cw_routes := rs\<rparr>)))) (\<lambda>w2.
     if router = None then ret (1, w2)
     else
       let srv1 = httpserv_httpserver_add_router srv router;
           (loader, ls) = httpserv_resource_loader_new True (resource_root (ce_tree env) cfg) (cw_resources w2);
           srv2 = httpserv_httpserver_add_resource_loader srv1 loader;
           w3 = w2\<lparr>cw_resources := ls\<rparr> in
       bindX (lift_res (setup_ssl env cfg srv2 (s_net (cw_server w3)))) (\<lambda>(srv3, ev3, n).
       bindX (lift_res (log_out_all (ce_now env) ev3 (w3\<lparr>cw_server := (cw_server w3)\<lparr>s_net := n\<rparr>\<rparr>))) (\<lambda>w4.
       case srv3 of
         None \<Rightarrow> ret (1, w4)
       | Some s \<Rightarrow>
           bindX (httpserv_httpserver_run (ce_system env) (ce_conns env) s (thread_count (opt_threads opts)) (cw_server w4))
             (\<lambda>(result, ev4, s', sw).
           bindX (lift_res (log_out_all (ce_now env) ev4 (w4\<lparr>cw_server := sw\<rparr>))) (\<lambda>w5.
           bindX (cweb_cleanup (Some s') w5) (\<lambda>w6.
             ret (if result \<noteq> 0 then 1 else 0, w6)))))))))))"

text \<open>
  The program with its exit status. Detaching forks twice: the first parent returns at
  once, the second prints the pid of the child and cleans up, and the child serves.
\<close>

definition cweb_main :: "('t, 'p) cweb_env \<Rightarrow> string list \<Rightarrow> 'p cweb_world \<Rightarrow> (int \<times> 'p cweb_world) run" where
  "cweb_main env argv w =
     (case parse_args argv default_options [] of
       (err, None) \<Rightarrow> ret (0, print_err err w)
     | (err, Some opts) \<Rightarrow>
         bindX (lift_res (httpserv_config_load (ce_tree env) (ce_files env) (opt_path opts))) (\<lambda>(msg, loaded).
         let w1 = print_err (err @ msg) w in
         case loaded of
           None \<Rightarrow> ret (1, w1)
         | Some cfg \<Rightarrow>
             (let w2 = w1\<lparr>cw_log := httpserv_logging_init (ce_can_log env)
                 (log_path (ce_tree env) cfg opts) (cw_log w1)\<rparr> in
              bindX (lift_res (server_address (ce_tree env) cfg (opt_path opts))) (\<lambda>settings.
              case settings of
                Inl m \<Rightarrow>
                  bindX (lift_res (log_out_all (ce_now env) [(ERR, m)] w2)) (\<lambda>w3.
                  bindX (cweb_cleanup None w3) (\<lambda>w4. ret (1, w4)))
              | Inr (ip, port, akind) \<Rightarrow>
                  if opt_detach opts \<and> fst (fork_results env) \<noteq> 0 then ret (0, w2)
                  else if opt_detach opts \<and> snd (fork_results env) = -1 then
                    ret (1, print_err (''failed to fork process: '' @ error_text (ce_system env) @ [LF]) w2)
                  else if opt_detach opts \<and> snd (fork_results env) > 0 then
                    bindX (cweb_cleanup None w2) (\<lambda>w3. ret (0, w3))
                  else cweb_serve env opts cfg ip port akind w2))))"

end
