(* ===== verification/CwebProps.thy ===== *)
theory CwebProps
  imports Cweb RouterProps ServerProps
begin

section \<open>The web server program: properties\<close>

text \<open>
  The command line read item by item, and what follows for the program: what its options can
  set, what it reports about the configuration, how it ends, and what a signal does.
\<close>

subsection \<open>Options\<close>

lemma is_option_iff:
  "no_nul a \<Longrightarrow> no_nul b \<Longrightarrow> no_nul c \<Longrightarrow> is_option a b c \<longleftrightarrow> a = b \<or> a = c"
  by (simp add: is_option_def)

text \<open>What \<open>-t\<close> converts is the flag itself.\<close>

lemma flag_converts_to_zero: "a = ''-t'' \<or> a = ''--threads'' \<Longrightarrow> to_int (strtol a) = 0"
  by (elim disjE; simp only:; code_simp)

lemma parse_args_step:
  assumes "parse_args (a # args) opts err = (out, Some o')" and "no_nul a"
  shows "\<exists>rest opts2 err2. parse_args rest opts2 err2 = (out, Some o') \<and> length rest \<le> length args
    \<and> set rest \<subseteq> set args \<and> opt_threads opts2 = opt_threads opts"
proof -
  define good where "good x \<longleftrightarrow> (x = (out, Some o') \<longrightarrow> (\<exists>rest opts2 err2. parse_args rest opts2 err2 = (out, Some o')
    \<and> length rest \<le> length args \<and> set rest \<subseteq> set args \<and> opt_threads opts2 = opt_threads opts))" for x
  have same: "good (parse_args args o2 e)" if "opt_threads o2 = opt_threads opts" for o2 e
    unfolding good_def using that by blast
  have valued: "good (case args of [] \<Rightarrow> parse_args [] opts e | f # rest \<Rightarrow> parse_args rest (g f) err)"
    if "\<And>f. opt_threads (g f) = opt_threads opts" for g e
  proof (cases args)
    case Nil
    then show ?thesis by (simp add: good_def)
  next
    case (Cons f rest)
    have "good (parse_args rest (g f) err)" unfolding good_def
      by (intro impI exI [of _ rest] exI [of _ "g f"] exI [of _ err]) (use Cons that in auto)
    then show ?thesis using Cons by (simp del: parse_args.simps)
  qed
  have ends: "good (e, None)" for e by (simp add: good_def)
  have flag: "\<not> is_option a ''-t'' ''--threads'' \<or> to_int (strtol a) = 0"
    using flag_converts_to_zero assms(2) by (auto simp: is_option_iff)
  have "good (parse_args (a # args) opts err)"
    unfolding parse_args.simps(2) Let_def
    using flag by (simp del: parse_args.simps add: ends same valued split: if_split)
  with assms(1) show ?thesis by (simp add: good_def)
qed

lemma parse_args_threads:
  "list_all no_nul args \<Longrightarrow> parse_args args opts err = (out, Some o') \<Longrightarrow> opt_threads o' = opt_threads opts"
proof (induction "length args" arbitrary: args opts err rule: less_induct)
  case less
  show ?case
  proof (cases args)
    case (Cons a as)
    then obtain rest opts2 err2 where rest: "parse_args rest opts2 err2 = (out, Some o')" "length rest \<le> length as"
        "set rest \<subseteq> set as" "opt_threads opts2 = opt_threads opts"
      using parse_args_step [of a as opts err out o'] less.prems by auto
    then have "list_all no_nul rest" using less.prems(1) Cons by (auto simp: list_all_iff)
    with less.hyps [OF _ this rest(1)] rest Cons show ?thesis by simp
  qed (use less.prems in simp)
qed

text \<open>
  The meaning of a command line, item by item. A command line is read from the left: a name of a
  file option takes the argument behind it, whatever that is, unless it is the last one. Every
  name has a short form and a long form.
\<close>

datatype file_option = ConfigFile | LogFile | RouteFile

datatype arg_item = Help bool | Version bool | Threads bool | Detach bool
  | WithFile file_option bool string | WithoutFile file_option bool | Other string

fun file_flag :: "file_option \<Rightarrow> bool \<Rightarrow> string" where
  "file_flag ConfigFile l = (if l then ''--file'' else ''-f'')"
| "file_flag LogFile l = (if l then ''--logfile'' else ''-l'')"
| "file_flag RouteFile l = (if l then ''--routefile'' else ''-r'')"

fun render_arg :: "arg_item \<Rightarrow> string list" where
  "render_arg (Help l) = [if l then ''--help'' else ''-h'']"
| "render_arg (Version l) = [if l then ''--version'' else ''-v'']"
| "render_arg (Threads l) = [if l then ''--threads'' else ''-t'']"
| "render_arg (Detach l) = [if l then ''--detach'' else ''-d'']"
| "render_arg (WithFile k l f) = [file_flag k l, f]"
| "render_arg (WithoutFile k l) = [file_flag k l]"
| "render_arg (Other a) = [a]"

definition flag_names :: "string list" where
  "flag_names = [''-h'', ''--help'', ''-v'', ''--version'', ''-f'', ''--file'', ''-t'', ''--threads'',
     ''-d'', ''--detach'', ''-l'', ''--logfile'', ''-r'', ''--routefile'']"

text \<open>A list of items is a reading of a command line when a name without its file comes last.\<close>

fun reading :: "arg_item list \<Rightarrow> bool" where
  "reading [] \<longleftrightarrow> True"
| "reading (WithoutFile k l # is') \<longleftrightarrow> is' = []"
| "reading (WithFile k l f # is') \<longleftrightarrow> no_nul f \<and> reading is'"
| "reading (Other a # is') \<longleftrightarrow> no_nul a \<and> a \<notin> set flag_names \<and> reading is'"
| "reading (i # is') \<longleftrightarrow> reading is'"

text \<open>What an item prints on stderr, whether it ends the program, and what it sets.\<close>

fun arg_message :: "arg_item \<Rightarrow> string" where
  "arg_message (Help l) = CWEB_HELP_STR @ [LF]"
| "arg_message (Version l) = ''cweb version: 0.1.0'' @ [LF] @ ''libhttpserv version: 0.1.0'' @ [LF]"
| "arg_message (Threads l) = ''invalid format for threads. Using default (10)...'' @ [LF]"
| "arg_message (WithoutFile k l) = ''no file provided. Using default...'' @ [LF]"
| "arg_message _ = []"

fun ends_program :: "arg_item \<Rightarrow> bool" where
  "ends_program (Help l) \<longleftrightarrow> True"
| "ends_program (Version l) \<longleftrightarrow> True"
| "ends_program _ \<longleftrightarrow> False"

fun apply_arg :: "arg_item \<Rightarrow> options \<Rightarrow> options" where
  "apply_arg (WithFile ConfigFile l f) opts = opts\<lparr>opt_path := f\<rparr>"
| "apply_arg (WithFile LogFile l f) opts = opts\<lparr>opt_logpath := Some f\<rparr>"
| "apply_arg (WithFile RouteFile l f) opts = opts\<lparr>opt_rpath := f\<rparr>"
| "apply_arg (Detach l) opts = opts\<lparr>opt_detach := True\<rparr>"
| "apply_arg _ opts = opts"

text \<open>The items up to the first that ends the program, that one included, are those that count.\<close>

definition effective :: "arg_item list \<Rightarrow> arg_item list" where
  "effective is' = takeWhile (\<lambda>i. \<not> ends_program i) is' @ take 1 (dropWhile (\<lambda>i. \<not> ends_program i) is')"

definition command_line_result :: "arg_item list \<Rightarrow> options \<Rightarrow> string \<times> options option" where
  "command_line_result is' opts = (concat (map arg_message (effective is')),
     if list_ex ends_program is' then None else Some (fold apply_arg is' opts))"

lemma version_text: "cweb_print_version = ''cweb version: 0.1.0'' @ [LF] @ ''libhttpserv version: 0.1.0'' @ [LF]"
  by code_simp

lemma parse_item:
  assumes "reading (i # is')"
  shows "parse_args (render_arg i @ concat (map render_arg is')) opts err =
    (if ends_program i then (err @ arg_message i, None)
     else parse_args (concat (map render_arg is')) (apply_arg i opts) (err @ arg_message i))"
proof (cases i)
  case (Other a)
  then show ?thesis using assms by (auto simp: is_option_def flag_names_def)
next
  case (WithFile k l f)
  then show ?thesis by (cases k; cases l) (simp_all add: is_option_def)
next
  case (WithoutFile k l)
  then show ?thesis using assms by (cases k; cases l) (simp_all add: is_option_def)
qed (auto simp: is_option_def version_text flag_converts_to_zero)

lemma parse_items:
  "reading is' \<Longrightarrow> parse_args (concat (map render_arg is')) opts err =
    (err @ fst (command_line_result is' opts), snd (command_line_result is' opts))"
proof (induction is' arbitrary: opts err)
  case (Cons i is')
  have "reading is'" using Cons.prems by (cases i) auto
  with Cons.IH parse_item [OF Cons.prems] show ?case
    by (simp del: parse_args.simps add: command_line_result_def effective_def)
qed (simp add: command_line_result_def effective_def)

text \<open>Every command line has a reading.\<close>

lemma flag_name_cases:
  "a \<in> set flag_names \<Longrightarrow> a \<in> (\<Union>l. {hd (render_arg (Help l)), hd (render_arg (Version l)),
     hd (render_arg (Threads l)), hd (render_arg (Detach l))}) \<or> a \<in> (\<Union>k l. {file_flag k l})"
proof -
  have "set flag_names = set (map (\<lambda>i. hd (render_arg i)) [Help False, Help True, Version False, Version True,
      Threads False, Threads True, Detach False, Detach True]
    @ map (\<lambda>(k, l). file_flag k l) [(ConfigFile, False), (ConfigFile, True), (LogFile, False), (LogFile, True),
      (RouteFile, False), (RouteFile, True)])"
    by (simp add: flag_names_def insert_commute)
  moreover assume "a \<in> set flag_names"
  ultimately show ?thesis by (simp del: render_arg.simps file_flag.simps) blast
qed

lemma flag_cases:
  assumes "no_nul a"
  obtains i where "render_arg i = [a]" and "\<And>is'. reading (i # is') = reading is'"
  | k l where "a = file_flag k l"
proof (cases "a \<in> set flag_names")
  case False
  with assms show thesis by (intro that(1) [of "Other a"]) simp_all
next
  case True
  have "reading (i # is') = reading is' \<and> render_arg i = [hd (render_arg i)]"
    if "i \<in> {Help l, Version l, Threads l, Detach l}" for i l is' using that by auto
  then show thesis using flag_name_cases [OF True] that by (auto simp del: render_arg.simps file_flag.simps reading.simps)
qed

lemma reading_exists: "list_all no_nul argv \<Longrightarrow> \<exists>is'. reading is' \<and> concat (map render_arg is') = argv"
proof (induction "length argv" arbitrary: argv rule: less_induct)
  case less
  show ?case
  proof (cases argv)
    case Nil
    then show ?thesis by (intro exI [of _ "[]"]) simp
  next
    case (Cons a args)
    then have "no_nul a" using less.prems by simp
    then show ?thesis
    proof (cases rule: flag_cases)
      case (1 i)
      have "length args < length argv" "list_all no_nul args" using less.prems Cons by auto
      from less.hyps [OF this] obtain is' where "reading is'" "concat (map render_arg is') = args" by blast
      with 1 Cons show ?thesis by (intro exI [of _ "i # is'"]) simp
    next
      case (2 k l)
      show ?thesis
      proof (cases args)
        case Nil
        then show ?thesis using 2 Cons by (intro exI [of _ "[WithoutFile k l]"]) simp
      next
        case (Cons f rest)
        have "length rest < length argv" "list_all no_nul rest" using less.prems Cons \<open>argv = a # args\<close> by auto
        from less.hyps [OF this] obtain is' where "reading is'" "concat (map render_arg is') = rest" by blast
        with 2 Cons \<open>argv = a # args\<close> less.prems show ?thesis
          by (intro exI [of _ "WithFile k l f # is'"]) simp
      qed
    qed
  qed
qed

subsection \<open>The port\<close>

lemma to_int_zero_iff: "to_int (of_nat n :: 64 word) = 0 \<longleftrightarrow> n mod 2 ^ 32 = 0"
proof -
  have "to_int (of_nat n :: 64 word) = (of_nat n :: 32 word)"
    unfolding to_int_def by (simp add: unsigned_of_nat word_of_nat_eq_iff)
  then show ?thesis by (simp add: word_of_nat_eq_0_iff dvd_eq_mod_eq_0)
qed

lemma to_port_of_nat: "to_port (to_int (of_nat n :: 64 word)) = of_nat n"
  unfolding to_int_def to_port_def by (simp add: unsigned_of_nat word_of_nat_eq_iff)

lemma server_address_of_port:
  assumes "tree_get_node lib cfg ''http.ip'' = Some ip" and "tree_get_node lib cfg ''http.port'' = Some (Some (dec n))"
    and "n < 2 ^ 63"
  shows "server_address lib cfg conf =
    Inr (if n mod 2 ^ 32 = 0 then Inl ([CHR 0x27] @ ''http.port'' @ [CHR 0x27] @ '' is invalid'')
     else Inr (ip, of_nat n, if tree_get_node lib cfg ''http.v6'' \<noteq> None
       then HTTPSERV_HTTPSERVER_ADDR_KIND_IPv6 else HTTPSERV_HTTPSERVER_ADDR_KIND_IPv4))"
proof -
  have "int n \<le> LONG_MAX" using assms(3) by (simp add: LONG_MAX_def)
  then have "strtol (dec n) = of_nat n" using strtol_dec [of n "[]"] by simp
  then show ?thesis using assms(1,2)
    by (auto simp: server_address_def Let_def to_int_zero_iff to_port_of_nat)
qed

subsection \<open>Logging along the way\<close>

lemma log_out_all_ready:
  assumes "logging_ready (cw_log w)"
  shows "\<exists>lg. log_out_all now es w = Inr (w\<lparr>cw_log := lg\<rparr>) \<and> logging_ready lg
    \<and> stderr_text lg = stderr_text (cw_log w) @ concat (map (\<lambda>e. event_line (now, e)) es)"
proof -
  from log_events_lines [OF assms, of "map (\<lambda>e. (now, e)) es"] obtain lg where
    "log_events_out (map (\<lambda>e. (now, e)) es) (cw_log w) = Inr lg"
    "logged (concat (map event_line (map (\<lambda>e. (now, e)) es))) (cw_log w) lg" by blast
  then show ?thesis by (auto simp: log_out_all_def logged_def comp_def)
qed

lemma ready_destroy:
  assumes "logging_ready lg"
  shows "\<exists>lg'. httpserv_logging_destroy lg = Inr lg' \<and> stderr_text lg' = stderr_text lg"
proof -
  obtain b where "httpserv_time_str lg = Inr b" using assms by (auto simp: logging_ready_def)
  with ready_file [OF assms] show ?thesis by (auto simp: httpserv_logging_destroy_def)
qed

lemma print_err_log: "logging_ready (cw_log w) \<Longrightarrow> logging_ready (cw_log (print_err s w))"
  by (simp add: print_err_def logging_ready_def)

subsection \<open>Serving\<close>

text \<open>Destroying a server with a pool never returns normally.\<close>

lemma cleanup_joins:
  assumes "server_ok s" and "pool_at p q (s_pool (cw_server w)) as"
  shows "cweb_cleanup (Some (s\<lparr>sv_tp := Some p, keep_alive := False, alive := False\<rparr>)) w = Some (Inl JoinDetached)"
  using destroy_served [OF assms] by (simp add: cweb_cleanup_def)

text \<open>
  SSL is set up when there is a node for it, which may be one without a value, and both files
  have a node. Then both must have a value, and OpenSSL must accept the files.
\<close>

definition ssl_usable :: "('t, 'p) cweb_env \<Rightarrow> 't \<Rightarrow> bool" where
  "ssl_usable env cfg \<longleftrightarrow>
     (let get = tree_get_node (ce_tree env) cfg; lib = ce_openssl env in
      get ''ssl'' = None \<or> get ''ssl.certfile'' = None \<or> get ''ssl.privkeyfile'' = None
      \<or> (\<exists>c k. get ''ssl.certfile'' = Some (Some c) \<and> get ''ssl.privkeyfile'' = Some (Some k)
           \<and> cert_ok lib c \<and> key_ok lib k \<and> key_fits lib c k))"

lemma setup_ssl_usable:
  assumes "ssl_usable env cfg" and "server_ok s" and "sv_conn s = SckConn f" and "sv_ckind s = HTTPSERV_NET_CONNECTOR_SCK"
  shows "\<exists>s' ev n'. setup_ssl env cfg (Some s) n = Inr (Some s', ev, n') \<and> server_ok s'
    \<and> httpserv_net_connector_get_fd (sv_conn s') (sv_ckind s') n' = Inr f"
proof -
  let ?get = "tree_get_node (ce_tree env) cfg" and ?lib = "ce_openssl env"
  consider (plain) ev where "setup_ssl env cfg (Some s) n = Inr (Some s, ev, n)"
    | (ssl) c k where "setup_ssl env cfg (Some s) n = httpserv_httpserver_use_ssl ?lib (Some s) (Some k) (Some c) n"
        "cert_ok ?lib c" "key_ok ?lib k" "key_fits ?lib c k"
    using assms(1) unfolding ssl_usable_def setup_ssl_def Let_def
    by (cases "?get ''ssl''"; cases "?get ''ssl.certfile''"; cases "?get ''ssl.privkeyfile''") auto
  then show ?thesis
  proof cases
    case plain
    then show ?thesis using assms(2-4) by (simp add: httpserv_net_connector_get_fd_def)
  next
    case ssl
    have "\<exists>s' n'. setup_ssl env cfg (Some s) n = Inr (Some s', [], n')
        \<and> httpserv_net_connector_get_fd (sv_conn s') (sv_ckind s') n' = Inr f"
      unfolding ssl(1) use_ssl_cases [OF assms(3)] using ssl(2-4)
      by (simp add: httpserv_net_connector_get_fd_def conn_ssl_def the_set_def)
    with ssl(1) use_ssl_ok [OF assms(2)] show ?thesis by metis
  qed
qed

lemma cweb_serve_outcome:
  assumes ip: "inet_pton (ce_system env) akind ip = Some a" and sock: "new_socket (ce_system env) akind = f" "0 \<le> f"
    and bind: "can_bind (ce_system env) f (sockaddr akind a port)" and listen: "can_listen (ce_system env) f"
    and spawn: "\<forall>i. can_spawn (ce_system env) i" and ssl: "ssl_usable env cfg"
    and route: "ce_files env (opt_rpath opts) = Inr bytes" "list_all (good_word (ce_regcomp env)) (tokens bytes)"
      "tokens bytes \<noteq> [] \<or> ce_clears env" "cw_routes w = empty_router_state"
    and pools: "tp_wf (s_pool (cw_server w))" "wf_store (pools (s_pool (cw_server w)))"
    and conns: "ce_conns env = map (\<lambda>c. (c, NoSignal)) cs @ [(c, sig)]" "sig \<noteq> NoSignal"
    and threads: "0 < thread_count (opt_threads opts)" and ready: "logging_ready (cw_log w)"
  shows "cweb_serve env opts cfg (Some ip) port akind w = Some (Inl JoinDetached)"
proof -
  let ?serv = "\<lparr>sv_conn = SckConn f, sv_ckind = HTTPSERV_NET_CONNECTOR_SCK, sv_addr = sockaddr akind a port,
                sv_akind = akind, sv_tp = None, alive = False, keep_alive = False, sv_ip = ip, sv_port = port,
                sv_router = None, sv_resload = None\<rparr>"
  let ?sw = "(cw_server w)\<lparr>s_net := emit [Bound f port] (s_net (cw_server w))\<rparr>"
  have new: "httpserv_httpserver_new (ce_system env) ip port akind (cw_server w) = ret (Some ?serv, [], ?sw)"
    using ip sock bind by (simp add: httpserv_httpserver_new_def Let_def)
  let ?w1 = "w\<lparr>cw_server := ?sw\<rparr>"
  have none: "log_out_all now [] v = Inr v" for now and v :: "'c cweb_world" by (simp add: log_out_all_def)
  from route_file_good [where fs = "ce_files env" and path = "opt_rpath opts", OF route(1-3)] obtain rs where
    rs: "httpserv_router_parse_from_file (ce_regcomp env) (ce_clears env) True (ce_files env) (opt_rpath opts)
      (cw_routes ?w1) = ret (Some 0, [], [], rs)" using route(4) by auto
  let ?w2 = "print_err [] (?w1\<lparr>cw_routes := rs\<rparr>)"
  obtain ld ls where ls: "httpserv_resource_loader_new True (resource_root (ce_tree env) cfg) (cw_resources ?w2)
      = (ld, ls)" by (cases "httpserv_resource_loader_new True (resource_root (ce_tree env) cfg) (cw_resources ?w2)")
  let ?s = "?serv\<lparr>sv_router := Some 0, sv_resload := ld\<rparr>"
  let ?w3 = "?w2\<lparr>cw_resources := ls\<rparr>"
  have srv: "cw_server ?w3 = ?sw" by (simp add: print_err_def)
  have "server_ok ?s" using sock(2) by (simp add: server_ok_def)
  from setup_ssl_usable [OF ssl this, of f "s_net ?sw"] obtain s' ev3 n' where set_up:
    "setup_ssl env cfg (Some ?s) (s_net ?sw) = Inr (Some s', ev3, n')" "server_ok s'"
    "httpserv_net_connector_get_fd (sv_conn s') (sv_ckind s') n' = Inr f" by auto
  let ?sw' = "?sw\<lparr>s_net := n'\<rparr>"
  have "logging_ready (cw_log (?w3\<lparr>cw_server := ?sw'\<rparr>))"
    using print_err_log [of "?w1\<lparr>cw_routes := rs\<rparr>" "[]"] ready by simp
  from log_out_all_ready [OF this, of "ce_now env" ev3] obtain lg3 where lg3: "logging_ready lg3"
    "log_out_all (ce_now env) ev3 (?w3\<lparr>cw_server := ?sw'\<rparr>) = Inr (?w3\<lparr>cw_server := ?sw', cw_log := lg3\<rparr>)" by auto
  from server_run_outcome [OF set_up(2), of ?sw' f, of "thread_count (opt_threads opts)" "ce_system env" sig cs c]
  obtain ev p q bs sw' where run: "httpserv_httpserver_run (ce_system env) (ce_conns env) s'
      (thread_count (opt_threads opts)) ?sw'
      = ret (0, ev, s'\<lparr>sv_tp := Some p, keep_alive := False, alive := False\<rparr>, sw')" "pool_at p q (s_pool sw') bs"
    using pools spawn threads listen conns set_up(3) by auto
  from log_out_all_ready [of "?w3\<lparr>cw_log := lg3, cw_server := sw'\<rparr>" "ce_now env" ev] lg3(1) obtain lg where lg:
    "log_out_all (ce_now env) ev (?w3\<lparr>cw_log := lg3, cw_server := sw'\<rparr>) = Inr (?w3\<lparr>cw_server := sw', cw_log := lg\<rparr>)"
    by auto
  have clean: "cweb_cleanup (Some (s'\<lparr>sv_tp := Some p, keep_alive := False, alive := False\<rparr>))
      (?w3\<lparr>cw_server := sw', cw_log := lg\<rparr>) = Some (Inl JoinDetached)"
    by (rule cleanup_joins [OF set_up(2)]) (use run(2) in simp)
  show ?thesis
    unfolding cweb_serve_def deref_def option.case bindX_simps new ret_def prod.case none
      rs [unfolded ret_def]
    using ls srv set_up(1) lg3(2) run(1) lg clean
    by (simp add: httpserv_httpserver_add_router_def httpserv_httpserver_add_resource_loader_def none ret_def)
qed

subsection \<open>Properties\<close>

text \<open>
  C28: every command line can be read item by item, and the option loop does what that reading
  says: the items count from the left up to the first \<open>-h\<close> or \<open>-v\<close>, whose text is the last that is
  printed and after which the program exits; a file option takes the argument behind it, the last
  of a kind counting, and is reported when it is the last argument; \<open>-t\<close> is always reported as
  invalid and takes no argument; all other arguments (the program's own name among them) are
  skipped without a message. Long and short names are alike.
\<close>

theorem options_parsed:
  assumes "list_all no_nul argv"
  shows "(\<exists>items. reading items \<and> concat (map render_arg items) = argv)
    \<and> (\<forall>items. reading items \<and> concat (map render_arg items) = argv
        \<longrightarrow> parse_args argv default_options [] = command_line_result items default_options)"
proof (intro conjI allI impI)
  show "\<exists>items. reading items \<and> concat (map render_arg items) = argv" by (rule reading_exists [OF assms])
  show "parse_args argv default_options [] = command_line_result items default_options"
    if "reading items \<and> concat (map render_arg items) = argv" for items
    using parse_items [of items default_options "[]"] that by (simp del: parse_args.simps)
qed

theorem options_parsed_witness:
  "parse_args [''./cweb'', ''-f'', ''a'', ''--file'', ''-d'', ''-t'', ''4'', ''-l''] default_options []
      = (''invalid format for threads. Using default (10)...'' @ [LF] @ ''no file provided. Using default...'' @ [LF],
         Some (default_options\<lparr>opt_path := ''-d''\<rparr>))
    \<and> parse_args [''./cweb'', ''-d'', ''-v'', ''-h''] default_options [] = (cweb_print_version, None)"
proof -
  have 1: "parse_args (concat (map render_arg items)) default_options [] = command_line_result items default_options"
    if "reading items" "list_all no_nul (concat (map render_arg items))" for items
    using options_parsed [OF that(2)] that(1) by blast
  show ?thesis
    using 1 [of "[Other ''./cweb'', WithFile ConfigFile False ''a'', WithFile ConfigFile True ''-d'', Threads False,
        Other ''4'', WithoutFile LogFile False]"]
      1 [of "[Other ''./cweb'', Detach False, Version False, Help False]"]
    by (simp del: parse_args.simps
        add: flag_names_def command_line_result_def effective_def default_options_def version_text)
qed

text \<open>
  the number of threads cannot be set: whatever the command line says, the server runs with
  ten, because the option converts its own name instead of its argument.
\<close>

theorem threads_option_ignored:
  assumes "list_all no_nul argv" and "parse_args argv default_options [] = (out, Some opts)"
  shows "thread_count (opt_threads opts) = 10"
proof -
  have "opt_threads opts = 10"
    using parse_args_threads [OF assms] by (simp add: default_options_def CWEB_THREADS_DEFAULT_def)
  moreover have "thread_count 10 = 10" by code_simp
  ultimately show ?thesis by simp
qed

theorem threads_option_ignored_witness:
  "\<exists>out opts. parse_args [''cweb'', ''-t'', ''4''] default_options [] = (out, Some opts) \<and> thread_count (opt_threads opts) = 10"
proof -
  have "map_option opt_detach (snd (parse_args [''cweb'', ''-t'', ''4''] default_options [])) = Some False" by code_simp
  then obtain out opts where o: "parse_args [''cweb'', ''-t'', ''4''] default_options [] = (out, Some opts)"
    by (cases "parse_args [''cweb'', ''-t'', ''4''] default_options []") auto
  from threads_option_ignored [OF _ o] o show ?thesis by simp
qed

text \<open>
  the port of the configuration is taken modulo 65536 without a message (65536 becomes port
  0); it is refused only when its lower 32 bits are all zero.
\<close>

theorem port_narrowed:
  assumes "tree_get_node lib cfg ''http.ip'' = Some ip" and "tree_get_node lib cfg ''http.port'' = Some (Some (dec n))"
    and "n < 2 ^ 63"
  shows "if n mod 2 ^ 32 = 0
    then server_address lib cfg conf = Inr (Inl ([CHR 0x27] @ ''http.port'' @ [CHR 0x27] @ '' is invalid''))
    else \<exists>port akind. server_address lib cfg conf = Inr (Inr (ip, port, akind)) \<and> unat port = n mod 65536"
  using server_address_of_port [OF assms, of conf] by (simp add: unat_of_nat)

theorem port_narrowed_witness:
  "\<exists>port akind. server_address alist_tree [(''http.ip'', ''::1''), (''http.port'', dec 65536)] ''c'' = Inr (Inr (Some ''::1'', port, akind))
    \<and> unat port = 0"
  using port_narrowed [of alist_tree "[(''http.ip'', ''::1''), (''http.port'', dec 65536)]" "Some ''::1''" 65536 "''c''"]
  by (simp add: alist_tree_def alist_node_def)

text \<open>
  a configuration without an address or a port, or with a port that does not convert, ends
  the program with status 1 after one line of error in the log; no socket is made.
\<close>

theorem bad_settings_reported:
  assumes "parse_args argv default_options [] = (err, Some opts)"
    and "httpserv_config_load (ce_tree env) (ce_files env) (opt_path opts) = Inr (msg, Some cfg)"
    and "server_address (ce_tree env) cfg (opt_path opts) = Inr (Inl m)"
  shows "\<exists>w'. cweb_main env argv w = ret (1, w') \<and> cw_server w' = cw_server w
    \<and> stderr_text (cw_log w') = stderr_text (cw_log w) @ err @ msg @ event_line (ce_now env, ERR, m)"
proof -
  let ?w1 = "print_err (err @ msg) w"
  let ?w2 = "?w1\<lparr>cw_log := httpserv_logging_init (ce_can_log env) (log_path (ce_tree env) cfg opts) (cw_log ?w1)\<rparr>"
  have "logging_ready (cw_log ?w2)" using init_ready by simp
  from log_out_all_ready [OF this, of "ce_now env" "[(ERR, m)]"] obtain lg where lg:
    "log_out_all (ce_now env) [(ERR, m)] ?w2 = Inr (?w2\<lparr>cw_log := lg\<rparr>)" "logging_ready lg"
    "stderr_text lg = stderr_text (cw_log ?w2) @ event_line (ce_now env, ERR, m)" by auto
  from ready_destroy [OF lg(2)] obtain lg' where lg': "httpserv_logging_destroy lg = Inr lg'"
    "stderr_text lg' = stderr_text lg" by blast
  have clean: "cweb_cleanup None (?w2\<lparr>cw_log := lg\<rparr>) = ret (?w2\<lparr>cw_log := lg'\<rparr>)"
    using lg'(1) by (simp add: cweb_cleanup_def httpserv_httpserver_destroy_def ret_def)
  have "cweb_main env argv w = bindX (lift_res (log_out_all (ce_now env) [(ERR, m)] ?w2)) (\<lambda>w3.
      bindX (cweb_cleanup None w3) (\<lambda>w4. ret (1, w4)))"
    unfolding cweb_main_def assms(1) prod.case option.case assms(2) bindX_simps Let_def assms(3) sum.case ..
  then have "cweb_main env argv w = ret (1, ?w2\<lparr>cw_log := lg'\<rparr>)" using lg(1) clean by (simp add: ret_def)
  moreover have "stderr_text lg' = stderr_text (cw_log w) @ err @ msg @ event_line (ce_now env, ERR, m)"
    using lg'(2) lg(3) by (simp add: print_err_def httpserv_logging_init_def)
  moreover have "?w2\<lparr>cw_log := lg'\<rparr> = w\<lparr>cw_log := lg'\<rparr>" by (simp add: print_err_def)
  ultimately show ?thesis by (intro exI [of _ "w\<lparr>cw_log := lg'\<rparr>"]) simp
qed

definition example_cweb :: "((string \<times> string) list, string) cweb_env" where
  "example_cweb = \<lparr>ce_tree = alist_tree, ce_files = (\<lambda>f. if f = ''c'' then Inr (''http.ip = 127.0.0.1'' @ [LF] @ ''http.port = 8080'' @ [LF])
       else if f = ''r'' then Inr (''/a=>/b'' @ [LF]) else if f = ''e'' then Inr []
       else if f = ''s'' then Inr (''http.ip = 127.0.0.1'' @ [LF] @ ''http.port = 8080'' @ [LF] @ ''ssl.certfile = cert'' @ [LF]
         @ ''ssl.privkeyfile = key'' @ [LF]) else Inl ''No such file''),
     ce_regcomp = Some, ce_clears = False, ce_can_log = (\<lambda>_. True), ce_now = some_time,
     ce_system = example_system, ce_openssl = example_ssl, fork_results = (0, 0), ce_conns = [(5, NoSignal), (6, DuringAccept)]\<rparr>"

definition example_cweb_world :: "string cweb_world" where
  "example_cweb_world = \<lparr>cw_log = logging_start, cw_server = idle_world, cw_routes = empty_router_state,
     cw_resources = \<lparr>resources = empty_store, loaders = empty_store, open_fds = [], mapped = 0\<rparr>\<rparr>"

theorem bad_settings_reported_witness:
  "\<exists>w'. cweb_main example_cweb [''cweb'', ''-f'', ''e''] example_cweb_world = ret (1, w')
    \<and> take 40 (stderr_text (cw_log w')) = ''[2022-01-31 07:05:59] Error: no entry '' @ [CHR 0x27] @ ''h''"
proof -
  let ?o = "default_options\<lparr>opt_path := ''e''\<rparr>"
  let ?q = "[CHR 0x27]"
  let ?m = "''no entry '' @ ?q @ ''http.ip'' @ ?q @ '' in config file '' @ ?q @ ''e'' @ ?q"
  have 1: "parse_args [''cweb'', ''-f'', ''e''] default_options [] = ([], Some ?o)" by (simp add: is_option_def)
  have 2: "httpserv_config_load (ce_tree example_cweb) (ce_files example_cweb) (opt_path ?o) = Inr ([], Some [])"
    by (simp add: example_cweb_def alist_tree_def) code_simp
  have 3: "server_address (ce_tree example_cweb) [] (opt_path ?o) = Inr (Inl ?m)"
    by (simp add: example_cweb_def server_address_def alist_tree_def alist_node_def Let_def)
  have 4: "take 40 (event_line (some_time, ERR, ?m)) = ''[2022-01-31 07:05:59] Error: no entry '' @ [CHR 0x27] @ ''h''"
    by code_simp
  from bad_settings_reported [OF 1 2 3, of example_cweb_world] obtain w' where
    "cweb_main example_cweb [''cweb'', ''-f'', ''e''] example_cweb_world = ret (1, w')"
    "stderr_text (cw_log w') = event_line (some_time, ERR, ?m)"
    by (auto simp: example_cweb_world_def logging_start_def example_cweb_def)
  with 4 show ?thesis by metis
qed

text \<open>
  the values of the nodes are used without a test: when the node of the address or of the port
  is there without a value, because the file only has entries below it, the program reads
  through \<open>NULL\<close>.
\<close>

theorem valueless_settings_crash:
  assumes "parse_args argv default_options [] = (err, Some opts)" and "\<not> opt_detach opts"
    and "httpserv_config_load (ce_tree env) (ce_files env) (opt_path opts) = Inr (msg, Some cfg)"
    and "tree_get_node (ce_tree env) cfg ''http.ip'' = Some ip"
    and "tree_get_node (ce_tree env) cfg ''http.port'' = Some port"
    and "port = None \<or> ip = None \<and> to_int (strtol (the port)) \<noteq> 0"
  shows "cweb_main env argv w = Some (Inl NullDeref)"
proof (cases port)
  case None
  then have "server_address (ce_tree env) cfg (opt_path opts) = Inl NullDeref"
    using assms(4,5) by (simp add: server_address_def)
  then show ?thesis using assms(1,3) by (simp add: cweb_main_def Let_def)
next
  case (Some digits)
  then obtain p k where "server_address (ce_tree env) cfg (opt_path opts) = Inr (Inr (None, p, k))"
    using assms(4-6) by (simp add: server_address_def Let_def)
  moreover have "cweb_serve env opts cfg None p k w' = Some (Inl NullDeref)" for w' by (simp add: cweb_serve_def)
  ultimately show ?thesis using assms(1-3) by (simp add: cweb_main_def Let_def)
qed

theorem valueless_settings_crash_witness:
  "cweb_main (example_cweb\<lparr>ce_files := (\<lambda>_. Inr (''http.ip = ::1'' @ [LF] @ ''http.port.ssl = 1'' @ [LF]))\<rparr>)
    [''cweb''] example_cweb_world = Some (Inl NullDeref)"
proof -
  let ?env = "example_cweb\<lparr>ce_files := (\<lambda>_. Inr (''http.ip = ::1'' @ [LF] @ ''http.port.ssl = 1'' @ [LF]))\<rparr>"
  let ?cfg = "[(''http.port.ssl'', ''1''), (''http.ip'', ''::1'')]"
  have 1: "parse_args [''cweb''] default_options [] = ([], Some default_options)" by (simp add: is_option_def)
  have "httpserv_config_load alist_tree (\<lambda>_. Inr (''http.ip = ::1'' @ [LF] @ ''http.port.ssl = 1'' @ [LF])) CWEB_DEFAULT_CONF_PATH
      = Inr ([], Some ?cfg)" by code_simp
  then have 2: "httpserv_config_load (ce_tree ?env) (ce_files ?env) (opt_path default_options) = Inr ([], Some ?cfg)"
    by (simp add: example_cweb_def default_options_def)
  have nodes: "alist_node ?cfg ''http.ip'' = Some (Some ''::1'')" "alist_node ?cfg ''http.port'' = Some None" by code_simp+
  show ?thesis
    by (rule valueless_settings_crash [OF 1 _ 2, of "Some ''::1''" None])
      (use nodes in \<open>simp_all add: example_cweb_def alist_tree_def default_options_def\<close>)
qed

text \<open>
  C36: with good settings and a good route file, with or without SSL, the program serves every
  connection until the signal handler stops it, and then never ends properly: cleaning up destroys the
  server, which joins detached threads.
\<close>

theorem serving_ends_undefined:
  assumes "parse_args argv default_options [] = (err, Some opts)" and "\<not> opt_detach opts" and "list_all no_nul argv"
    and "httpserv_config_load (ce_tree env) (ce_files env) (opt_path opts) = Inr (msg, Some cfg)"
    and "server_address (ce_tree env) cfg (opt_path opts) = Inr (Inr (Some ip, port, akind))"
    and "ssl_usable env cfg"
    and "inet_pton (ce_system env) akind ip = Some a" and "new_socket (ce_system env) akind = f" and "0 \<le> f"
    and "can_bind (ce_system env) f (sockaddr akind a port)" and "can_listen (ce_system env) f"
    and "\<forall>i. can_spawn (ce_system env) i"
    and "ce_files env (opt_rpath opts) = Inr bytes" and "list_all (good_word (ce_regcomp env)) (tokens bytes)"
    and "tokens bytes \<noteq> [] \<or> ce_clears env" and "cw_routes w = empty_router_state"
    and "tp_wf (s_pool (cw_server w))" and "wf_store (pools (s_pool (cw_server w)))"
    and "ce_conns env = map (\<lambda>c. (c, NoSignal)) cs @ [(c, sig)]" and "sig \<noteq> NoSignal"
  shows "cweb_main env argv w = Some (Inl JoinDetached)"
proof -
  let ?w2 = "(print_err (err @ msg) w)\<lparr>cw_log := httpserv_logging_init (ce_can_log env)
      (log_path (ce_tree env) cfg opts) (cw_log (print_err (err @ msg) w))\<rparr>"
  have "opt_threads opts = 10" using parse_args_threads [OF assms(3,1)]
    by (simp add: default_options_def CWEB_THREADS_DEFAULT_def)
  moreover have "thread_count 10 = 10" by code_simp
  ultimately have "0 < thread_count (opt_threads opts)" by simp
  then have "cweb_serve env opts cfg (Some ip) port akind ?w2 = Some (Inl JoinDetached)"
    using assms init_ready by (intro cweb_serve_outcome [where a = a and f = f and bytes = bytes and cs = cs and c = c and sig = sig])
      (simp_all add: print_err_def)
  with assms(2) show ?thesis
    unfolding cweb_main_def assms(1) prod.case option.case assms(4) bindX_simps Let_def assms(5) sum.case by simp
qed

theorem serving_ends_undefined_witness:
  "cweb_main example_cweb [''cweb'', ''-f'', ''s'', ''-r'', ''r''] example_cweb_world = Some (Inl JoinDetached)"
proof -
  let ?o = "default_options\<lparr>opt_path := ''s'', opt_rpath := ''r''\<rparr>"
  let ?cfg = "[(''ssl.privkeyfile'', ''key''), (''ssl.certfile'', ''cert''), (''http.port'', ''8080''), (''http.ip'', ''127.0.0.1'')]"
  have 1: "parse_args [''cweb'', ''-f'', ''s'', ''-r'', ''r''] default_options [] = ([], Some ?o)"
    by (simp add: is_option_def)
  have "httpserv_config_load alist_tree (\<lambda>_. Inr (''http.ip = 127.0.0.1'' @ [LF] @ ''http.port = 8080'' @ [LF]
      @ ''ssl.certfile = cert'' @ [LF] @ ''ssl.privkeyfile = key'' @ [LF])) ''s'' = Inr ([], Some ?cfg)" by code_simp
  then have 2: "httpserv_config_load (ce_tree example_cweb) (ce_files example_cweb) (opt_path ?o) = Inr ([], Some ?cfg)"
    by (simp add: example_cweb_def httpserv_config_load_def)
  have "server_address alist_tree ?cfg ''s'' = Inr (Inr (Some ''127.0.0.1'', 8080, HTTPSERV_HTTPSERVER_ADDR_KIND_IPv4))"
    by code_simp
  then have 3: "server_address (ce_tree example_cweb) ?cfg (opt_path ?o)
      = Inr (Inr (Some ''127.0.0.1'', 8080, HTTPSERV_HTTPSERVER_ADDR_KIND_IPv4))" by (simp add: example_cweb_def)
  have "alist_node ?cfg ''ssl'' = Some None" "alist_node ?cfg ''ssl.certfile'' = Some (Some ''cert'')"
    "alist_node ?cfg ''ssl.privkeyfile'' = Some (Some ''key'')" by code_simp+
  then have ssl: "ssl_usable example_cweb ?cfg"
    by (simp add: ssl_usable_def example_cweb_def alist_tree_def example_ssl_def)
  have t: "tokens (''/a=>/b'' @ [LF]) = [''/a=>/b'']" by code_simp
  show ?thesis
    by (rule serving_ends_undefined [OF 1 _ _ 2 3 ssl, of 1 3 "''/a=>/b'' @ [LF]" example_cweb_world "[5]" 6 DuringAccept])
      (use no_pools_wf t in \<open>simp_all add: example_cweb_def example_system_def example_cweb_world_def
        idle_world_def default_options_def good_word_def\<close>)
qed

text \<open>
  the handler of SIGINT dereferences \<open>NULL\<close> while there is no server yet; while the server
  runs it prints the first eleven characters of its message and lets the run end at its
  next test; and after a run it cleans up, joining detached threads.
\<close>

theorem sigint_outcomes:
  "handle_sigint None w = Some (Inl NullDeref)
   \<and> (alive s \<longrightarrow> handle_sigint (Some s) w = ret (''got SIGINT.'', Resumes (s\<lparr>keep_alive := False\<rparr>)))
   \<and> (server_ok s' \<longrightarrow> pool_at p q (s_pool (cw_server w)) as
      \<longrightarrow> handle_sigint (Some (s'\<lparr>sv_tp := Some p, keep_alive := False, alive := False\<rparr>)) w = Some (Inl JoinDetached))"
  using cleanup_joins [of s' p q w as] by (auto simp: handle_sigint_def deref_def Let_def)

theorem sigint_outcomes_witness:
  "handle_sigint (Some (example_server\<lparr>alive := True\<rparr>)) example_cweb_world
    = ret (''got SIGINT.'', Resumes (example_server\<lparr>alive := True, keep_alive := False\<rparr>))"
  using sigint_outcomes [of example_cweb_world "example_server\<lparr>alive := True\<rparr>"] by (simp add: example_server_def)

end
