(* ===== verification/Release.thy ===== *)
theory Release
  imports Request CHeap
begin

section \<open>Releasing a request and a configuration\<close>

subsection \<open>Requests (src/http/request.c)\<close>

text \<open>
  \<open>httpserv_http_request_destroy\<close> frees the path, the headers with their array, and the
  body; the model lists what it hands to \<open>free\<close>. The record itself is not freed.
\<close>

datatype request_part = PathPart | ReqHeaderPart nat | ReqHeaderArrayPart | ReqBodyPart

definition httpserv_http_request_destroy :: "httpserv_http_request_t option \<Rightarrow> request_part list res" where
  "httpserv_http_request_destroy req =
     bindR (deref req) (\<lambda>r.
       Inr ([PathPart]
         @ (if numheaders r = 0 then [] else map ReqHeaderPart [0..<numheaders r] @ [ReqHeaderArrayPart])
         @ (if body r \<noteq> None then [ReqBodyPart] else [])))"

subsection \<open>The configuration tree (src/config.c)\<close>

text \<open>
  What the code uses of a node of the tree library: the pointer to its value and its
  children. The values are objects of a store; what \<open>tree_destroy\<close> itself does to them is
  a parameter.
\<close>

datatype tree_node = Node (node_value: ref) (node_children: "tree_node list")

fun httpserv_config_node_destroy :: "tree_node \<Rightarrow> string store \<Rightarrow> string store res"
  and destroy_children :: "tree_node list \<Rightarrow> string store \<Rightarrow> string store res" where
  "httpserv_config_node_destroy (Node v cs) h = bindR (release h v) (destroy_children cs)"
| "destroy_children [] h = Inr h"
| "destroy_children (c # cs) h = bindR (httpserv_config_node_destroy c h) (destroy_children cs)"

text \<open>A configuration may be \<open>NULL\<close>, and so may its root.\<close>

definition httpserv_config_destroy :: "(tree_node option \<Rightarrow> string store \<Rightarrow> string store res)
    \<Rightarrow> tree_node option option \<Rightarrow> string store \<Rightarrow> string store res" where
  "httpserv_config_destroy tree_destroy cfg h = (case cfg of
     None \<Rightarrow> Inr h
   | Some rt \<Rightarrow>
       bindR (case rt of None \<Rightarrow> Inr h | Some n \<Rightarrow> httpserv_config_node_destroy n h) (tree_destroy rt))"

subsection \<open>What is freed\<close>

fun node_values :: "tree_node \<Rightarrow> nat list" and children_values :: "tree_node list \<Rightarrow> nat list" where
  "node_values (Node v cs) = (case v of None \<Rightarrow> [] | Some a \<Rightarrow> [a]) @ children_values cs"
| "children_values [] = []"
| "children_values (c # cs) = node_values c @ children_values cs"

definition without :: "nat list \<Rightarrow> string store \<Rightarrow> string store" where
  "without as h = h\<lparr>cells := (\<lambda>a. if a \<in> set as then None else cells h a)\<rparr>"

lemma without_simps [simp]:
  "without [] h = h"
  "without as (without bs h) = without (bs @ as) h"
  "cells (without as h) a = (if a \<in> set as then None else cells h a)"
  by (auto simp: without_def fun_eq_iff)

lemma release_without: "cells h a = Some s \<Longrightarrow> release h (Some a) = Inr (without [a] h)"
  by (auto simp: heap_simps without_def fun_upd_def)

lemma node_destroy_frees:
  "distinct (node_values n) \<Longrightarrow> \<forall>a \<in> set (node_values n). cells h a \<noteq> None \<Longrightarrow>
    httpserv_config_node_destroy n h = Inr (without (node_values n) h)"
  "distinct (children_values cs) \<Longrightarrow> \<forall>a \<in> set (children_values cs). cells h a \<noteq> None \<Longrightarrow>
    destroy_children cs h = Inr (without (children_values cs) h)"
proof (induction n h and cs h rule: httpserv_config_node_destroy_destroy_children.induct)
  case (1 v cs h)
  show ?case
  proof (cases v)
    case None
    with 1 show ?thesis by (simp add: heap_simps)
  next
    case (Some a)
    then obtain s where s: "cells h a = Some s" using 1(3) by auto
    then have r: "release h v = Inr (without [a] h)" using Some release_without by simp
    from 1(1) [OF r] 1(2,3) Some r show ?thesis by fastforce
  qed
next
  case (3 c cs h)
  then have c: "httpserv_config_node_destroy c h = Inr (without (node_values c) h)" by simp
  from 3(2) [OF c] 3(3,4) c show ?case by fastforce
qed simp

text \<open>
  destroying a configuration frees the value of every node exactly once and touches
  nothing else, before the tree library destroys the tree itself; this needs every value to
  be of its own.
\<close>

theorem config_destroy_frees:
  assumes "distinct (node_values n)" and "\<forall>a \<in> set (node_values n). cells h a \<noteq> None"
  shows "httpserv_config_destroy (\<lambda>_. Inr) (Some (Some n)) h = Inr (without (node_values n) h)
    \<and> httpserv_config_destroy (\<lambda>_. Inr) None h = Inr h"
  using node_destroy_frees(1) [OF assms] by (simp add: httpserv_config_destroy_def)

theorem config_destroy_frees_witness:
  "\<exists>h. httpserv_config_destroy (\<lambda>_. Inr) (Some (Some (Node None [Node (Some 0) [Node (Some 1) []]])))
    \<lparr>cells = [0 \<mapsto> ''8080'', 1 \<mapsto> ''x'', 2 \<mapsto> ''y''], fresh = 3\<rparr> = Inr h \<and> cells h = [2 \<mapsto> ''y'']"
proof -
  let ?h = "\<lparr>cells = [0 \<mapsto> ''8080'', 1 \<mapsto> ''x'', 2 \<mapsto> ''y''], fresh = 3\<rparr> :: string store"
  have "cells (without [0, 1] ?h) = [2 \<mapsto> ''y'']" by (auto simp: without_def fun_eq_iff)
  then show ?thesis
    using config_destroy_frees [of "Node None [Node (Some 0) [Node (Some 1) []]]" ?h] by simp
qed

end
