(* ===== verification/CallsAlone.thy ===== *)
theory CallsAlone
  imports ThreadpoolProps
begin

section \<open>Calls that run alone\<close>

text \<open>
  The functions of src/job.c and src/threadpool.c have two models: one definition per function,
  for a thread that is not disturbed, and the step relations for threads that are. They agree:
  where a thread takes all its steps in one go, its steps do what the definition says.
\<close>

subsection \<open>Adding work\<close>

lemma load_InrD: "load h (Some a) = Inr n \<Longrightarrow> cells h a = Some n"
  by (simp add: load_def split: option.splits)

lemma add_work_parts:
  assumes "threadpool_add_work True True (Some p) f x st = ret (r, ev, st')"
    and "cells (pools st) p = Some y" and "tp_queue y = Some q"
  shows "\<exists>a js js1 j. threadpool_job_new True True f x (tp_jobs st) = (Some a, ev, js)
    \<and> threadpool_job_queue_add_job (Some q) (Some a) js = ret js1 \<and> tp_jobs st' = js1
    \<and> cells (jobs js1) a = Some j \<and> job_jres j = r"
proof -
  obtain b ev1 js where new: "threadpool_job_new True True f x (tp_jobs st) = (b, ev1, js)" by (metis prod_cases3)
  then obtain a where a: "b = Some a" by (auto simp: threadpool_job_new_def split: prod.splits)
  with assms new show ?thesis
    by (auto simp: threadpool_add_work_def bindX_ret_iff ret_def heap_simps dest: load_InrD)
qed

text \<open>One of the sleeping workers, if there is one, is woken.\<close>

definition wakes_one :: "nat \<Rightarrow> (nat \<Rightarrow> worker_pc) \<Rightarrow> (nat \<Rightarrow> worker_pc) \<Rightarrow> bool" where
  "wakes_one n pcs pcs' \<longleftrightarrow> (if \<exists>w < n. pcs w = WAsleep
     then \<exists>w < n. pcs w = WAsleep \<and> pcs' = pcs(w := WWoken) else pcs' = pcs)"

lemma client_call_steps:
  assumes idle: "client_at s c = CIdle" and free: "mutex_holder s = None"
    and new: "threadpool_job_new True True f x (run_jobs s) = (Some a, ev, js)"
    and add: "threadpool_job_queue_add_job (Some q) (Some a) js = ret js1"
  shows "\<exists>t. pool_steps n call q s t \<and> run_jobs t = js1 \<and> mutex_holder t = None \<and> client_at t = client_at s
    \<and> history t = history s @ [Added a] \<and> cancelled t = cancelled s
    \<and> wakes_one n (worker_at s) (worker_at t)"
proof -
  let ?s1 = "move_client c (CLock a) (s\<lparr>run_jobs := js\<rparr>)"
  let ?s2 = "move_client c (CAdd a) (?s1\<lparr>mutex_holder := Some (PClient c)\<rparr>)"
  let ?s3 = "move_client c CSignal (?s2\<lparr>run_jobs := js1, history := history ?s2 @ [Added a]\<rparr>)"
  have 1: "pool_step n call q s ?s1" using c_new [OF idle new] by (rule starts)
  have 2: "pool_step n call q ?s1 ?s2" by (rule client [OF c_lock [of ?s1 c a]]) (use free in simp_all)
  have 3: "pool_step n call q ?s2 ?s3" by (rule client [OF c_add [of ?s2 c a]]) (use add in simp_all)
  have 123: "pool_steps n call q s ?s3" using pool_refl 1 2 3 by (blast intro: pool_trans)
  have leave: "\<exists>t. pool_steps n call q s t \<and> run_jobs t = js1 \<and> mutex_holder t = None \<and> client_at t = client_at s
      \<and> history t = history s @ [Added a] \<and> cancelled t = cancelled s \<and> worker_at t = worker_at u"
    if "pool_step n call q ?s3 u" "client_at u c = CUnlock" "run_jobs u = js1" "history u = history s @ [Added a]"
      "cancelled u = cancelled s" "(client_at u)(c := CIdle) = client_at s" for u
  proof -
    have "pool_step n call q u (move_client c CIdle (u\<lparr>mutex_holder := None\<rparr>))" using c_unlock [OF that(2)] by (rule client)
    with 123 that(1) have "pool_steps n call q s (move_client c CIdle (u\<lparr>mutex_holder := None\<rparr>))" by (blast intro: pool_trans)
    with that show ?thesis by (intro exI [of _ "move_client c CIdle (u\<lparr>mutex_holder := None\<rparr>)"]) simp
  qed
  have same: "(client_at s)(c := CIdle) = client_at s" using idle by auto
  show ?thesis
  proof (cases "\<exists>w < n. worker_at s w = WAsleep")
    case True
    then obtain w where w: "w < n" "worker_at s w = WAsleep" by blast
    have "pool_step n call q ?s3 (move_client c CUnlock (move_worker w WWoken ?s3))"
      by (rule client [OF c_signal [of ?s3 c w]]) (use w in simp_all)
    from leave [OF this] w same show ?thesis unfolding wakes_one_def if_P [OF True] by fastforce
  next
    case False
    then have "pool_step n call q ?s3 (move_client c CUnlock ?s3)"
      by (intro client [OF c_signal_nobody [of ?s3 c]]) simp_all
    from leave [OF this] same show ?thesis unfolding wakes_one_def if_not_P [OF False] by fastforce
  qed
qed

subsection \<open>Running a job and waiting for it\<close>

text \<open>The run sees the result object at address \<open>r\<close>, whose mutex is free.\<close>

definition sees :: "('f, 'a, 'r) job_state \<Rightarrow> nat \<Rightarrow> 'r result_run \<Rightarrow> bool" where
  "sees js r s \<longleftrightarrow> rr_holder s = None \<and> (\<exists>x. cells (results js) r = Some x \<and> \<not> jr_mutex x
     \<and> rr_res s = jr_res x \<and> rr_done s = jr_done x)"

lemma exec_fail_steps:
  assumes "exec_at s = EStart" and "rr_holder s = None"
  shows "result_steps spurious A None s (s\<lparr>exec_at := EReturned, rr_holder := None, rr_done := -1\<rparr>)"
  by (rule run_moves_steps [of _ "replicate 3 (Exec 0)"])
    (use assms in \<open>simp_all add: exec_next_def numeral_eq_Suc\<close>)

lemma exec_call_steps:
  assumes at: "exec_at s = EStart" and free: "rr_holder s = None"
  shows "\<exists>t. result_steps spurious A (Some v) s t \<and> exec_at t = EReturned \<and> rr_holder t = None
    \<and> rr_res t = v \<and> rr_done t = 0 \<and> (\<forall>a. await_at t a = await_at s a \<or> await_at s a = ASleeping \<and> await_at t a = AWoken)"
proof -
  let ?s = "s\<lparr>exec_at := EDoneSet, rr_holder := Some Executor, rr_res := v, rr_done := 0\<rparr>"
  have "result_steps spurious A (Some v) s ?s"
    by (rule run_moves_steps [of _ "replicate 6 (Exec 0)"]) (use assms in \<open>simp_all add: exec_next_def numeral_eq_Suc\<close>)
  moreover have "\<exists>u. exec_step (Some v) ?s u \<and> exec_at u = ESignalled \<and> rr_res u = v \<and> rr_done u = 0
      \<and> (\<forall>a. await_at u a = await_at s a \<or> await_at s a = ASleeping \<and> await_at u a = AWoken)"
  proof (cases "\<exists>a. await_at s a = ASleeping")
    case True
    then obtain a where a: "await_at s a = ASleeping" by blast
    have "exec_step (Some v) ?s (set_await a AWoken (?s\<lparr>exec_at := ESignalled\<rparr>))"
      by (rule signal_one) (use a in simp_all)
    with a show ?thesis by (intro exI [of _ "set_await a AWoken (?s\<lparr>exec_at := ESignalled\<rparr>)"]) simp
  next
    case False
    then have "exec_step (Some v) ?s (?s\<lparr>exec_at := ESignalled\<rparr>)" by (intro signal_nobody) simp_all
    then show ?thesis by (intro exI [of _ "?s\<lparr>exec_at := ESignalled\<rparr>"]) simp
  qed
  then obtain u where u: "exec_step (Some v) ?s u" "exec_at u = ESignalled" "rr_res u = v" "rr_done u = 0"
    "\<forall>a. await_at u a = await_at s a \<or> await_at s a = ASleeping \<and> await_at u a = AWoken" by blast
  moreover have "exec_step (Some v) u (u\<lparr>exec_at := EReturned, rr_holder := None\<rparr>)" using u(2) by (rule done_unlock)
  ultimately have "result_steps spurious A (Some v) s (u\<lparr>exec_at := EReturned, rr_holder := None\<rparr>)"
    by (blast intro: steps_step by_executor)
  with u(3-5) show ?thesis by (intro exI [of _ "u\<lparr>exec_at := EReturned, rr_holder := None\<rparr>"]) simp
qed

lemma await_alone_steps:
  assumes at: "await_at s b = ACalling" and free: "rr_holder s = None"
  shows "result_steps spurious {b} fn s (if 0 < rr_done s then set_await b ASleeping s else set_await b (AReturned (rr_res s)) s)"
proof (cases "0 < rr_done s")
  case True
  have "result_steps spurious {b} fn s (set_await b ASleeping s)"
    by (rule run_moves_steps [of _ "replicate 2 (Await b)"]) (use assms True in \<open>simp_all add: await_next_def numeral_eq_Suc\<close>)
  with True show ?thesis by simp
next
  case False
  have "result_steps spurious {b} fn s (set_await b (AReturned (rr_res s)) s)"
    by (rule run_moves_steps [of _ "replicate 4 (Await b)"]) (use assms False in \<open>simp_all add: await_next_def numeral_eq_Suc\<close>)
  with False show ?thesis by simp
qed

subsection \<open>Properties\<close>

text \<open>
  a thread that calls \<open>threadpool_add_work\<close> and takes all its steps in one go does to the
  jobs and the queue what the definition of the function says, whatever state the workers are
  in: it returns with the mutex free, the job is the last of the queue, and at most one
  sleeping worker is woken.
\<close>

theorem add_work_alone:
  assumes "threadpool_add_work True True (Some p) f x st = ret (r, ev, st')"
    and "cells (pools st) p = Some y" and "tp_queue y = Some q"
    and "run_jobs s = tp_jobs st" and "mutex_holder s = None" and "client_at s c = CIdle"
  shows "\<exists>t a j. pool_steps n call q s t \<and> run_jobs t = tp_jobs st' \<and> history t = history s @ [Added a]
    \<and> cells (jobs (run_jobs t)) a = Some j \<and> job_jres j = r
    \<and> mutex_holder t = None \<and> client_at t = client_at s \<and> wakes_one n (worker_at s) (worker_at t)"
proof -
  from add_work_parts [OF assms(1-3)] obtain a js js1 j where
    new: "threadpool_job_new True True f x (run_jobs s) = (Some a, ev, js)"
    and add: "threadpool_job_queue_add_job (Some q) (Some a) js = ret js1"
    and j: "tp_jobs st' = js1" "cells (jobs js1) a = Some j" "job_jres j = r" unfolding assms(4) by blast
  from client_call_steps [OF assms(6,5) new add, of n call] obtain t where t: "pool_steps n call q s t" "run_jobs t = js1"
    "mutex_holder t = None" "client_at t = client_at s" "history t = history s @ [Added a]"
    "wakes_one n (worker_at s) (worker_at t)" by blast
  with j show ?thesis by (intro exI [of _ t] exI [of _ a] exI [of _ j]) simp
qed

theorem add_work_alone_witness:
  "\<exists>p q st r st' t a. threadpool_add_work True True (Some p) (Some 0) 10 (st :: (nat, nat, nat) tp_state) = ret (Some r, [], st')
    \<and> pool_steps 3 plus_one q (pool_start (tp_jobs st)) t \<and> run_jobs t = tp_jobs st' \<and> history t = [Added a]"
proof -
  obtain p q and st :: "(nat, nat, nat) tp_state" where at: "pool_at p q st []"
    using pool_new_at [OF no_pools_wf, of 3 "\<lambda>_. True"] by auto
  then obtain y where y: "cells (pools st) p = Some y" "tp_queue y = Some q" by (auto simp: pool_at_def)
  from add_work_at [OF at, of "Some 0" 10] obtain r st' where
    add: "threadpool_add_work True True (Some p) (Some 0) 10 st = ret (Some r, [], st')" by blast
  have "run_jobs (pool_start (tp_jobs st)) = tp_jobs st" "mutex_holder (pool_start (tp_jobs st)) = None"
    "client_at (pool_start (tp_jobs st)) 0 = CIdle" by (simp_all add: pool_start_def)
  from add_work_alone [OF add y this, of 3 plus_one] obtain t a where
    "pool_steps 3 plus_one q (pool_start (tp_jobs st)) t" "run_jobs t = tp_jobs st'"
    "history t = history (pool_start (tp_jobs st)) @ [Added a]" by blast
  with add show ?thesis by (intro exI conjI) (simp_all add: pool_start_def)
qed

text \<open>
  C27: the step relation of a job's result and the definitions of src/job.c agree: an executor
  that is alone leaves in the result object what \<open>threadpool_job_exec\<close> leaves there; and a
  thread that is alone gets from its steps what \<open>threadpool_job_result_await\<close> returns, or goes
  to sleep for ever where that call never returns.
\<close>

theorem job_calls_alone:
  assumes "sees js r s"
  shows "(cells (jobs js) a = Some j \<and> job_jres j = Some r \<and> exec_at s = EStart
        \<and> threadpool_job_exec call (Some a) js = ret (v, js') \<longrightarrow>
      (\<exists>t. result_steps False {} (map_option (\<lambda>f. v) (job_function j)) s t \<and> exec_at t = EReturned \<and> sees js' r t))
    \<and> (await_at s b = ACalling \<longrightarrow> (case threadpool_job_result_await (Some r) js of
        None \<Rightarrow> \<exists>t. result_steps False {b} fn s t \<and> await_at t b = ASleeping \<and> (\<forall>u. \<not> await_step b t u)
      | Some (Inl e) \<Rightarrow> False
      | Some (Inr u) \<Rightarrow> \<exists>t. result_steps False {b} fn s t \<and> await_at t b = AReturned u \<and> sees js r t))"
proof (intro conjI impI)
  obtain x where x: "cells (results js) r = Some x" "\<not> jr_mutex x" and free: "rr_holder s = None"
    and s: "rr_res s = jr_res x" "rr_done s = jr_done x" using assms by (auto simp: sees_def)
  assume "cells (jobs js) a = Some j \<and> job_jres j = Some r \<and> exec_at s = EStart
    \<and> threadpool_job_exec call (Some a) js = ret (v, js')"
  then have j: "cells (jobs js) a = Some j" "job_jres j = Some r" and start: "exec_at s = EStart"
    and run: "threadpool_job_exec call (Some a) js = ret (v, js')" by simp_all
  note exec = run [unfolded exec_outcome [OF j x]]
  show "\<exists>t. result_steps False {} (map_option (\<lambda>f. v) (job_function j)) s t \<and> exec_at t = EReturned \<and> sees js' r t"
  proof (cases "job_function j")
    case None
    with exec have "js' = js\<lparr>results := (results js)\<lparr>cells := (cells (results js))(r \<mapsto> x\<lparr>jr_done := -1, jr_mutex := False\<rparr>)\<rparr>\<rparr>"
      by (simp add: ret_def)
    with exec_fail_steps [OF start free, of False "{}"] s None show ?thesis
      by (intro exI [of _ "s\<lparr>exec_at := EReturned, rr_holder := None, rr_done := -1\<rparr>"]) (simp add: sees_def)
  next
    case (Some f)
    with exec have "js' = js\<lparr>results := (results js)\<lparr>cells := (cells (results js))(r \<mapsto> x\<lparr>jr_res := v, jr_done := 0, jr_mutex := False\<rparr>)\<rparr>\<rparr>"
      by (auto simp: ret_def bindX_ret_iff)
    with exec_call_steps [OF start free, of False "{}" v] Some show ?thesis by (auto simp: sees_def)
  qed
next
  obtain x where x: "cells (results js) r = Some x" "\<not> jr_mutex x" and free: "rr_holder s = None"
    and s: "rr_res s = jr_res x" "rr_done s = jr_done x" using assms by (auto simp: sees_def)
  assume call: "await_at s b = ACalling"
  show "case threadpool_job_result_await (Some r) js of
      None \<Rightarrow> \<exists>t. result_steps False {b} fn s t \<and> await_at t b = ASleeping \<and> (\<forall>u. \<not> await_step b t u)
    | Some (Inl e) \<Rightarrow> False
    | Some (Inr u) \<Rightarrow> \<exists>t. result_steps False {b} fn s t \<and> await_at t b = AReturned u \<and> sees js r t"
  proof (cases "0 < jr_done x")
    case True
    have "\<not> await_step b (set_await b ASleeping s) u" for u by (auto simp: await_step.simps)
    with await_alone_steps [OF call free, of False fn] True s(2) await_outcome [OF x] show ?thesis
      by (auto intro!: exI [of _ "set_await b ASleeping s"])
  next
    case False
    have "sees js r (set_await b (AReturned (rr_res s)) s)" using assms by (simp add: sees_def)
    with await_alone_steps [OF call free, of False fn] False s await_outcome [OF x] show ?thesis
      by (auto simp: ret_def intro!: exI [of _ "set_await b (AReturned (jr_res x)) s"])
  qed
qed

theorem job_calls_alone_witness:
  "\<exists>t u. result_steps False {} (Some (Some 11)) (result_start :: nat result_run) t \<and> exec_at t = EReturned \<and> rr_res t = Some 11
    \<and> result_steps False {7} (Some (Some 11)) (result_start :: nat result_run) u \<and> await_at u 7 = ASleeping"
proof -
  let ?j = "\<lparr>job_function = Some 0, job_arg = 10, job_next = None, job_jres = Some 0\<rparr>"
  let ?x = "\<lparr>jr_mutex = False, jr_res = None, jr_done = 1\<rparr>"
  obtain js :: "(nat, nat, nat) job_state" where js: "cells (jobs js) 0 = Some ?j" "cells (results js) 0 = Some ?x"
    by (rule that [of "\<lparr>jobs = \<lparr>cells = [0 \<mapsto> ?j], fresh = 1\<rparr>, results = \<lparr>cells = [0 \<mapsto> ?x], fresh = 1\<rparr>,
      queues = empty_store\<rparr>"]) simp_all
  let ?js = "js\<lparr>results := (results js)\<lparr>cells := (cells (results js))(0 \<mapsto> ?x\<lparr>jr_res := Some 11, jr_done := 0\<rparr>)\<rparr>\<rparr>"
  have sees: "sees js 0 result_start" using js by (simp add: sees_def result_start_def)
  have exec: "threadpool_job_exec plus_one (Some 0) js = ret (Some 11, ?js)"
    using exec_outcome [OF js(1) _ js(2)] by (simp add: plus_one_def ret_def)
  have await: "threadpool_job_result_await (Some 0) js = None" using await_outcome [OF js(2)] by simp
  note both = job_calls_alone [OF sees, of 0 ?j plus_one "Some 11" ?js 7 "Some (Some 11)"]
  have start: "exec_at result_start = EStart" "await_at (result_start :: nat result_run) 7 = ACalling" by (simp_all add: result_start_def)
  have "cells (jobs js) 0 = Some ?j \<and> job_jres ?j = Some 0 \<and> exec_at (result_start :: nat result_run) = EStart
    \<and> threadpool_job_exec plus_one (Some 0) js = ret (Some 11, ?js)" using js(1) exec start by simp
  from both [THEN conjunct1, THEN mp, OF this] obtain t :: "nat result_run" where
    "result_steps False {} (Some (Some 11)) result_start t" "exec_at t = EReturned" "sees ?js 0 t" by auto
  moreover from both [THEN conjunct2, THEN mp, OF start(2)] obtain u :: "nat result_run" where
    "result_steps False {7} (Some (Some 11)) result_start u" "await_at u 7 = ASleeping" unfolding await by auto
  ultimately show ?thesis by (intro exI [of _ t] exI [of _ u]) (simp add: sees_def)
qed

end
