(* ===== verification/UnitTests.thy ===== *)
theory UnitTests
  imports Stringh Status RequestProps Config RouterProps ResourceProps ServerProps ServerPool
begin

section \<open>The unit tests of the repository\<close>

text \<open>
  The cmocka tests of src/test, run on the model; each lemma has the name of its test. They
  show that the model agrees with what the authors expect of the code. Where a test depends on
  the scheduler the lemma is about every schedule. Three tests end with a call of
  \<open>threadpool_destroy\<close>, which has no defined behaviour (\<open>tp_create\<close>).
\<close>

subsection \<open>string.c\<close>

lemma streq: "httpserv_streq ''abc'' ''abc'' = 0" "httpserv_streq ''abc'' ''def'' \<noteq> 0"
  by code_simp+

lemma strstriplw: "\<exists>b. httpserv_strstriplw (Some (cstr ''  abc'')) = Inr (Some b) \<and> cstr_of b = Inr ''abc''"
proof -
  have "map_sum id (map_option cstr_of) (httpserv_strstriplw (Some (cstr ''  abc''))) = Inr (Some (Inr ''abc''))" by code_simp
  then show ?thesis by (cases "httpserv_strstriplw (Some (cstr ''  abc''))") auto
qed

lemma strstriptw: "\<exists>b. httpserv_strstriptw (Some (cstr ''abc  '')) = Inr (Some b) \<and> cstr_of b = Inr ''abc''"
proof -
  have "map_sum id (map_option cstr_of) (httpserv_strstriptw (Some (cstr ''abc  ''))) = Inr (Some (Inr ''abc''))" by code_simp
  then show ?thesis by (cases "httpserv_strstriptw (Some (cstr ''abc  ''))") auto
qed

lemma strstripltw: "\<exists>b. httpserv_strstripltw (Some (cstr ''  abc  '')) = Inr (Some b) \<and> cstr_of b = Inr ''abc''"
proof -
  have "map_sum id (map_option cstr_of) (httpserv_strstripltw (Some (cstr ''  abc  ''))) = Inr (Some (Inr ''abc''))" by code_simp
  then show ?thesis by (cases "httpserv_strstripltw (Some (cstr ''  abc  ''))") auto
qed

subsection \<open>http/method.c and status.c\<close>

lemma method_to_str: "httpserv_http_strmethod HTTPSERV_HTTP_METHOD_GET = Some ''GET''"
  by simp

lemma str_to_method: "httpserv_http_strtomethod ''GET'' = HTTPSERV_HTTP_METHOD_GET"
  by code_simp

lemma test_numstatus: "status_code HTTPSERV_HTTP_STATUS_OK = 200"
  by simp

lemma test_strstatus: "httpserv_http_strstatus (status_code HTTPSERV_HTTP_STATUS_OK) = Some ''OK''"
  by code_simp

subsection \<open>config.c\<close>

text \<open>The file src/test/test.conf.\<close>

definition test_conf :: string where
  "test_conf = ''# this is a comment'' @ [LF] @ ''http.some.value = hello'' @ [LF] @ ''http.ip = 127.0.0.1'' @ [LF]
     @ ''http.port = 8080'' @ [LF]"

lemma config_load: "\<exists>err cfg. httpserv_config_load alist_tree (\<lambda>_. Inr test_conf) ''test/test.conf'' = Inr (err, Some cfg)
  \<and> tree_get_node alist_tree cfg ''http.some.value'' = Some (Some ''hello'')"
proof -
  have "\<not> list_ex blank_side (complete_lines [] test_conf)"
    "alist_node (add_entries alist_tree (List.map_filter line_entry (complete_lines [] test_conf)) (tree_new alist_tree)) ''http.some.value''
      = Some (Some ''hello'')" by code_simp+
  with config_load_outcome [of "\<lambda>_. Inr test_conf" "''test/test.conf''" test_conf alist_tree] show ?thesis
    by (simp add: list_ex_iff alist_tree_def)
qed

subsection \<open>router.c\<close>

lemma route_create:
  assumes "regcomp [] = Some p" and "wf_store (routes st)"
  shows "\<exists>route st'. httpserv_route_new regcomp [] [] HTTPSERV_ROUTE_KIND_ALIAS st = (Some route, [], st')
    \<and> (\<exists>r. cells (routes st') route = Some r \<and> kind r = HTTPSERV_ROUTE_KIND_ALIAS)
    \<and> (\<exists>st''. httpserv_route_destroy (Some route) st' = Inr st'')"
proof -
  let ?n = "\<lparr>pattern = p, routepattern = [], kind = HTTPSERV_ROUTE_KIND_ALIAS, route_next = None\<rparr>"
  obtain a ns where a: "alloc (routes st) ?n = (a, ns)" by (cases "alloc (routes st) ?n")
  from wf_store_alloc [OF assms(2) a] have "cells ns a = Some ?n" by simp
  with a assms(1) show ?thesis by (simp add: httpserv_route_new_def httpserv_route_destroy_def heap_simps)
qed

lemma router_create:
  assumes "wf_store (routes st)" and "wf_store (routers st)"
  shows "\<exists>router st' st''. httpserv_router_new True st = (router, st') \<and> httpserv_router_destroy router st' = ret st''"
proof -
  obtain r st' where r: "httpserv_router_new True st = (r, st')" by (cases "httpserv_router_new True st")
  from router_new_has [OF assms r] obtain a as where "r = Some a" "router_at a st' as" using router_has_at by blast
  with destroy_outcome [of a st' as] r show ?thesis by blast
qed

text \<open>A pattern that compiles and matches everything.\<close>

lemma router_route:
  "\<exists>router route st st'. (let (router', st1) = httpserv_router_new True (empty_router_state :: string router_state);
        (route', ev, st2) = httpserv_route_new Some ''.*'' ''/'' HTTPSERV_ROUTE_KIND_ALIAS st1 in
      router' = router \<and> route' = Some route \<and> httpserv_router_add_route router route' st2 = ret st)
    \<and> map_option (map_sum id fst) (httpserv_router_lookup (\<lambda>_ _. True) router (Some ''/hello'') st) = ret (Some route)
    \<and> httpserv_router_destroy router st = ret st'"
proof -
  let ?n = "\<lparr>pattern = ''.*'', routepattern = ''/'', kind = HTTPSERV_ROUTE_KIND_ALIAS, route_next = None\<rparr>"
  let ?r = "\<lparr>route_head = Some 0, route_mutex = False\<rparr>"
  let ?st = "\<lparr>routes = \<lparr>cells = [0 \<mapsto> ?n], fresh = 1\<rparr>, routers = \<lparr>cells = [0 \<mapsto> ?r], fresh = 1\<rparr>\<rparr>"
  have made: "let (router', st1) = httpserv_router_new True (empty_router_state :: string router_state);
        (route', ev, st2) = httpserv_route_new Some ''.*'' ''/'' HTTPSERV_ROUTE_KIND_ALIAS st1 in
      router' = Some 0 \<and> route' = Some 0 \<and> httpserv_router_add_route (Some 0) route' st2 = ret ?st"
    by (simp add: httpserv_router_new_def httpserv_route_new_def httpserv_router_add_route_def empty_router_state_def
        empty_store_def alloc_def heap_simps lock_def unlock_def ret_def)
  have at: "router_at 0 ?st [0]" by (simp add: router_at_def wf_store_def)
  then have "router_has 0 ?st [route_entry ?n]" by (auto simp: router_has_def route_entry_def)
  from lookup_outcome [OF this, of "''/hello''" "\<lambda>_ _. True"] have
    "map_option (map_sum id fst) (httpserv_router_lookup (\<lambda>_ _. True) (Some 0) (Some ''/hello'') ?st) = ret (Some 0)"
    by (auto simp: route_for_def route_entry_def ret_def split: if_splits)
  with made destroy_outcome [OF at] show ?thesis by blast
qed

subsection \<open>resource.c\<close>

lemma resource_load:
  assumes "bytes \<noteq> []"
  shows "\<exists>res st st'. httpserv_resource_new (one_file 8 ''test/test.html'' bytes) ''test/test.html''
      \<lparr>resources = empty_store, loaders = empty_store, open_fds = [], mapped = 0\<rparr> = (Some res, [], st)
    \<and> httpserv_resource_destroy (Some res) st = Inr st'"
  using assms by (simp add: httpserv_resource_new_def httpserv_resource_destroy_def one_file_def sys_mmap_def alloc_def empty_store_def heap_simps)

subsection \<open>server.c\<close>

text \<open>On a system that has the address, a socket for it and the port.\<close>

lemma server_made_and_destroyed:
  assumes "inet_pton sys k ip = Some a" and "0 \<le> new_socket sys k" and "can_bind sys (new_socket sys k) (sockaddr k a port)"
  shows "\<exists>serv w' w''. httpserv_httpserver_new sys ip port k w = ret (Some serv, [], w')
    \<and> httpserv_httpserver_destroy (Some serv) w' = ret w''"
  using assms by (simp add: httpserv_httpserver_new_def httpserv_httpserver_destroy_def httpserv_net_connector_destroy_def
      Let_def ret_def)

lemmas serv_create_v4 = server_made_and_destroyed [where k = HTTPSERV_HTTPSERVER_ADDR_KIND_IPv4 and ip = "''127.0.0.1''" and port = 8080]
lemmas serv_create_v6 = server_made_and_destroyed [where k = HTTPSERV_HTTPSERVER_ADDR_KIND_IPv6 and ip = "''::1''" and port = 8080]

subsection \<open>threadpool.c\<close>

lemma tp_create:
  "\<exists>pool st. threadpool_new (\<lambda>_. True) 1 (no_pools :: (unit, nat, string) tp_state) = Inr (Some pool, st)
    \<and> threadpool_destroy (Some pool) st = Some (Inl JoinDetached)"
proof -
  from pool_new_at [OF no_pools_wf, of 1 "\<lambda>_. True"] obtain p q st where
    "threadpool_new (\<lambda>_. True) 1 (no_pools :: (unit, nat, string) tp_state) = Inr (Some p, st)" "pool_at p q st []" by auto
  with destroy_at show ?thesis by blast
qed

definition test_work :: "unit \<Rightarrow> nat \<Rightarrow> string option run" where
  "test_work f arg = ret (Some ''passed'')"

text \<open>
  When every job runs \<open>test_work\<close>, every run of the three workers ends, and then awaiting a job
  that was added returns the string of the test.
\<close>

lemma tp_add_job:
  assumes run: "pool_steps 3 test_work 0 (pool_start new_queue) s" and alive: "cancelled s = {}"
    and all: "\<forall>a f x r. payload_at (run_jobs s) a = Some (f, x, r) \<longrightarrow> f = Some ()"
  shows "\<not> (\<exists>f. f 0 = s \<and> (\<forall>i. work_step 3 test_work 0 (f i) (f (Suc i))))"
    and "work_steps 3 test_work 0 s t \<Longrightarrow> \<not> (\<exists>u. work_step 3 test_work 0 t u) \<Longrightarrow> a \<in> set (added_in (history t))
      \<Longrightarrow> \<exists>j. cells (jobs (run_jobs t)) a = Some j \<and> threadpool_job_result_await (job_jres j) (run_jobs t) = ret (Some ''passed'')"
proof -
  show "\<not> (\<exists>f. f 0 = s \<and> (\<forall>i. work_step 3 test_work 0 (f i) (f (Suc i))))"
    by (rule pool_runs_end [OF run new_queue_ok])
  assume steps: "work_steps 3 test_work 0 s t" and rest: "\<not> (\<exists>u. work_step 3 test_work 0 t u)"
    and a: "a \<in> set (added_in (history t))"
  have "jobs_return test_work (run_jobs s)" by (auto simp: jobs_return_def test_work_def ret_def)
  from runs_end_done [OF run new_queue_ok alive _ this steps] rest a obtain j v where j:
    "cells (jobs (run_jobs t)) a = Some j" "threadpool_job_result_await (job_jres j) (run_jobs t) = ret v"
    "work_value test_work j v" by auto
  have "pool_inv 0 s" using pool_steps_all [OF run new_queue_ok] by blast
  from work_steps_payload [OF steps this] have "payload_at (run_jobs s) a = payload_at (run_jobs t) a" by simp
  with j(1) all have "job_function j = Some ()" by (auto simp: payload_at_def payload_def)
  with j show "\<exists>j. cells (jobs (run_jobs t)) a = Some j
      \<and> threadpool_job_result_await (job_jres j) (run_jobs t) = ret (Some ''passed'')"
    by (auto simp: work_value_def test_work_def ret_def)
qed

end
