(* ===== verification/Spec2Isabelle.thy ===== *)
theory Spec2Isabelle
  imports Stringh Status RequestProps ResponseBuild Config Logging RouterProps ResourceProps WorkerSpec
    JobProps PoolSpec ServerPool ThreadpoolProps ServerProps CwebProps Release CallsAlone UnitTests
begin

text \<open>
  A model of httpserv: the library \<open>libhttpserv\<close> (src/src, src/include) and the web server
  \<open>cweb\<close> (src/cweb.c) that is built on it.

  \<^bold>\<open>The program.\<close> \<open>cweb\<close> reads its options and its configuration, opens a log, and makes a server
  with a router (regular expressions to targets), a resource loader (files below a root) and,
  if asked, a certificate. The running server makes a pool of threads, accepts connections
  and gives each to the pool as a job; the worker function of the job reads one request,
  parses it, looks its path up in the router, loads the file and writes the response. A
  signal ends the accept loop and the program cleans up.

  \<^bold>\<open>How C is modelled.\<close> (\<open>CPrelude\<close>, \<open>CNum\<close>, \<open>CHeap\<close>, \<open>StrBuild\<close>.) A block of memory is a list of bytes
  in which \<open>None\<close> was never written; a read or write outside it, a read of such a byte, a use of
  \<open>NULL\<close> or of a freed object, and joining a detached thread are values \<open>Inl u\<close> with \<open>u\<close> of the
  type \<open>ub\<close>. So \<open>'a res = ub + 'a\<close>, and \<open>'a run = 'a res option\<close> adds \<open>None\<close> for a call that never
  returns. No definition uses fuel: loops over an index are \<open>function\<close>s with a measure, loops
  over input or over a linked list that may not end are \<open>partial_function (option)\<close>, and a theorem
  that such a loop returns states the result it returns. \<open>int\<close>, \<open>size_t\<close> and \<open>uint16_t\<close> conversions
  are those of \<open>CNum\<close>; an index that is an \<open>int\<close> in the code is a \<open>nat\<close>, so the model is about data
  shorter than \<open>2 ^ 31\<close> bytes (so are the lengths that \<open>SSL_read\<close> and \<open>SSL_write\<close> take as \<open>int\<close>). Objects that are shared or linked live in a store from addresses to
  objects; a freed address is not used again. A mutex is a flag, and locking a locked one never
  returns (sequential parts) or waits for its holder (the step relations).

  \<^bold>\<open>Theories and sources.\<close> Functions keep their names.
  \<^item> \<open>Stringh\<close>: src/src/stringh.c. \<open>Status\<close>: src/src/http/status.c. \<open>RawData\<close>: src/src/data.c.
  \<^item> \<open>Request\<close>: src/src/http/request.c; the four loops of the parser are \<open>read_method\<close>, \<open>read_path\<close>,
    \<open>skip_line\<close> and \<open>read_headers\<close>. \<open>RequestParse\<close> has one lemma group per loop, \<open>RequestProps\<close> the
    round trip with the printer \<open>request_text\<close>, memory safety on any input, and header look-up.
  \<^item> \<open>Response\<close>: src/src/http/response.c and the version functions of src/src/httpserv.c, with
    the sizes of the heap blocks. \<open>ResponseBuild\<close>: for every sequence of calls, with any bytes in
    the bodies and any of the reallocations failing, the response is the one computed from the
    calls alone (\<open>filled_response_outcome\<close>): its headers in order, the last body there was memory
    for, and the length field; what is built from it is \<open>message_text\<close>, and where the blocks are
    too small.
  \<^item> \<open>Config\<close>, \<open>Release\<close>: src/src/config.c and the destructors of requests and configurations;
    the loader is compared with a line-by-line reading.
  \<^item> \<open>Logging\<close>: src/src/logging.c.
  \<^item> \<open>Router\<close>: src/src/router.c; \<open>RouterProps\<close> abstracts a router to the list of its entries,
    newest first, and describes look-up and the parser of route files over it.
  \<^item> \<open>Connector\<close>: src/src/net/connector.c and src/src/net/ssl.c. \<open>Channel\<close>: what a connection of
    either kind does with input and output, so that the theorems about workers and servers hold
    for plain and SSL connections alike. \<open>Resource\<close>, \<open>ResourceProps\<close>: src/src/resource.c, with
    the loader as a list of resources.
  \<^item> \<open>Worker\<close>: \<open>httpserv_httpserver_worker\<close> of src/src/net/server.c, one definition per stage.
    \<open>WorkerRead\<close> is about the reading loop, \<open>WorkerProps\<close> follows a request through the stages,
    \<open>WorkerAnswers\<close> has the theorems about whole requests. \<open>WorkerSpec\<close> is the contract of the
    worker: \<open>answer_to\<close> computes from any input, well formed or not, what happens, and the
    worker carries it out.
  \<^item> \<open>Server\<close>, \<open>ServerProps\<close>: the rest of src/src/net/server.c. \<open>accept_loop\<close> takes the
    connections that arrive, each with the moment of a stopping signal (before or after it was
    queued), if there is one. \<open>AcceptLoop\<close> has the lemmas about that loop: the connections it
    queues, their kind and their descriptors, and what it closes.
  \<^item> \<open>Job\<close>, \<open>JobQueue\<close>, \<open>JobProps\<close>: src/src/job.c on a store; a queue is abstracted to the list of
    its jobs. \<open>JobResult\<close>: one executor and any number of awaiting threads as a step relation.
  \<^item> \<open>Threadpool\<close>, \<open>ThreadpoolProps\<close>: the functions of src/src/threadpool.c as the owner of a pool
    calls them. \<open>PoolSteps\<close>: \<open>threadpool_worker_func\<close> and concurrent calls of
    \<open>threadpool_add_work\<close> as a step relation cut at the accesses to the mutex, the queue and the
    condition variable, with signals, spurious wake-ups and cancellation. Its invariants are in
    \<open>PoolSteps\<close> (mutual exclusion), \<open>PoolJobs\<close> (no job lost or run twice), \<open>PoolWakeups\<close> (no
    wake-up lost) and \<open>PoolRest\<close> (a finished job has the value of its function as its result);
    \<open>PoolProps\<close> has the theorems about them and \<open>PoolProgress\<close> the measure that makes every run
    of the pool end. \<open>PoolSpec\<close> is the abstract pool, a line of jobs and workers that take the
    first, which the step relation implements.
  \<^item> \<open>CallsAlone\<close>: \<open>threadpool_add_work\<close>, \<open>threadpool_job_exec\<close> and \<open>threadpool_job_result_await\<close>
    have a definition and steps; a thread that takes its steps without interruption does what
    the definition says.
  \<^item> \<open>ServerPool\<close>: the pool with \<open>httpserv_httpserver_worker\<close> as the function of its jobs: fewer
    hanging clients than threads do not keep the server from answering all others; as many hold
    it for ever.
  \<^item> \<open>Cweb\<close>, \<open>CwebProps\<close>: src/cweb.c, on the models above. Every command line is read as a list of
    items (\<open>arg_item\<close>), and the option loop is compared with what the items mean.
  \<^item> \<open>UnitTests\<close>: the tests of src/test as lemmas about the model.
  \<^item> This theory: properties from the accepted connection to the answer.

  \<^bold>\<open>Interfaces.\<close> Five contracts are locales, each interpreted on the code's definitions:
  \<open>str_builder\<close> (growing a string by one character: the two idioms of the parsers), \<open>registry\<close>
  (entries added in front and searched from there: the router and the resource loader),
  \<open>fifo_queue\<close> (the job queue), \<open>transitions\<close> (step relations and their runs: the awaiting
  threads, the pool, and the pool without new calls) and \<open>simulation\<close> (two of them, each step of
  one being a step of the other or none: the pool and the abstract pool).

  \<^bold>\<open>Parameters.\<close> Code outside src/ is an argument: the tree library (\<open>libtree\<close>, a submodule whose
  directory is empty; a node of it may have the value \<open>NULL\<close>), \<open>regcomp\<close> and \<open>regexec\<close>, OpenSSL (\<open>openssl\<close>), the file system (\<open>files\<close>, and
  a function from paths to contents), the network (\<open>net\<close>: pieces of input that arrive, and a trace
  of what the program does), the usable size of heap blocks, the answers of the socket and
  thread calls (\<open>system\<close>), \<open>fork\<close>, signals and the local time (\<open>cweb_env\<close>).

  \<^bold>\<open>Not modelled.\<close> A failing \<open>malloc\<close>, except for the sizes a request chooses and the bodies of
  responses in \<open>ResponseBuild\<close>; a client that stalls inside the body it announced (the input of a
  connection ends with its last piece, where \<open>read\<close> returns zero; before the blank line both mean
  that the worker never returns); two connections with the same descriptor in one run of
  \<open>ServerPool\<close> (what arrives is looked up by the value of \<open>worker_data\<close>, for which C has a fresh
  pointer per connection); short writes
  (a write to a connection takes all its bytes) and errors of \<open>close\<close>, none of which the code
  looks at; what is printed on
  stdout; the inner life of the tree library (its nodes appear as far as the code uses them)
  and of OpenSSL; the byte order of ports; the variable arguments of the logging functions,
  whose callers format their messages; data races of C11 (the steps are sequentially
  consistent; \<open>threadpool_ensure_jobs_done\<close> reads the queue's size without the mutex, so its
  readings are an argument); \<open>httpserv_raw_data_destroy\<close>, which is declared and never defined;
  the build files; of the tests, the calls of cmocka itself.
\<close>

section \<open>From the accepted connection to the answer\<close>

text \<open>What a worker finds for every connection of a server: the router and the loader in their states.\<close>

definition serving :: "httpserv_httpserver_t \<Rightarrow> 'p world \<Rightarrow> 'p entry list \<Rightarrow> string \<Rightarrow> nat list \<Rightarrow> bool" where
  "serving s v es rt as \<longleftrightarrow> (\<exists>a. sv_router s = Some a \<and> router_has a (w_routes v) es)
     \<and> (\<exists>b. sv_resload s = Some b \<and> loader_at b rt (w_resources v) as)"

lemma serving_ready:
  "serving s v es rt as \<Longrightarrow> channel_of k (sv_ckind s) = Some ch \<Longrightarrow> ready (connection_data s k) v ch es rt as"
  by (simp add: serving_def ready_def connection_data_def)

text \<open>
  C14: the parts fit together: for each descriptor that a running server, plain or SSL, accepts
  before it is told to stop, a connection to it is in the queue of its pool, as a call of the
  worker with the server's router and loader; and that call carries out the answer of the
  contract to whatever the client sends on the connection.
\<close>

theorem accepted_connection_answered:
  assumes "built s" and "httpserv_net_connector_get_fd (sv_conn s) (sv_ckind s) (s_net w) = Inr f"
    and "tp_wf (s_pool w)" and "wf_store (pools (s_pool w))" and "\<forall>i < n. can_spawn sys i" and "0 < n"
    and "can_listen sys f" and "sig \<noteq> NoSignal"
    and "serving s v es rt as" and "\<forall>h. env_ssl_accept env h \<noteq> -1" and "env_junk env = []"
    and "whole_mappings (env_files env) (w_resources v) as"
    and "answer_fits env (answer_to env es rt (w_resources v) as (concat (arrivals (w_net v))))"
  shows "\<exists>ev s' q bs w' k ch. httpserv_httpserver_run sys
        (map (\<lambda>c. (c, NoSignal)) (xs @ c # ys) @ [(c', sig)]) s n w = ret (0, ev, s', w')
    \<and> queue_at q (tp_jobs (s_pool w')) bs \<and> length xs < length bs
    \<and> work_of (s_pool w') (bs ! length xs) = Some (Some Httpserv_worker, connection_data s k)
    \<and> channel_of k (sv_ckind s) = Some ch \<and> httpserv_net_connector_get_fd k (sv_ckind s) (s_net w') = Inr c
    \<and> carries_out ch strerror (w_net v) (answer_to env es rt (w_resources v) as (concat (arrivals (w_net v))))
        (httpserv_httpserver_worker env (connection_data s k) strerror v)"
proof -
  from server_run_outcome [OF built_ok [OF assms(1)] assms(2-8), of "xs @ c # ys" c'] obtain ev pl q bs w' ks where run:
    "httpserv_httpserver_run sys (map (\<lambda>c. (c, NoSignal)) (xs @ c # ys) @ [(c', sig)]) s n w
      = ret (0, ev, s\<lparr>sv_tp := Some pl, keep_alive := False, alive := False\<rparr>, w')"
    "pool_at pl q (s_pool w') bs" "map (work_of (s_pool w')) bs = map (job_for s) ks"
    "queued_conns s (s_net w') ((xs @ c # ys) @ (if sig = AfterQueueing then [c'] else [])) ks" by blast
  let ?i = "length xs" and ?cs = "(xs @ c # ys) @ (if sig = AfterQueueing then [c'] else [])"
  have len: "length ks = length ?cs" using run(4) by (auto simp: queued_conns_def dest: list_all2_lengthD)
  then have i: "?i < length ks" "?cs ! ?i = c" by (simp_all add: nth_append)
  have "channel_of (ks ! ?i) (sv_ckind s) \<noteq> None" using run(4) i(1) by (simp add: queued_conns_def list_all_length)
  then obtain ch where ch: "channel_of (ks ! ?i) (sv_ckind s) = Some ch" by blast
  have "list_all2 (\<lambda>k c. httpserv_net_connector_get_fd k (sv_ckind s) (s_net w') = Inr c) ks ?cs"
    using run(4) by (simp add: queued_conns_def)
  from list_all2_nthD [OF this i(1)] have fd: "httpserv_net_connector_get_fd (ks ! ?i) (sv_ckind s) (s_net w') = Inr c"
    unfolding i(2) .
  have bs: "length bs = length ks" using arg_cong [OF run(3), of length] by simp
  have "map (work_of (s_pool w')) bs ! ?i = job_for s (ks ! ?i)" unfolding run(3) using i(1) by simp
  then have "work_of (s_pool w') (bs ! ?i) = Some (Some Httpserv_worker, connection_data s (ks ! ?i))"
    using i(1) bs by (simp add: job_for_def)
  moreover have "handshake (env_ssl_accept env) ch" using assms(10) by (cases ch) auto
  note worker_answers [OF serving_ready [OF assms(9) ch] this assms(12,11,13), of strerror]
  moreover have "queue_at q (tp_jobs (s_pool w')) bs" using run(2) by (auto simp: pool_at_def)
  ultimately show ?thesis using run(1) ch fd bs i(1) by (intro exI conjI) simp_all
qed

theorem accepted_connection_answered_witness:
  "\<exists>rs s ev s' q bs w' d v'. httpserv_httpserver_run example_system [(5, NoSignal), (6, AfterQueueing)] s 10 idle_world
      = ret (0, ev, s', w') \<and> queue_at q (tp_jobs (s_pool w')) bs
    \<and> work_of (s_pool w') (bs ! 0) = Some (Some Httpserv_worker, d)
    \<and> httpserv_httpserver_worker (example_env hello_files) d [] (example_world rs hello_input)
        = ret ([(LOG, ''request: GET /a'')], v')
    \<and> io (w_net v') = [Written 5 (ok_text (length ''hello'')), Written 5 ''hello'', Closed 5]"
proof -
  let ?s = "example_server\<lparr>sv_router := Some 0, sv_resload := Some 0\<rparr>"
  obtain rs :: "string router_state" where rs: "router_has 0 rs []" using no_routes by blast
  let ?v = "example_world rs hello_input" and ?env = "example_env hello_files"
  have "built (example_server\<lparr>sv_router := Some 0\<rparr>)"
    by (rule built_router [OF built_new [OF example_new]]) (simp add: httpserv_httpserver_add_router_def)
  then have "built ?s" by (rule built_loader) (simp add: httpserv_httpserver_add_resource_loader_def)
  moreover have "httpserv_net_connector_get_fd (sv_conn ?s) (sv_ckind ?s) (s_net idle_world) = Inr 3"
    "tp_wf (s_pool idle_world)" "wf_store (pools (s_pool idle_world))" "\<forall>i < 10. can_spawn example_system i"
    "(0 :: nat) < 10" "can_listen example_system 3" "AfterQueueing \<noteq> NoSignal"
    using no_pools_wf
    by (simp_all add: example_server_def example_system_def idle_world_def httpserv_net_connector_get_fd_def)
  moreover have "serving ?s ?v [] ''.'' []"
    using rs new_loader_at [of "''.''"] by (simp add: serving_def example_world_def)
  moreover have "\<forall>h. env_ssl_accept ?env h \<noteq> -1" "env_junk ?env = []"
    "whole_mappings (env_files ?env) (w_resources ?v) []"
    using hello_answer(3) by simp_all
  moreover have ans: "answer_to ?env [] ''.'' (w_resources ?v) [] (concat (arrivals (w_net ?v)))
      = Served [(LOG, ''request: GET /a'')] ''hello''" unfolding example_facts by (rule hello_answer(1))
  moreover note hello_answer(2)
  ultimately have "\<exists>ev s' q bs w' k ch. httpserv_httpserver_run example_system
        (map (\<lambda>c. (c, NoSignal)) ([] @ 5 # []) @ [(6, AfterQueueing)]) ?s 10 idle_world = ret (0, ev, s', w')
    \<and> queue_at q (tp_jobs (s_pool w')) bs \<and> length ([] :: int list) < length bs
    \<and> work_of (s_pool w') (bs ! length ([] :: int list)) = Some (Some Httpserv_worker, connection_data ?s k)
    \<and> channel_of k (sv_ckind ?s) = Some ch \<and> httpserv_net_connector_get_fd k (sv_ckind ?s) (s_net w') = Inr 5
    \<and> carries_out ch [] (w_net ?v) (answer_to ?env [] ''.'' (w_resources ?v) [] (concat (arrivals (w_net ?v))))
        (httpserv_httpserver_worker ?env (connection_data ?s k) [] ?v)"
    by (intro accepted_connection_answered) simp_all
  then obtain ev s' q bs w' k ch where 1: "httpserv_httpserver_run example_system [(5, NoSignal), (6, AfterQueueing)] ?s 10 idle_world
      = ret (0, ev, s', w')" "queue_at q (tp_jobs (s_pool w')) bs"
    "work_of (s_pool w') (bs ! 0) = Some (Some Httpserv_worker, connection_data ?s k)"
    "channel_of k (sv_ckind ?s) = Some ch" "httpserv_net_connector_get_fd k (sv_ckind ?s) (s_net w') = Inr 5"
    "carries_out ch [] (w_net ?v) (Served [(LOG, ''request: GET /a'')] ''hello'')
        (httpserv_httpserver_worker ?env (connection_data ?s k) [] ?v)" unfolding ans by auto
  have "ch = Plain 5" using 1(4,5) by (auto simp: example_server_def httpserv_net_connector_get_fd_def)
  with 1(6) obtain v' where "httpserv_httpserver_worker ?env (connection_data ?s k) [] ?v = ret ([(LOG, ''request: GET /a'')], v')"
    "io (w_net v') = [Written 5 (ok_text (length ''hello'')), Written 5 ''hello'', Closed 5]"
    by (auto simp: carries_out_def)
  with 1 show ?thesis
    by (intro exI [of _ rs] exI [of _ ?s] exI [of _ ev] exI [of _ s'] exI [of _ q] exI [of _ bs] exI [of _ w']
        exI [of _ "connection_data ?s k"] exI [of _ v']) simp
qed

end
